(* ===== verification/Prelude.thy ===== *)
theory Prelude
  imports Main "HOL-Library.Word" "HOL-Library.AList" "HOL-Library.Code_Target_Nat"
begin

section \<open>Prelude: Go maps, 64-bit integers and shared lemmas\<close>

text \<open>
  Shared vocabulary of the development.
  \<^item> \<open>int64\<close> is Go's \<open>int64\<close> (and \<open>int\<close> on the 64-bit targets the project builds for):
    a 64-bit word, read as a signed number with \<open>sint\<close>, compared with \<open><s\<close>.
  \<^item> \<open>'v gomap\<close> is Go's \<open>map[string]T\<close>: an association list with distinct keys
    (\<open>gomap_ok\<close>). Reading a missing key yields the zero value (\<open>mget\<close>), a store is
    \<open>AList.update\<close>, \<open>delete(m, k)\<close> is \<open>AList.delete\<close>, and \<open>len(m) == 0\<close> is
    \<open>m = []\<close>. Go iterates over a map in an unspecified order; the model iterates in list
    order, and every lemma is stated through \<open>map_of\<close> and \<open>mget\<close>, which forget it.
  \<^item> \<open>gomap_simps\<close> collects the rewrite rules of these operations.
\<close>

named_theorems gomap_simps "rewrite rules of the Go map operations"

type_synonym int64 = "64 word"
type_synonym 'v gomap = "(string \<times> 'v) list"

subsection \<open>Go maps\<close>

definition mget :: "'v \<Rightarrow> 'v gomap \<Rightarrow> string \<Rightarrow> 'v" where
  "mget z m k = (case map_of m k of None \<Rightarrow> z | Some v \<Rightarrow> v)"

definition gomap_ok :: "'v gomap \<Rightarrow> bool" where
  "gomap_ok m \<longleftrightarrow> distinct (map fst m)"

text \<open>\<open>m[k] += n\<close>\<close>

definition madd :: "string \<Rightarrow> int64 \<Rightarrow> int64 gomap \<Rightarrow> int64 gomap" where
  "madd k n m = AList.update k (mget 0 m k + n) m"

text \<open>\<open>for k, n := range ds \<open>{\<close> m[k] += n \<open>}\<close>\<close>\<close>

primrec madd_all :: "int64 gomap \<Rightarrow> int64 gomap \<Rightarrow> int64 gomap" where
  "madd_all [] m = m"
| "madd_all (d # ds) m = madd_all ds (madd (fst d) (snd d) m)"

text \<open>\<open>for _, k := range ks \<open>{\<close> m[k] = f(k) \<open>}\<close>\<close>\<close>

primrec mput_all :: "(string \<Rightarrow> 'v) \<Rightarrow> string list \<Rightarrow> 'v gomap \<Rightarrow> 'v gomap" where
  "mput_all f [] m = m"
| "mput_all f (k # ks) m = mput_all f ks (AList.update k (f k) m)"

lemma mget_Nil [simp]: "mget z [] k = z"
  by (simp add: mget_def)

lemma mget_update [simp, gomap_simps]:
  "mget z (AList.update k v m) k' = (if k' = k then v else mget z m k')"
  by (simp add: mget_def AList.update_conv')

lemma mget_delete [simp, gomap_simps]:
  "mget z (AList.delete k m) k' = (if k' = k then z else mget z m k')"
  by (simp add: mget_def AList.delete_conv')

lemma map_of_update [simp, gomap_simps]:
  "map_of (AList.update k v m) k' = (if k' = k then Some v else map_of m k')"
  by (simp add: AList.update_conv')

lemma map_of_delete_if [simp, gomap_simps]:
  "map_of (AList.delete k m) k' = (if k' = k then None else map_of m k')"
  by (simp add: AList.delete_conv')

lemma mget_madd [simp, gomap_simps]:
  "mget 0 (madd k n m) k' = (if k' = k then mget 0 m k + n else mget 0 m k')"
  by (simp add: madd_def)

lemma mget_notin: "k \<notin> fst ` set m \<Longrightarrow> mget z m k = z"
  by (simp add: mget_def map_of_eq_None_iff [THEN iffD2])

lemma mget_Some: "map_of m k = Some v \<Longrightarrow> mget z m k = v"
  by (simp add: mget_def)

lemma mget_Cons: "mget z ((k, v) # m) k' = (if k' = k then v else mget z m k')"
  by (simp add: mget_def)

lemma keys_update [simp]: "fst ` set (AList.update k v m) = insert k (fst ` set m)"
  by (simp add: AList.dom_update)

lemma keys_madd [simp]: "fst ` set (madd k n m) = insert k (fst ` set m)"
  by (simp add: madd_def)

lemma keys_delete: "fst ` set (AList.delete k m) \<subseteq> fst ` set m"
  by (rule AList.dom_delete_subset)

lemma gomap_ok_Nil [simp]: "gomap_ok []"
  by (simp add: gomap_ok_def)

lemma gomap_ok_update [simp]: "gomap_ok m \<Longrightarrow> gomap_ok (AList.update k v m)"
  by (simp add: gomap_ok_def AList.distinct_update)

lemma gomap_ok_delete [simp]: "gomap_ok m \<Longrightarrow> gomap_ok (AList.delete k m)"
  by (simp add: gomap_ok_def AList.distinct_delete)

lemma gomap_ok_madd [simp]: "gomap_ok m \<Longrightarrow> gomap_ok (madd k n m)"
  by (simp add: madd_def)

lemma gomap_ok_Cons: "gomap_ok ((k, v) # m) \<longleftrightarrow> k \<notin> fst ` set m \<and> gomap_ok m"
  by (auto simp: gomap_ok_def)

lemma gomap_ok_madd_all [simp]: "gomap_ok m \<Longrightarrow> gomap_ok (madd_all ds m)"
  by (induction ds arbitrary: m) auto

lemma keys_madd_all [simp]: "fst ` set (madd_all ds m) = fst ` set ds \<union> fst ` set m"
  by (induction ds arbitrary: m) auto

text \<open>Adding a whole map pointwise: the order in which Go iterates over it does not matter.\<close>

lemma mget_madd_all [gomap_simps]:
  "gomap_ok ds \<Longrightarrow> mget 0 (madd_all ds m) k = mget 0 m k + mget 0 ds k"
proof (induction ds arbitrary: m)
  case Nil
  then show ?case by simp
next
  case (Cons d ds)
  obtain k' n where d: "d = (k', n)" by (cases d)
  from Cons.prems d have ok: "gomap_ok ds" and fresh: "k' \<notin> fst ` set ds"
    by (simp_all add: gomap_ok_Cons)
  show ?case
    using Cons.IH [OF ok, of "madd k' n m"] mget_notin [OF fresh, of 0]
    by (simp add: d mget_Cons)
qed

lemma mget_mput_all [gomap_simps]:
  "mget z (mput_all f ks m) k = (if k \<in> set ks then f k else mget z m k)"
  by (induction ks arbitrary: m) auto

lemma map_of_mput_all [gomap_simps]:
  "map_of (mput_all f ks m) k = (if k \<in> set ks then Some (f k) else map_of m k)"
  by (induction ks arbitrary: m) auto

lemma keys_mput_all [simp]: "fst ` set (mput_all f ks m) = set ks \<union> fst ` set m"
  by (induction ks arbitrary: m) auto

lemma gomap_ok_mput_all [simp]: "gomap_ok m \<Longrightarrow> gomap_ok (mput_all f ks m)"
  by (induction ks arbitrary: m) auto

lemma gomap_Nil_iff: "m = [] \<longleftrightarrow> (\<forall>k. map_of m k = None)"
  by (cases m) (auto simp: map_of_eq_None_iff)

subsection \<open>Signed 64-bit arithmetic\<close>

lemma int64_range: "- (2 ^ 63) \<le> sint (x :: int64)" "sint (x :: int64) < 2 ^ 63"
  using sint_greater_eq [of x] sint_lt [of x] by simp_all

lemma sint_of_int64:
  "- (2 ^ 63) \<le> n \<Longrightarrow> n < 2 ^ 63 \<Longrightarrow> sint (word_of_int n :: int64) = n"
  using signed_take_bit_int_eq_self [of 63 n] by (simp add: sint_sbintrunc')

lemma sint_add_int64:
  fixes x y :: int64
  assumes "- (2 ^ 63) \<le> sint x + sint y" "sint x + sint y < 2 ^ 63"
  shows "sint (x + y) = sint x + sint y"
proof -
  have "x + y = word_of_int (sint x + sint y)" by simp
  then show ?thesis using sint_of_int64 [OF assms] by simp
qed

lemma sint_eq_iff: "sint x = n \<Longrightarrow> (x :: int64) = word_of_int n"
proof -
  assume "sint x = n"
  moreover have "x = word_of_int (sint x)" by simp
  ultimately show ?thesis by simp
qed

lemma sint_eq_0: "sint (x :: int64) = 0 \<longleftrightarrow> x = 0"
  using sint_eq_iff [of x 0] by auto

lemma sless_zero: "(0 :: int64) <s x \<longleftrightarrow> 0 < sint x"
  by (simp add: word_sless_alt)

subsection \<open>Lists\<close>

primrec join :: "string \<Rightarrow> string list \<Rightarrow> string" where
  "join sep [] = []"
| "join sep (x # xs) = (case xs of [] \<Rightarrow> x | _ \<Rightarrow> x @ sep @ join sep xs)"

lemma append_inj_at:
  assumes "xs @ c # ys = xs' @ c # ys'" "c \<notin> set xs" "c \<notin> set xs'"
  shows "xs = xs' \<and> ys = ys'"
  using assms by (induction xs arbitrary: xs') (case_tac xs', auto)+

end
