(* ===== verification/Go_Strings.thy ===== *)
theory Go_Strings
  imports Prelude "HOL-Library.Sublist"
begin

section \<open>Go strings: bytes, UTF-8 and the parts of package strings the program uses\<close>

text \<open>
  A Go string is a sequence of bytes, so it is a \<open>string\<close> (\<open>char list\<close>) here. Where the
  library works on runes the bytes are decoded the way \<open>utf8.DecodeRuneInString\<close> does: a byte
  that starts no valid encoding is the rune U+FFFD of width 1.

  The tables of package \<open>unicode\<close> are the one part of the standard library left open: the
  record \<open>unicode\<close> carries them as functions, for code points past the range that the library
  decides without a table (\<open>unicode.ToLower\<close> below 128, \<open>strconv.IsPrint\<close> below 256).
\<close>

record unicode =
  u_lower :: "nat \<Rightarrow> nat"
  u_print :: "nat \<Rightarrow> bool"

definition RuneError :: nat where
  "RuneError = 65533"

subsection \<open>UTF-8\<close>

abbreviation byte :: "char \<Rightarrow> nat" where
  "byte c \<equiv> of_char c"

definition cont :: "nat \<Rightarrow> nat \<Rightarrow> char \<Rightarrow> bool" where
  "cont lo hi c \<longleftrightarrow> lo \<le> byte c \<and> byte c \<le> hi"

text \<open>\<open>utf8.DecodeRuneInString\<close> on a non-empty string: the rune and its width in bytes.\<close>

definition decode_rune :: "string \<Rightarrow> nat \<times> nat" where
  "decode_rune s = (case s of [] \<Rightarrow> (RuneError, 0) | c # r \<Rightarrow>
     (let b = byte c in
      if b < 128 then (b, 1)
      else if 194 \<le> b \<and> b \<le> 223 then
        (case r of
           c1 # _ \<Rightarrow> if cont 128 191 c1 then ((b - 192) * 64 + (byte c1 - 128), 2) else (RuneError, 1)
         | [] \<Rightarrow> (RuneError, 1))
      else if 224 \<le> b \<and> b \<le> 239 then
        (case r of
           c1 # c2 # _ \<Rightarrow>
             if cont (if b = 224 then 160 else 128) (if b = 237 then 159 else 191) c1 \<and> cont 128 191 c2
             then ((b - 224) * 4096 + (byte c1 - 128) * 64 + (byte c2 - 128), 3) else (RuneError, 1)
         | _ \<Rightarrow> (RuneError, 1))
      else if 240 \<le> b \<and> b \<le> 244 then
        (case r of
           c1 # c2 # c3 # _ \<Rightarrow>
             if cont (if b = 240 then 144 else 128) (if b = 244 then 143 else 191) c1 \<and>
                cont 128 191 c2 \<and> cont 128 191 c3
             then ((b - 240) * 262144 + (byte c1 - 128) * 4096 + (byte c2 - 128) * 64 + (byte c3 - 128), 4)
             else (RuneError, 1)
         | _ \<Rightarrow> (RuneError, 1))
      else (RuneError, 1)))"

lemma decode_rune_width:
  "s \<noteq> [] \<Longrightarrow> 1 \<le> snd (decode_rune s) \<and> snd (decode_rune s) \<le> 4"
  by (auto simp: decode_rune_def Let_def split: list.split)

text \<open>\<open>for _, r := range s\<close>: the runes of a string, each with the bytes it was decoded from.\<close>

function runes :: "string \<Rightarrow> (nat \<times> string) list" where
  "runes s = (if s = [] then []
     else (let (r, n) = decode_rune s in (r, take n s) # runes (drop n s)))"
  by pat_completeness auto
termination
proof (relation "measure length")
  fix s :: string and x y z
  assume "s \<noteq> []" "x = decode_rune s" "(y, z) = x"
  then have "1 \<le> z" using decode_rune_width [of s] by (metis snd_conv)
  with \<open>s \<noteq> []\<close> show "(drop z s, s) \<in> measure length" by simp
qed simp

declare runes.simps [simp del]

lemma runes_Nil [simp]: "runes [] = []"
  by (simp add: runes.simps)

lemma runes_ascii_Cons:
  "byte c < 128 \<Longrightarrow> runes (c # s) = (byte c, [c]) # runes s"
  by (subst runes.simps) (simp add: decode_rune_def)

lemma runes_ascii:
  "\<forall>c\<in>set s. byte c < 128 \<Longrightarrow> runes s = map (\<lambda>c. (byte c, [c])) s"
  by (induction s) (auto simp: runes_ascii_Cons)

text \<open>No byte is lost: the chunks concatenate to the string.\<close>

lemma concat_runes: "concat (map snd (runes s)) = s"
proof (induction s rule: runes.induct)
  case (1 s)
  show ?case
  proof (cases "s = []")
    case False
    obtain r n where d: "decode_rune s = (r, n)" by fastforce
    have "concat (map snd (runes (drop n s))) = drop n s"
      using "1.IH" [OF False d [symmetric]] by simp
    then show ?thesis by (subst runes.simps) (simp add: d False)
  qed simp
qed

text \<open>\<open>utf8.AppendRune\<close>: surrogates and values past U+10FFFF are written as U+FFFD.\<close>

definition encode_rune :: "nat \<Rightarrow> string" where
  "encode_rune r0 =
     (let r = (if 1114111 < r0 \<or> (55296 \<le> r0 \<and> r0 \<le> 57343) then RuneError else r0) in
      if r < 128 then [char_of r]
      else if r < 2048 then [char_of (192 + r div 64), char_of (128 + r mod 64)]
      else if r < 65536 then
        [char_of (224 + r div 4096), char_of (128 + r div 64 mod 64), char_of (128 + r mod 64)]
      else [char_of (240 + r div 262144), char_of (128 + r div 4096 mod 64),
            char_of (128 + r div 64 mod 64), char_of (128 + r mod 64)])"

subsection \<open>Package strings\<close>

text \<open>\<open>strings.Contains\<close>: a scan over the positions of \<open>s\<close>.\<close>

fun Contains :: "string \<Rightarrow> string \<Rightarrow> bool" where
  "Contains [] sub = (sub = [])"
| "Contains (c # s) sub = (prefix sub (c # s) \<or> Contains s sub)"

lemma Contains_iff: "Contains s sub \<longleftrightarrow> (\<exists>p q. s = p @ sub @ q)"
proof (induction s)
  case Nil
  then show ?case by auto
next
  case (Cons c s)
  have "(\<exists>p q. c # s = p @ sub @ q) \<longleftrightarrow> prefix sub (c # s) \<or> (\<exists>p q. s = p @ sub @ q)"
    (is "?l = ?r")
  proof
    assume ?l
    then obtain p q where "c # s = p @ sub @ q" by blast
    then show ?r by (cases p) (auto simp: prefix_def)
  next
    assume ?r
    then show ?l
    proof
      assume "prefix sub (c # s)"
      then obtain q where "c # s = [] @ sub @ q" by (auto simp: prefix_def)
      then show ?l by blast
    next
      assume "\<exists>p q. s = p @ sub @ q"
      then obtain p q where "c # s = (c # p) @ sub @ q" by auto
      then show ?l by blast
    qed
  qed
  with Cons show ?case by simp
qed

lemma Contains_refl [simp]: "Contains s s"
  unfolding Contains_iff by (metis append_Nil append_Nil2)

lemma Contains_Nil [simp]: "Contains s []"
  unfolding Contains_iff by auto

lemma Contains_trans: "Contains t u \<Longrightarrow> Contains s t \<Longrightarrow> Contains s u"
  unfolding Contains_iff by (metis append.assoc)

lemma Contains_length: "Contains s sub \<Longrightarrow> length sub \<le> length s"
  unfolding Contains_iff by auto

lemma Contains_eq_length: "Contains s sub \<Longrightarrow> length s \<le> length sub \<Longrightarrow> s = sub"
  unfolding Contains_iff by auto

definition HasPrefix :: "string \<Rightarrow> string \<Rightarrow> bool" where
  "HasPrefix s p = prefix p s"

definition HasSuffix :: "string \<Rightarrow> string \<Rightarrow> bool" where
  "HasSuffix s p = suffix p s"

text \<open>\<open>strings.ContainsAny\<close> for a set of ASCII characters.\<close>

definition ContainsAny :: "string \<Rightarrow> string \<Rightarrow> bool" where
  "ContainsAny s chars = (\<exists>c\<in>set s. c \<in> set chars)"

text \<open>\<open>strings.IndexByte\<close> and its mirror image; \<open>None\<close> is the \<open>-1\<close> of the library.\<close>

fun IndexByte :: "string \<Rightarrow> char \<Rightarrow> nat option" where
  "IndexByte [] b = None"
| "IndexByte (c # s) b = (if c = b then Some 0 else map_option Suc (IndexByte s b))"

fun LastIndexByte :: "string \<Rightarrow> char \<Rightarrow> nat option" where
  "LastIndexByte [] b = None"
| "LastIndexByte (c # s) b =
     (case LastIndexByte s b of Some i \<Rightarrow> Some (Suc i) | None \<Rightarrow> if c = b then Some 0 else None)"

lemma IndexByte_None: "IndexByte s b = None \<longleftrightarrow> b \<notin> set s"
  by (induction s) auto

lemma IndexByte_Some:
  "IndexByte s b = Some i \<Longrightarrow> i < length s \<and> s ! i = b \<and> b \<notin> set (take i s)"
  by (induction s arbitrary: i) (auto split: if_splits simp: less_Suc_eq_0_disj)

lemma LastIndexByte_None: "LastIndexByte s b = None \<longleftrightarrow> b \<notin> set s"
  by (induction s) (auto split: option.splits)

lemma LastIndexByte_Some:
  "LastIndexByte s b = Some i \<Longrightarrow> i < length s \<and> s ! i = b \<and> b \<notin> set (drop (Suc i) s)"
proof (induction s arbitrary: i)
  case (Cons c s)
  show ?case
  proof (cases "LastIndexByte s b")
    case None
    with Cons.prems show ?thesis by (auto simp: LastIndexByte_None split: if_splits)
  next
    case (Some j)
    with Cons.prems Cons.IH [OF Some] show ?thesis by auto
  qed
qed simp

subsection \<open>Letters and spaces\<close>

text \<open>\<open>unicode.ToLower\<close>: ASCII is decided without the table.\<close>

definition rune_lower :: "unicode \<Rightarrow> nat \<Rightarrow> nat" where
  "rune_lower uc r =
     (if r \<le> 127 then (if 65 \<le> r \<and> r \<le> 90 then r + 32 else r) else u_lower uc r)"

definition ascii_lower :: "char \<Rightarrow> char" where
  "ascii_lower c = (if 65 \<le> byte c \<and> byte c \<le> 90 then char_of (byte c + 32) else c)"

text \<open>
  \<open>strings.ToLower\<close>: byte by byte on an ASCII string, otherwise \<open>strings.Map(unicode.ToLower, s)\<close>,
  which decodes, maps and re-encodes every rune.
\<close>

definition ToLower :: "unicode \<Rightarrow> string \<Rightarrow> string" where
  "ToLower uc s =
     (if \<forall>c\<in>set s. byte c < 128 then map ascii_lower s
      else concat (map (\<lambda>(r, _). encode_rune (rune_lower uc r)) (runes s)))"

lemma ToLower_Nil [simp]: "ToLower uc [] = []"
  by (simp add: ToLower_def)

lemma ascii_lower_ascii: "byte c < 128 \<Longrightarrow> byte (ascii_lower c) < 128"
  by (simp add: ascii_lower_def)

lemma ascii_lower_idem: "ascii_lower (ascii_lower c) = ascii_lower c"
  by (simp add: ascii_lower_def)

text \<open>\<open>unicode.IsSpace\<close>: the property White_Space.\<close>

definition IsSpace :: "nat \<Rightarrow> bool" where
  "IsSpace r \<longleftrightarrow> r \<in> {9, 10, 11, 12, 13, 32, 133, 160, 5760, 8232, 8233, 8239, 8287, 12288}
     \<or> (8192 \<le> r \<and> r \<le> 8202)"

text \<open>\<open>strings.ContainsFunc(s, unicode.IsSpace)\<close>\<close>

definition ContainsSpace :: "string \<Rightarrow> bool" where
  "ContainsSpace s = (\<exists>(r, _)\<in>set (runes s). IsSpace r)"

text \<open>\<open>strings.TrimSpace\<close>\<close>

definition TrimSpace :: "string \<Rightarrow> string" where
  "TrimSpace s =
     (let sp = (\<lambda>(r, _). IsSpace r);
          l = dropWhile sp (runes s);
          m = rev (dropWhile sp (rev l))
      in concat (map snd m))"

lemma runes_nonempty_chunk: "(r, t) \<in> set (runes s) \<Longrightarrow> t \<noteq> []"
proof (induction s rule: runes.induct)
  case (1 s)
  obtain r' n where d: "decode_rune s = (r', n)" by fastforce
  show ?case
  proof (cases "s = []")
    case False
    have "1 \<le> n" using decode_rune_width [OF False] d by simp
    with "1.IH" [OF False d [symmetric]] "1.prems" False show ?thesis
      by (subst (asm) runes.simps) (auto simp: d)
  qed (use "1.prems" in simp)
qed

text \<open>The emptiness test of the validator: nothing but white space.\<close>

lemma trim_both_empty:
  "dropWhile P (rev (dropWhile P xs)) = [] \<longleftrightarrow> (\<forall>x\<in>set xs. P x)"
  by (induction xs) auto

lemma concat_nonempty_chunks:
  "(\<forall>x\<in>set xs. snd x \<noteq> []) \<Longrightarrow> concat (map snd xs) = [] \<longleftrightarrow> xs = []"
  by (cases xs) auto

lemma TrimSpace_empty_iff: "TrimSpace s = [] \<longleftrightarrow> (\<forall>(r, _)\<in>set (runes s). IsSpace r)"
proof -
  let ?sp = "\<lambda>(r, _ :: string). IsSpace r"
  let ?m = "rev (dropWhile ?sp (rev (dropWhile ?sp (runes s))))"
  have "set ?m \<subseteq> set (runes s)"
    by (auto dest!: set_dropWhileD)
  then have "\<forall>x\<in>set ?m. snd x \<noteq> []"
    using runes_nonempty_chunk by fastforce
  then have "TrimSpace s = [] \<longleftrightarrow> ?m = []"
    unfolding TrimSpace_def Let_def by (rule concat_nonempty_chunks)
  also have "?m = [] \<longleftrightarrow> dropWhile ?sp (rev (dropWhile ?sp (runes s))) = []" by simp
  also have "\<dots> \<longleftrightarrow> (\<forall>x\<in>set (runes s). ?sp x)" by (rule trim_both_empty)
  finally show ?thesis .
qed

end
