(* ===== verification/Counter.thy ===== *)
theory Counter
  imports Go_Strings
begin

section \<open>The matching rule and the buffer of pending increments (internal/counter)\<close>

text \<open>
  \<open>counter\<close> is the struct \<open>Counter\<close> without its mutex; every exported method runs under the
  mutex, so one call is one atomic step and an execution is a sequence of calls. The component's
  contract towards the daemon is the locale \<open>increment_buffer\<close>, interpreted here. The section on
  interleavings lets the consumer goroutine and the flushing goroutine take turns freely.
\<close>

record counter =
  c_actions :: "string list"
  caseSensitive :: bool
  needles :: "string list"
  pending :: "int64 gomap"
  matched :: "int64 gomap"
  lines :: int64

subsection \<open>Operations\<close>

text \<open>What is searched for: the word itself, or its lowercased form.\<close>

definition needle :: "unicode \<Rightarrow> bool \<Rightarrow> string \<Rightarrow> string" where
  "needle uc cs a = (if cs then a else ToLower uc a)"

definition Counter_New :: "unicode \<Rightarrow> string list \<Rightarrow> bool \<Rightarrow> counter" where
  "Counter_New uc actions cs =
     \<lparr>c_actions = actions, caseSensitive = cs, needles = map (needle uc cs) actions,
      pending = [], matched = mput_all (\<lambda>_. 0) actions [], lines = 0\<rparr>"

text \<open>The loop of \<open>match\<close>: \<open>needles\<close> and \<open>actions\<close> are walked in parallel.\<close>

fun match_loop :: "string \<Rightarrow> string list \<Rightarrow> string list \<Rightarrow> string list" where
  "match_loop line (n # ns) (a # as) =
     (if Contains line n then a # match_loop line ns as else match_loop line ns as)"
| "match_loop line ns as = []"

definition match :: "unicode \<Rightarrow> counter \<Rightarrow> string \<Rightarrow> string list" where
  "match uc c line =
     (let line = (if \<not> caseSensitive c then ToLower uc line else line)
      in match_loop line (needles c) (c_actions c))"

text \<open>\<open>for _, a := range matched \<open>{\<close> m[a]++ \<open>}\<close>\<close>\<close>

primrec bump_all :: "string list \<Rightarrow> int64 gomap \<Rightarrow> int64 gomap" where
  "bump_all [] m = m"
| "bump_all (a # as) m = bump_all as (madd a 1 m)"

definition ProcessLine :: "unicode \<Rightarrow> string \<Rightarrow> counter \<Rightarrow> counter \<times> string list" where
  "ProcessLine uc line c =
     (let ms = match uc c line in
      (c\<lparr>lines := lines c + 1, pending := bump_all ms (pending c), matched := bump_all ms (matched c)\<rparr>, ms))"

definition Drain :: "counter \<Rightarrow> counter \<times> int64 gomap" where
  "Drain c = (if pending c = [] then (c, []) else (c\<lparr>pending := []\<rparr>, pending c))"

definition Restore :: "int64 gomap \<Rightarrow> counter \<Rightarrow> counter" where
  "Restore deltas c =
     (if deltas = [] then c else c\<lparr>pending := madd_all deltas (pending c)\<rparr>)"

definition Matched :: "counter \<Rightarrow> int64 gomap" where
  "Matched c = mput_all (mget 0 (matched c)) (map fst (matched c)) []"

definition PendingByAction :: "counter \<Rightarrow> int64 gomap" where
  "PendingByAction c = mput_all (mget 0 (pending c)) (c_actions c) []"

definition Pending :: "counter \<Rightarrow> int64" where
  "Pending c = fold (\<lambda>d total. total + snd d) (pending c) 0"

definition Lines :: "counter \<Rightarrow> int64" where
  "Lines c = lines c"

subsection \<open>Well-formed counters\<close>

definition counter_ok :: "unicode \<Rightarrow> counter \<Rightarrow> bool" where
  "counter_ok uc c \<longleftrightarrow>
     gomap_ok (pending c) \<and> gomap_ok (matched c) \<and>
     fst ` set (matched c) = set (c_actions c) \<and>
     fst ` set (pending c) \<subseteq> set (c_actions c) \<and>
     needles c = map (needle uc (caseSensitive c)) (c_actions c)"

text \<open>The rule of the specification: the folded word occurs somewhere in the folded line.\<close>

definition line_matches :: "unicode \<Rightarrow> bool \<Rightarrow> string \<Rightarrow> string \<Rightarrow> bool" where
  "line_matches uc cs line a \<longleftrightarrow> (\<exists>p q. needle uc cs line = p @ needle uc cs a @ q)"

lemma line_matches_code [code]: "line_matches uc cs line a = Contains (needle uc cs line) (needle uc cs a)"
  by (simp add: line_matches_def Contains_iff)

lemma match_loop_filter:
  "match_loop line (map f as) as = filter (\<lambda>a. Contains line (f a)) as"
  by (induction as) auto

lemma match_filter:
  "counter_ok uc c \<Longrightarrow>
     match uc c line = filter (line_matches uc (caseSensitive c) line) (c_actions c)"
  by (simp add: match_def counter_ok_def match_loop_filter line_matches_def [abs_def] Contains_iff needle_def)

lemma mget_bump_all [gomap_simps]:
  "mget 0 (bump_all as m) k = mget 0 m k + of_nat (count_list as k)"
  by (induction as arbitrary: m) (auto simp: algebra_simps)

lemma gomap_ok_bump_all [simp]: "gomap_ok m \<Longrightarrow> gomap_ok (bump_all as m)"
  by (induction as arbitrary: m) auto

lemma keys_bump_all [simp]: "fst ` set (bump_all as m) = set as \<union> fst ` set m"
  by (induction as arbitrary: m) auto

lemma count_list_filter: "distinct xs \<Longrightarrow> count_list (filter P xs) k = (if k \<in> set xs \<and> P k then 1 else 0)"
  by (induction xs) auto

lemma counter_ok_New [simp]: "counter_ok uc (Counter_New uc actions cs)"
  by (simp add: counter_ok_def Counter_New_def)

lemma counter_ok_ProcessLine: "counter_ok uc c \<Longrightarrow> counter_ok uc (fst (ProcessLine uc l c))"
  using match_filter [of uc c l] by (auto simp: counter_ok_def ProcessLine_def Let_def)

lemma counter_ok_Drain: "counter_ok uc c \<Longrightarrow> counter_ok uc (fst (Drain c))"
  by (auto simp: counter_ok_def Drain_def)

lemma counter_ok_Restore:
  "counter_ok uc c \<Longrightarrow> fst ` set ds \<subseteq> set (c_actions c) \<Longrightarrow> counter_ok uc (Restore ds c)"
  by (auto simp: counter_ok_def Restore_def)

lemma counter_frame [simp]:
  "c_actions (fst (ProcessLine uc l c)) = c_actions c"
  "c_actions (fst (Drain c)) = c_actions c"
  "c_actions (Restore ds c) = c_actions c"
  "caseSensitive (fst (ProcessLine uc l c)) = caseSensitive c"
  "caseSensitive (fst (Drain c)) = caseSensitive c"
  "caseSensitive (Restore ds c) = caseSensitive c"
  "matched (fst (Drain c)) = matched c"
  "matched (Restore ds c) = matched c"
  "lines (fst (Drain c)) = lines c"
  "lines (Restore ds c) = lines c"
  by (simp_all add: ProcessLine_def Drain_def Restore_def Let_def)

subsection \<open>The contract of the buffer\<close>

text \<open>
  What the daemon relies on. \<open>buffered c a\<close> is the increment of \<open>a\<close> waiting in the buffer,
  \<open>total c a\<close> the monotonic total since the start, \<open>words c\<close> the configured words.
\<close>

locale increment_buffer =
  fixes ok :: "'c \<Rightarrow> bool"
    and words :: "'c \<Rightarrow> string set"
    and buffered :: "'c \<Rightarrow> string \<Rightarrow> int64"
    and total :: "'c \<Rightarrow> string \<Rightarrow> int64"
    and process :: "'l \<Rightarrow> 'c \<Rightarrow> 'c \<times> string list"
    and drain :: "'c \<Rightarrow> 'c \<times> int64 gomap"
    and restore :: "int64 gomap \<Rightarrow> 'c \<Rightarrow> 'c"
  assumes process_ok: "ok c \<Longrightarrow> ok (fst (process l c)) \<and> words (fst (process l c)) = words c"
    and process_buffered: "ok c \<Longrightarrow>
      buffered (fst (process l c)) a = buffered c a + of_nat (count_list (snd (process l c)) a)"
    and process_total: "ok c \<Longrightarrow>
      total (fst (process l c)) a = total c a + of_nat (count_list (snd (process l c)) a)"
    and drain_ok: "ok c \<Longrightarrow> ok (fst (drain c)) \<and> words (fst (drain c)) = words c"
    and drain_deltas: "ok c \<Longrightarrow> gomap_ok (snd (drain c)) \<and> fst ` set (snd (drain c)) \<subseteq> words c"
    and drain_empties: "ok c \<Longrightarrow> buffered (fst (drain c)) a = 0"
    and drain_returns: "ok c \<Longrightarrow> mget 0 (snd (drain c)) a = buffered c a"
    and drain_total: "ok c \<Longrightarrow> total (fst (drain c)) a = total c a"
    and restore_ok: "ok c \<Longrightarrow> fst ` set ds \<subseteq> words c \<Longrightarrow> ok (restore ds c) \<and> words (restore ds c) = words c"
    and restore_buffered: "ok c \<Longrightarrow> gomap_ok ds \<Longrightarrow> buffered (restore ds c) a = buffered c a + mget 0 ds a"
    and restore_total: "ok c \<Longrightarrow> total (restore ds c) a = total c a"
    and process_same: "ok c \<Longrightarrow> fst ` set ds \<subseteq> words c \<Longrightarrow>
      snd (process l (restore ds c)) = snd (process l c)"
begin

text \<open>A failed flush that gives everything back leaves the buffer as it was.\<close>

lemma restore_drained:
  assumes "ok c"
  shows "buffered (restore (snd (drain c)) (fst (drain c))) a = buffered c a"
  using drain_ok [OF assms] drain_deltas [OF assms] drain_empties [OF assms] drain_returns [OF assms]
  by (simp add: restore_buffered)

text \<open>What is not given back is exactly what has left the buffer.\<close>

lemma restore_part:
  assumes "ok c" and "gomap_ok ds" and "\<And>a. mget 0 ds a = (if P a then 0 else buffered c a)"
  shows "buffered (restore ds (fst (drain c))) a = (if P a then 0 else buffered c a)"
  using assms drain_ok [OF assms(1)] drain_empties [OF assms(1)] by (simp add: restore_buffered)

text \<open>
  A line counted while a flush is in progress: it makes no difference whether the consumer gets
  the mutex before or after the flush gives its failed increments back.
\<close>

lemma restore_process_commute:
  assumes "ok c" "gomap_ok ds" "fst ` set ds \<subseteq> words c"
  shows "buffered (fst (process l (restore ds c))) a = buffered (restore ds (fst (process l c))) a"
  using process_ok [OF assms(1)] restore_ok [OF assms(1,3)] process_same [OF assms(1,3)] assms
  by (simp add: process_buffered restore_buffered)

end

definition buffered :: "counter \<Rightarrow> string \<Rightarrow> int64" where
  "buffered c = mget 0 (pending c)"

definition total_matched :: "counter \<Rightarrow> string \<Rightarrow> int64" where
  "total_matched c = mget 0 (matched c)"

lemma Drain_deltas:
  "snd (Drain c) = pending c" "pending (fst (Drain c)) = []"
  by (simp_all add: Drain_def)

lemma ProcessLine_pending:
  "pending (fst (ProcessLine uc l c)) = bump_all (snd (ProcessLine uc l c)) (pending c)"
  by (simp add: ProcessLine_def Let_def)

lemma ProcessLine_matched:
  "matched (fst (ProcessLine uc l c)) = bump_all (snd (ProcessLine uc l c)) (matched c)"
  by (simp add: ProcessLine_def Let_def)

lemma Restore_pending: "pending (Restore ds c) = madd_all ds (pending c)"
  by (simp add: Restore_def)

lemma counter_okD:
  "counter_ok uc c \<Longrightarrow> gomap_ok (pending c)"
  "counter_ok uc c \<Longrightarrow> x \<in> set (pending c) \<Longrightarrow> fst x \<in> set (c_actions c)"
  "counter_ok uc c \<Longrightarrow> gomap_ok (matched c)"
  "counter_ok uc c \<Longrightarrow> fst ` set (matched c) = set (c_actions c)"
  by (auto simp: counter_ok_def)

interpretation cb: increment_buffer "counter_ok uc" "\<lambda>c. set (c_actions c)" buffered total_matched
  "ProcessLine uc" Drain Restore
  for uc
proof (unfold_locales, goal_cases)
  case (12 c ds l)
  then show ?case
    using match_filter [of uc c l] match_filter [OF counter_ok_Restore [OF 12], of l]
    by (simp add: ProcessLine_def Let_def)
qed (auto simp: counter_ok_ProcessLine counter_ok_Drain counter_ok_Restore buffered_def
      total_matched_def Drain_deltas gomap_simps ProcessLine_pending ProcessLine_matched
      Restore_pending dest: counter_okD)

subsection \<open>Counting lines\<close>

primrec ProcessLines :: "unicode \<Rightarrow> string list \<Rightarrow> counter \<Rightarrow> counter" where
  "ProcessLines uc [] c = c"
| "ProcessLines uc (l # ls) c = ProcessLines uc ls (fst (ProcessLine uc l c))"

lemma counter_ok_ProcessLines: "counter_ok uc c \<Longrightarrow> counter_ok uc (ProcessLines uc ls c)"
  by (induction ls arbitrary: c) (auto simp: counter_ok_ProcessLine)

lemma ProcessLine_count:
  assumes "counter_ok uc c" "distinct (c_actions c)"
  shows "count_list (snd (ProcessLine uc l c)) a =
    (if a \<in> set (c_actions c) \<and> line_matches uc (caseSensitive c) l a then 1 else 0)"
  using assms by (simp add: ProcessLine_def Let_def match_filter count_list_filter)

definition hits :: "unicode \<Rightarrow> counter \<Rightarrow> string list \<Rightarrow> string \<Rightarrow> nat" where
  "hits uc c ls a =
     (if a \<in> set (c_actions c) then length (filter (\<lambda>l. line_matches uc (caseSensitive c) l a) ls) else 0)"

lemma ProcessLines_frame [simp]:
  "c_actions (ProcessLines uc ls c) = c_actions c"
  "caseSensitive (ProcessLines uc ls c) = caseSensitive c"
  by (induction ls arbitrary: c) auto

lemma hits_Cons:
  assumes "counter_ok uc c" "distinct (c_actions c)"
  shows "hits uc c (l # ls) a =
    hits uc (fst (ProcessLine uc l c)) ls a + count_list (snd (ProcessLine uc l c)) a"
  using ProcessLine_count [OF assms] by (simp add: hits_def)

lemma ProcessLines_totals:
  assumes "counter_ok uc c" "distinct (c_actions c)"
  shows "buffered (ProcessLines uc ls c) a = buffered c a + of_nat (hits uc c ls a) \<and>
    total_matched (ProcessLines uc ls c) a = total_matched c a + of_nat (hits uc c ls a)"
  using assms
proof (induction ls arbitrary: c)
  case (Cons l ls)
  let ?c = "fst (ProcessLine uc l c)"
  have "counter_ok uc ?c" "distinct (c_actions ?c)"
    using Cons.prems counter_ok_ProcessLine by simp_all
  then show ?case
    using Cons.IH [of ?c] cb.process_buffered [OF Cons.prems(1)] cb.process_total [OF Cons.prems(1)]
    by (simp add: hits_Cons [OF Cons.prems] algebra_simps)
qed (simp add: hits_def)

lemma ProcessLines_lines: "lines (ProcessLines uc ls c) = lines c + of_nat (length ls)"
  by (induction ls arbitrary: c) (simp_all add: ProcessLine_def Let_def algebra_simps)

lemma hits_le: "hits uc c ls a \<le> length ls"
  by (simp add: hits_def)

lemma sint_of_nat: "n < 2 ^ 63 \<Longrightarrow> sint (of_nat n :: int64) = int n"
  using sint_of_int64 [of "int n"] by simp

lemma sum_list_assoc:
  assumes "gomap_ok m" "distinct ks" "fst ` set m \<subseteq> set ks"
  shows "fold (\<lambda>d t. t + snd d) m (z :: int64) = z + sum_list (map (mget 0 m) ks)"
  using assms
proof (induction m arbitrary: z)
  case Nil
  then show ?case by (simp add: sum_list_0)
next
  case (Cons d m)
  obtain k v where d: "d = (k, v)" by (cases d)
  have ok: "gomap_ok m" "k \<notin> fst ` set m" "k \<in> set ks" and sub: "fst ` set m \<subseteq> set ks"
    using Cons.prems by (auto simp: d gomap_ok_Cons)
  obtain xs ys where ks: "ks = xs @ k # ys" using split_list [OF ok(3)] by blast
  with Cons.prems(2) have "k \<notin> set xs" "k \<notin> set ys" by auto
  then have "map (mget 0 (d # m)) xs = map (mget 0 m) xs" "map (mget 0 (d # m)) ys = map (mget 0 m) ys"
    by (auto simp: d mget_Cons)
  then have "sum_list (map (mget 0 (d # m)) xs) = sum_list (map (mget 0 m) xs)"
    "sum_list (map (mget 0 (d # m)) ys) = sum_list (map (mget 0 m) ys)"
    by (simp_all only:)
  moreover have "mget 0 (d # m) k = v" "snd d = v" by (simp_all add: d mget_Cons)
  ultimately show ?case
    using Cons.IH [OF ok(1) Cons.prems(2) sub, of "z + v"] mget_notin [OF ok(2), of 0]
    by (simp add: ks algebra_simps)
qed

subsection \<open>Interleavings of the consumer and the flushing goroutine\<close>

text \<open>
  The consumer calls \<open>ProcessLine\<close> at any moment; the flush drains the buffer, holds the deltas in
  a local variable while it talks to Redis, and then gives back those that could not be written.
  \<open>in_flight\<close> is that local variable and \<open>settled\<close> counts what was written. \<open>P\<close> stands for the
  words whose increment was accepted; it is arbitrary.
\<close>

record flight =
  shared :: counter
  in_flight :: "int64 gomap"
  settled :: "string \<Rightarrow> int64"

inductive buf_step :: "unicode \<Rightarrow> flight \<Rightarrow> flight \<Rightarrow> bool" for uc where
  consume: "buf_step uc f (f\<lparr>shared := fst (ProcessLine uc l (shared f))\<rparr>)"
| begin_flush: "in_flight f = [] \<Longrightarrow>
     buf_step uc f (f\<lparr>shared := fst (Drain (shared f)), in_flight := snd (Drain (shared f))\<rparr>)"
| end_flush:
    "buf_step uc f (f\<lparr>shared := Restore (filter (\<lambda>d. \<not> P (fst d)) (in_flight f)) (shared f),
       in_flight := [],
       settled := (\<lambda>a. settled f a + (if P a then mget 0 (in_flight f) a else 0))\<rparr>)"

inductive buf_reachable :: "unicode \<Rightarrow> string list \<Rightarrow> bool \<Rightarrow> flight \<Rightarrow> bool" for uc actions cs where
  start: "buf_reachable uc actions cs
     \<lparr>shared = Counter_New uc actions cs, in_flight = [], settled = (\<lambda>_. 0)\<rparr>"
| step: "buf_reachable uc actions cs f \<Longrightarrow> buf_step uc f f' \<Longrightarrow> buf_reachable uc actions cs f'"

definition flight_inv :: "unicode \<Rightarrow> string list \<Rightarrow> flight \<Rightarrow> bool" where
  "flight_inv uc actions f \<longleftrightarrow>
     counter_ok uc (shared f) \<and> c_actions (shared f) = actions \<and>
     gomap_ok (in_flight f) \<and> fst ` set (in_flight f) \<subseteq> set actions \<and>
     (\<forall>a. total_matched (shared f) a = buffered (shared f) a + mget 0 (in_flight f) a + settled f a)"

lemma gomap_ok_filter: "gomap_ok m \<Longrightarrow> gomap_ok (filter Q m)"
  by (simp add: gomap_ok_def distinct_map_filter)

lemma mget_filter_key: "mget z (filter (\<lambda>d. Q (fst d)) m) a = (if Q a then mget z m a else z)"
  by (induction m) (auto simp: mget_Cons split: prod.splits)

lemma flight_inv_step:
  assumes "buf_step uc f f'" "flight_inv uc actions f"
  shows "flight_inv uc actions f'"
  using assms
proof (induction rule: buf_step.induct)
  case (consume f l)
  then show ?case
    using cb.process_buffered [of uc "shared f" l] cb.process_total [of uc "shared f" l]
    by (auto simp: flight_inv_def counter_ok_ProcessLine)
next
  case (begin_flush f)
  then show ?case
    using cb.drain_deltas [of uc "shared f"] cb.drain_empties [of uc "shared f"]
      cb.drain_returns [of uc "shared f"] cb.drain_total [of uc "shared f"]
    by (auto simp: flight_inv_def counter_ok_Drain)
next
  case (end_flush f P)
  let ?ds = "filter (\<lambda>d. \<not> P (fst d)) (in_flight f)"
  have "fst ` set ?ds \<subseteq> set (c_actions (shared f))" "gomap_ok ?ds"
    using end_flush by (auto simp: flight_inv_def gomap_ok_filter)
  then show ?case
    using end_flush cb.restore_buffered [of uc "shared f" ?ds] cb.restore_total [of uc "shared f" ?ds]
    by (auto simp: flight_inv_def counter_ok_Restore mget_filter_key [where Q = "\<lambda>a. \<not> P a"])
qed

lemma flight_inv_start:
  "flight_inv uc actions \<lparr>shared = Counter_New uc actions cs, in_flight = [], settled = (\<lambda>_. 0)\<rparr>"
  by (simp add: flight_inv_def, simp add: Counter_New_def total_matched_def buffered_def gomap_simps)

lemma reachable_flight_inv: "buf_reachable uc actions cs f \<Longrightarrow> flight_inv uc actions f"
  by (induction rule: buf_reachable.induct) (auto intro: flight_inv_start flight_inv_step)

subsection \<open>Properties\<close>

text \<open>
  C29. The matching rule: \<open>ProcessLine\<close> returns, in configuration order, exactly the configured words
  that occur in the line as a substring, both sides lowercased when the counter ignores the case.
\<close>

theorem ProcessLine_matches_substrings:
  assumes "counter_ok uc c"
  shows "snd (ProcessLine uc line c) =
    filter (\<lambda>a. \<exists>p q. (if caseSensitive c then line else ToLower uc line) =
                  p @ (if caseSensitive c then a else ToLower uc a) @ q) (c_actions c)"
  using match_filter [OF assms, of line]
  by (simp add: ProcessLine_def Let_def line_matches_def [abs_def] needle_def)

definition ascii_tables :: unicode where
  "ascii_tables = \<lparr>u_lower = (\<lambda>r. r), u_print = (\<lambda>_. False)\<rparr>"

lemma ProcessLine_matches_substrings_witness:
  "snd (ProcessLine ascii_tables ''a GET-SMS b'' (Counter_New ascii_tables [''get'', ''put'', ''Sms''] False))
     = [''get'', ''Sms''] \<and>
   filter (\<lambda>a. \<exists>p q. ToLower ascii_tables ''a GET-SMS b'' = p @ ToLower ascii_tables a @ q)
     [''get'', ''put'', ''Sms''] = [''get'', ''Sms'']"
proof -
  let ?c = "Counter_New ascii_tables [''get'', ''put'', ''Sms''] False"
  have "snd (ProcessLine ascii_tables ''a GET-SMS b'' ?c) = [''get'', ''Sms'']"
    by code_simp
  moreover have "\<not> caseSensitive ?c" "c_actions ?c = [''get'', ''put'', ''Sms'']"
    by (simp_all add: Counter_New_def)
  ultimately show ?thesis
    using ProcessLine_matches_substrings [of ascii_tables ?c "''a GET-SMS b''"] by simp
qed

text \<open>
  Per line, not per occurrence: after any number of lines (below \<open>2 ^ 63\<close>) a fresh counter with
  distinct words holds for each word, both in the buffer and in the monotonic total, the number of
  lines in which the word occurs, and for any other string zero; the line counter is exact.
\<close>

theorem lines_are_counted_once:
  assumes "distinct actions" "length ls < 2 ^ 63"
  shows "let c = ProcessLines uc ls (Counter_New uc actions cs) in
    sint (buffered c a) =
      (if a \<in> set actions then int (length (filter (\<lambda>l. line_matches uc cs l a) ls)) else 0) \<and>
    total_matched c a = buffered c a \<and> sint (Lines c) = int (length ls)"
proof -
  let ?n = "Counter_New uc actions cs"
  have new: "c_actions ?n = actions" "caseSensitive ?n = cs" "buffered ?n a = 0"
    "total_matched ?n a = 0" "lines ?n = 0"
    by (simp_all add: Counter_New_def buffered_def total_matched_def gomap_simps)
  have "hits uc ?n ls a < 2 ^ 63"
    using hits_le assms(2) by (rule le_less_trans)
  then show ?thesis
    using ProcessLines_totals [of uc ?n ls a] ProcessLines_lines [of uc ls ?n] assms new
    by (simp add: Let_def Lines_def sint_of_nat hits_def)
qed

lemma lines_are_counted_once_witness:
  "sint (buffered (ProcessLines ascii_tables [''a a'', ''b'', ''ab''] (Counter_New ascii_tables [''a'', ''b''] True)) ''a'')
     = int (length (filter (\<lambda>l. line_matches ascii_tables True l ''a'') [''a a'', ''b'', ''ab'']))
   \<and> buffered (ProcessLines ascii_tables [''a a'', ''b'', ''ab''] (Counter_New ascii_tables [''a'', ''b''] True)) ''a'' = 2"
proof
  show "sint (buffered (ProcessLines ascii_tables [''a a'', ''b'', ''ab''] (Counter_New ascii_tables [''a'', ''b''] True)) ''a'')
     = int (length (filter (\<lambda>l. line_matches ascii_tables True l ''a'') [''a a'', ''b'', ''ab'']))"
    using lines_are_counted_once [of "[''a'', ''b'']" "[''a a'', ''b'', ''ab'']" ascii_tables True "''a''"]
    by (simp add: Let_def)
qed code_simp

text \<open>
  C30. Conservation under every interleaving: however the consumer's lines fall between the drain and
  the end of a flush, and whatever part of the drained increments the flush gives back, the monotonic
  total of a word is what is buffered plus what a flush holds plus what was written.
\<close>

theorem interleavings_conserve_increments:
  assumes "buf_reachable uc actions cs f"
  shows "total_matched (shared f) a = buffered (shared f) a + mget 0 (in_flight f) a + settled f a"
  using reachable_flight_inv [OF assms] by (simp add: flight_inv_def)

lemma interleavings_conserve_increments_witness:
  "\<exists>f. buf_reachable ascii_tables [''a''] True f \<and> in_flight f = [(''a'', 1)] \<and>
     total_matched (shared f) ''a'' = 2 \<and>
     total_matched (shared f) ''a'' = buffered (shared f) ''a'' + mget 0 (in_flight f) ''a'' + settled f ''a''"
proof -
  let ?c0 = "Counter_New ascii_tables [''a''] True"
  let ?f0 = "\<lparr>shared = ?c0, in_flight = [], settled = (\<lambda>_. 0)\<rparr>"
  let ?f1 = "?f0\<lparr>shared := fst (ProcessLine ascii_tables ''xa'' (shared ?f0))\<rparr>"
  let ?f2 = "?f1\<lparr>shared := fst (Drain (shared ?f1)), in_flight := snd (Drain (shared ?f1))\<rparr>"
  let ?f3 = "?f2\<lparr>shared := fst (ProcessLine ascii_tables ''ay'' (shared ?f2))\<rparr>"
  have "buf_reachable ascii_tables [''a''] True ?f1"
    by (rule buf_reachable.step [OF buf_reachable.start buf_step.consume])
  then have "buf_reachable ascii_tables [''a''] True ?f2"
    by (rule buf_reachable.step) (rule buf_step.begin_flush, simp)
  then have r: "buf_reachable ascii_tables [''a''] True ?f3"
    by (rule buf_reachable.step [OF _ buf_step.consume])
  moreover have "in_flight ?f3 = [(''a'', 1)]" by code_simp
  moreover have "total_matched (shared ?f3) ''a'' = 2" by code_simp
  ultimately show ?thesis using interleavings_conserve_increments [OF r, of "''a''"] by blast
qed

text \<open>
  \<open>Pending()\<close> is the sum of \<open>PendingByAction()\<close>, and that snapshot lists every configured word
  with what is buffered for it, a quiet word with zero.
\<close>

theorem Pending_is_the_sum_of_its_parts:
  assumes "counter_ok uc c" "distinct (c_actions c)"
  shows "Pending c = sum_list (map (mget 0 (PendingByAction c)) (c_actions c)) \<and>
    (\<forall>a. map_of (PendingByAction c) a = (if a \<in> set (c_actions c) then Some (buffered c a) else None))"
proof -
  have "map (mget 0 (PendingByAction c)) (c_actions c) = map (mget 0 (pending c)) (c_actions c)"
    by (simp add: PendingByAction_def gomap_simps)
  then have "sum_list (map (mget 0 (PendingByAction c)) (c_actions c)) =
      sum_list (map (mget 0 (pending c)) (c_actions c))"
    by (simp only:)
  moreover have "Pending c = sum_list (map (mget 0 (pending c)) (c_actions c))"
    using sum_list_assoc [of "pending c" "c_actions c" 0] assms
    by (simp add: Pending_def counter_ok_def)
  ultimately show ?thesis
    by (simp add: PendingByAction_def gomap_simps buffered_def)
qed

lemma Pending_is_the_sum_of_its_parts_witness:
  "Pending (ProcessLines ascii_tables [''ab'', ''b''] (Counter_New ascii_tables [''a'', ''b'', ''c''] True)) = 3 \<and>
   Pending (ProcessLines ascii_tables [''ab'', ''b''] (Counter_New ascii_tables [''a'', ''b'', ''c''] True)) =
     sum_list (map (mget 0 (PendingByAction (ProcessLines ascii_tables [''ab'', ''b'']
       (Counter_New ascii_tables [''a'', ''b'', ''c''] True)))) [''a'', ''b'', ''c''])"
proof
  let ?c = "ProcessLines ascii_tables [''ab'', ''b''] (Counter_New ascii_tables [''a'', ''b'', ''c''] True)"
  have a: "c_actions ?c = [''a'', ''b'', ''c'']" by (simp add: Counter_New_def)
  then have "distinct (c_actions ?c)" by simp
  then show "Pending ?c = sum_list (map (mget 0 (PendingByAction ?c)) [''a'', ''b'', ''c''])"
    using Pending_is_the_sum_of_its_parts [of ascii_tables ?c, OF counter_ok_ProcessLines [OF counter_ok_New]]
    unfolding a by blast
qed code_simp

end
