(* ===== verification/Go_Fmt.thy ===== *)
theory Go_Fmt
  imports Go_Strings
begin

section \<open>Numbers, formatting and errors of the Go standard library\<close>

text \<open>
  \<open>strconv.Itoa\<close>, \<open>strconv.ParseInt\<close>, \<open>strconv.Quote\<close>, \<open>fmt.Sprintf\<close> for the verbs the
  program uses, \<open>net.SplitHostPort\<close>, and Go errors as values: a datatype with one constructor
  for every way the program obtains an error, with \<open>errors.Is\<close>, \<open>errors.As\<close> and \<open>Error()\<close>.
\<close>

subsection \<open>Decimal numbers\<close>

fun utoa :: "nat \<Rightarrow> string" where
  "utoa n = (if n < 10 then [char_of (48 + n)] else utoa (n div 10) @ [char_of (48 + n mod 10)])"

declare utoa.simps [simp del]

definition itoa :: "int \<Rightarrow> string" where
  "itoa i = (if i < 0 then CHR ''-'' # utoa (nat (- i)) else utoa (nat i))"

text \<open>\<open>%02d\<close> and the like: padded with zeros on the left (non-negative numbers).\<close>

definition pad0 :: "nat \<Rightarrow> string \<Rightarrow> string" where
  "pad0 w s = replicate (w - length s) CHR ''0'' @ s"

definition is_digit :: "char \<Rightarrow> bool" where
  "is_digit c \<longleftrightarrow> 48 \<le> byte c \<and> byte c \<le> 57"

lemma utoa_nonempty: "utoa n \<noteq> []"
  by (subst utoa.simps) simp

lemma utoa_digits: "c \<in> set (utoa n) \<Longrightarrow> is_digit c"
proof (induction n rule: utoa.induct)
  case (1 n)
  have "is_digit (char_of (48 + k))" if "k < 10" for k :: nat
    using that by (simp add: is_digit_def)
  with 1 show ?case by (subst (asm) utoa.simps) (auto split: if_splits)
qed

lemma itoa_chars: "c \<in> set (itoa n) \<Longrightarrow> is_digit c \<or> c = CHR ''-''"
  by (auto simp: itoa_def dest: utoa_digits split: if_splits)

text \<open>The two errors of \<open>strconv\<close>, as the text of \<open>NumError.Err\<close>.\<close>

definition ErrSyntax :: string where "ErrSyntax = ''invalid syntax''"
definition ErrRange :: string where "ErrRange = ''value out of range''"

text \<open>The digit loop of \<open>ParseUint(s, 10, 64)\<close>: it stops at the first overflow or non-digit.\<close>

fun parse_uint :: "nat \<Rightarrow> string \<Rightarrow> string + nat" where
  "parse_uint acc [] = Inr acc"
| "parse_uint acc (c # s) =
     (if \<not> is_digit c then Inl ErrSyntax
      else (let n = 10 * acc + (byte c - 48) in
            if 2 ^ 64 \<le> n then Inl ErrRange else parse_uint n s))"

text \<open>The sign and the range check at the end of \<open>ParseInt\<close>.\<close>

definition signed_int :: "bool \<Rightarrow> nat \<Rightarrow> string + int" where
  "signed_int neg n =
     (if \<not> neg \<and> 2 ^ 63 \<le> n then Inl ErrRange
      else if neg \<and> 2 ^ 63 < n then Inl ErrRange
      else Inr (if neg then - int n else int n))"

text \<open>\<open>strconv.ParseInt(s, 10, 64)\<close>; \<open>strconv.Atoi\<close> accepts the same strings.\<close>

definition ParseInt :: "string \<Rightarrow> string + int" where
  "ParseInt s = (case s of [] \<Rightarrow> Inl ErrSyntax | c # r \<Rightarrow>
     (let ds = (if c = CHR ''-'' \<or> c = CHR ''+'' then r else s) in
      if ds = [] then Inl ErrSyntax
      else (case parse_uint 0 ds of
              Inl e \<Rightarrow> Inl e
            | Inr n \<Rightarrow> signed_int (c = CHR ''-'') n)))"

lemma parse_uint_append:
  "parse_uint acc (xs @ ys) =
     (case parse_uint acc xs of Inl e \<Rightarrow> Inl e | Inr a \<Rightarrow> parse_uint a ys)"
  by (induction acc xs rule: parse_uint.induct) (auto simp: Let_def)

lemma parse_uint_utoa: "n < 2 ^ 64 \<Longrightarrow> parse_uint 0 (utoa n) = Inr n"
proof (induction n rule: utoa.induct)
  case (1 n)
  have dig: "is_digit (char_of (48 + k))" "byte (char_of (48 + k) :: char) - 48 = k"
    if "k < 10" for k :: nat
    using that by (simp_all add: is_digit_def)
  show ?case
  proof (cases "n < 10")
    case True
    then show ?thesis using dig [OF True] by (subst utoa.simps) (simp add: Let_def)
  next
    case False
    with "1.IH" "1.prems" have "parse_uint 0 (utoa (n div 10)) = Inr (n div 10)" by simp
    moreover have "n mod 10 < 10" by simp
    ultimately show ?thesis
      using False "1.prems" dig [of "n mod 10"]
      by (subst utoa.simps) (simp add: parse_uint_append Let_def)
  qed
qed

lemma utoa_Cons: obtains c r where "utoa n = c # r" "is_digit c"
  using utoa_nonempty [of n] utoa_digits [of _ n] by (cases "utoa n") auto

text \<open>Printing an \<open>int64\<close> and parsing it back.\<close>

lemma ParseInt_itoa:
  assumes "- (2 ^ 63) \<le> n" "n < 2 ^ 63"
  shows "ParseInt (itoa n) = Inr n"
proof (cases "n < 0")
  case True
  then have "parse_uint 0 (utoa (nat (- n))) = Inr (nat (- n))"
    using assms by (intro parse_uint_utoa) simp
  with True assms show ?thesis
    by (simp add: itoa_def ParseInt_def signed_int_def utoa_nonempty)
next
  case False
  obtain c r where c: "utoa (nat n) = c # r" "is_digit c" by (rule utoa_Cons)
  then have "c \<noteq> CHR ''-''" "c \<noteq> CHR ''+''" by (auto simp: is_digit_def)
  moreover have "parse_uint 0 (utoa (nat n)) = Inr (nat n)"
    using assms False by (intro parse_uint_utoa) simp
  ultimately show ?thesis
    using False assms c by (simp add: itoa_def ParseInt_def signed_int_def)
qed

lemma ParseInt_range: "ParseInt s = Inr n \<Longrightarrow> - (2 ^ 63) \<le> n \<and> n < 2 ^ 63"
proof -
  assume "ParseInt s = Inr n"
  then obtain neg m where "signed_int neg m = Inr n"
    unfolding ParseInt_def Let_def
    by (cases s) (auto split: sum.split_asm if_split_asm)
  then show ?thesis by (auto simp: signed_int_def split: if_split_asm)
qed

lemma itoa_inj:
  assumes "- (2 ^ 63) \<le> m" "m < 2 ^ 63" "- (2 ^ 63) \<le> n" "n < 2 ^ 63" "itoa m = itoa n"
  shows "m = n"
proof -
  have "Inr m = ParseInt (itoa m)" by (rule ParseInt_itoa [OF assms(1,2), symmetric])
  also have "\<dots> = ParseInt (itoa n)" by (simp only: assms(5))
  also have "\<dots> = Inr n" by (rule ParseInt_itoa [OF assms(3,4)])
  finally show ?thesis by (rule sum.inject(2) [THEN iffD1])
qed

subsection \<open>Quoting\<close>

definition hexdigit :: "nat \<Rightarrow> char" where
  "hexdigit n = (if n < 10 then char_of (48 + n) else char_of (87 + n))"

text \<open>The lowest \<open>w\<close> hexadecimal digits of a number.\<close>

primrec hex :: "nat \<Rightarrow> nat \<Rightarrow> string" where
  "hex 0 n = []"
| "hex (Suc w) n = hex w (n div 16) @ [hexdigit (n mod 16)]"

text \<open>\<open>strconv.IsPrint\<close>: Latin-1 is decided without the table.\<close>

definition IsPrint :: "unicode \<Rightarrow> nat \<Rightarrow> bool" where
  "IsPrint uc r =
     (if r \<le> 255 then (32 \<le> r \<and> r < 127) \<or> (161 \<le> r \<and> r \<noteq> 173) else u_print uc r)"

definition escape_rune :: "unicode \<Rightarrow> nat \<Rightarrow> string" where
  "escape_rune uc r =
     (if r = 34 \<or> r = 92 then [CHR 0x5C, char_of r]
      else if IsPrint uc r then encode_rune r
      else if r = 7 then [CHR 0x5C, CHR ''a'']
      else if r = 8 then [CHR 0x5C, CHR ''b'']
      else if r = 12 then [CHR 0x5C, CHR ''f'']
      else if r = 10 then [CHR 0x5C, CHR ''n'']
      else if r = 13 then [CHR 0x5C, CHR ''r'']
      else if r = 9 then [CHR 0x5C, CHR ''t'']
      else if r = 11 then [CHR 0x5C, CHR ''v'']
      else if r < 32 \<or> r = 127 then [CHR 0x5C, CHR ''x''] @ hex 2 r
      else if r < 65536 then [CHR 0x5C, CHR ''u''] @ hex 4 r
      else [CHR 0x5C, CHR ''U''] @ hex 8 r)"

text \<open>\<open>strconv.Quote\<close>: an invalid byte is the rune U+FFFD decoded from a single byte.\<close>

definition Quote :: "unicode \<Rightarrow> string \<Rightarrow> string" where
  "Quote uc s = [CHR 0x22] @
     concat (map (\<lambda>(r, bs). if r = RuneError \<and> length bs = 1
                            then [CHR 0x5C, CHR ''x''] @ hex 2 (byte (hd bs))
                            else escape_rune uc r) (runes s)) @ [CHR 0x22]"

subsection \<open>fmt.Sprintf\<close>

text \<open>
  The program's format strings use \<open>%s\<close>, \<open>%d\<close>, \<open>%q\<close> and \<open>%w\<close>; \<open>w\<close> is the text of the
  wrapped error.
\<close>

datatype farg = AS string | AI int

definition fmt_arg :: "unicode \<Rightarrow> char \<Rightarrow> farg \<Rightarrow> string" where
  "fmt_arg uc v a = (case a of
       AS s \<Rightarrow> if v = CHR ''q'' then Quote uc s else s
     | AI n \<Rightarrow> itoa n)"

fun Sprintf_w :: "unicode \<Rightarrow> string \<Rightarrow> farg list \<Rightarrow> string \<Rightarrow> string" where
  "Sprintf_w uc [] args w = []"
| "Sprintf_w uc [c] args w = [c]"
| "Sprintf_w uc (c # v # f) args w =
     (if c \<noteq> CHR ''%'' then c # Sprintf_w uc (v # f) args w
      else if v = CHR ''w'' then w @ Sprintf_w uc f args w
      else (case args of
              [] \<Rightarrow> ''%!'' @ [v] @ ''(MISSING)'' @ Sprintf_w uc f [] w
            | a # as \<Rightarrow> fmt_arg uc v a @ Sprintf_w uc f as w))"

definition Sprintf :: "unicode \<Rightarrow> string \<Rightarrow> farg list \<Rightarrow> string" where
  "Sprintf uc f args = Sprintf_w uc f args []"

subsection \<open>Errors\<close>

text \<open>Package-level error values, compared by identity.\<close>

datatype sentinel =
    ErrMalformedValue | ErrLocked | ContextCanceled | DeadlineExceeded
  | ErrServerClosed | ErrHelp | EOF | EWOULDBLOCK

text \<open>
  \<open>ErrText\<close> is an opaque error of the operating system or of a library, \<open>ReplyErr\<close> one that a
  Redis server replied with (the errors that implement \<open>redis.Error\<close>), \<open>NumErr\<close> a
  \<open>*strconv.NumError\<close>, \<open>Errorf\<close> the result of \<open>fmt.Errorf\<close> with the error its \<open>%w\<close> wraps and
  \<open>MultiErr\<close> the \<open>multiError\<close> of the configuration.
\<close>

datatype goerr =
    ErrText string
  | ReplyErr string
  | Sentinel sentinel
  | NumErr string string string
  | Errorf string "farg list" "goerr option"
  | MultiErr "goerr list"

fun sentinel_msg :: "sentinel \<Rightarrow> string" where
  "sentinel_msg ErrMalformedValue = ''counter value is not an integer''"
| "sentinel_msg ErrLocked = ''lock file is already held by another instance''"
| "sentinel_msg ContextCanceled = ''context canceled''"
| "sentinel_msg DeadlineExceeded = ''context deadline exceeded''"
| "sentinel_msg ErrServerClosed = ''http: Server closed''"
| "sentinel_msg ErrHelp = ''flag: help requested''"
| "sentinel_msg EOF = ''EOF''"
| "sentinel_msg EWOULDBLOCK = ''resource temporarily unavailable''"

text \<open>\<open>Error()\<close>; \<open>multi_msg\<close> is that of \<open>multiError\<close> in \<open>internal/config/config.go\<close>.\<close>

definition multi_msg :: "string list \<Rightarrow> string" where
  "multi_msg msgs = join ''; '' msgs"

fun err_msg :: "unicode \<Rightarrow> goerr \<Rightarrow> string" where
  "err_msg uc (ErrText s) = s"
| "err_msg uc (ReplyErr s) = s"
| "err_msg uc (Sentinel s) = sentinel_msg s"
| "err_msg uc (NumErr fn num e) = ''strconv.'' @ fn @ '': parsing '' @ Quote uc num @ '': '' @ e"
| "err_msg uc (Errorf f args e) =
     Sprintf_w uc f args (case e of None \<Rightarrow> [] | Some e' \<Rightarrow> err_msg uc e')"
| "err_msg uc (MultiErr es) = multi_msg (map (err_msg uc) es)"

text \<open>\<open>errors.Is\<close> for a sentinel: the error itself or any error it wraps.\<close>

fun errors_Is :: "goerr \<Rightarrow> sentinel \<Rightarrow> bool" where
  "errors_Is (Sentinel s) t = (s = t)"
| "errors_Is (Errorf f args e) t = (case e of None \<Rightarrow> False | Some e' \<Rightarrow> errors_Is e' t)"
| "errors_Is (MultiErr es) t = list_ex (\<lambda>e. errors_Is e t) es"
| "errors_Is _ t = False"

text \<open>\<open>errors.As(err, &replyErr)\<close> for \<open>redis.Error\<close>\<close>

fun errors_As_reply :: "goerr \<Rightarrow> bool" where
  "errors_As_reply (ReplyErr s) = True"
| "errors_As_reply (Errorf f args e) = (case e of None \<Rightarrow> False | Some e' \<Rightarrow> errors_As_reply e')"
| "errors_As_reply (MultiErr es) = list_ex errors_As_reply es"
| "errors_As_reply _ = False"

subsection \<open>net.SplitHostPort\<close>

definition AddrErr :: "string \<Rightarrow> string \<Rightarrow> goerr" where
  "AddrErr addr why = ErrText ((if addr = [] then [] else ''address '' @ addr @ '': '') @ why)"

definition SplitHostPort :: "string \<Rightarrow> goerr + string \<times> string" where
  "SplitHostPort hp =
     (let bad = (\<lambda>why. Inl (AddrErr hp why)) in
      case LastIndexByte hp CHR '':'' of
        None \<Rightarrow> bad ''missing port in address''
      | Some i \<Rightarrow>
          (let finish = (\<lambda>host j k.
             if CHR ''['' \<in> set (drop j hp) then bad (''unexpected '' @ [CHR 0x27, CHR ''['', CHR 0x27] @ '' in address'')
             else if CHR '']'' \<in> set (drop k hp) then bad (''unexpected '' @ [CHR 0x27, CHR '']'', CHR 0x27] @ '' in address'')
             else Inr (host, drop (Suc i) hp)) in
           if hd hp = CHR ''['' then
             (case IndexByte hp CHR '']'' of
                None \<Rightarrow> bad (''missing '' @ [CHR 0x27, CHR '']'', CHR 0x27] @ '' in address'')
              | Some e \<Rightarrow>
                  if e + 1 = length hp then bad ''missing port in address''
                  else if e + 1 = i then finish (take (e - 1) (drop 1 hp)) 1 (e + 1)
                  else if hp ! (e + 1) = CHR '':'' then bad ''too many colons in address''
                  else bad ''missing port in address'')
           else if CHR '':'' \<in> set (take i hp) then bad ''too many colons in address''
           else finish (take i hp) 0 0))"

end
