(* ===== verification/Go_Time.thy ===== *)
theory Go_Time
  imports Go_Fmt
begin

section \<open>Instants and durations of package time\<close>

text \<open>
  A \<open>time.Time\<close> is an instant (nanoseconds since the Unix epoch) with the offset and the
  abbreviation of its zone, which is all that \<open>Format\<close>, \<open>Unix\<close>, \<open>IsZero\<close> and \<open>Sub\<close> read. A
  \<open>time.Duration\<close> is an \<open>int64\<close> of nanoseconds: multiplying seconds into it wraps around.
\<close>

record gotime =
  t_ns :: int
  t_offset :: int
  t_zone :: string

definition Second :: int64 where
  "Second = 1000000000"

text \<open>\<open>time.Duration(n) * time.Second\<close>\<close>

definition seconds :: "int64 \<Rightarrow> int64" where
  "seconds n = n * Second"

text \<open>Up to 9223372036 seconds (292 years) the product is exact.\<close>

lemma sint_seconds:
  assumes "0 \<le> sint n" "sint n \<le> 9223372036"
  shows "sint (seconds n) = sint n * 1000000000"
proof -
  have "seconds n = word_of_int (sint n * 1000000000)"
    by (simp add: seconds_def Second_def)
  moreover have "sint (word_of_int (sint n * 1000000000) :: int64) = sint n * 1000000000"
    using assms by (intro sint_of_int64) simp_all
  ultimately show ?thesis by simp
qed

subsection \<open>Calendar\<close>

text \<open>The proleptic Gregorian date of a day number (0 is 1970-01-01): year, month, day.\<close>

definition civil :: "int \<Rightarrow> int \<times> int \<times> int" where
  "civil z0 =
     (let z = z0 + 719468;
          era = z div 146097; doe = z mod 146097;
          yoe = (doe - doe div 1460 + doe div 36524 - doe div 146096) div 365;
          doy = doe - (365 * yoe + yoe div 4 - yoe div 100);
          mp = (5 * doy + 2) div 153;
          d = doy - (153 * mp + 2) div 5 + 1;
          m = (if mp < 10 then mp + 3 else mp - 9)
      in (yoe + era * 400 + (if m \<le> 2 then 1 else 0), m, d))"

text \<open>\<open>appendInt\<close>: at least \<open>w\<close> digits, the sign in front of the padding.\<close>

definition append_int :: "nat \<Rightarrow> int \<Rightarrow> string" where
  "append_int w x = (if x < 0 then ''-'' @ pad0 w (utoa (nat (- x))) else pad0 w (utoa (nat x)))"

definition local_seconds :: "gotime \<Rightarrow> int" where
  "local_seconds t = t_ns t div 1000000000 + t_offset t"

definition date_part :: "gotime \<Rightarrow> string" where
  "date_part t = (case civil (local_seconds t div 86400) of (y, m, d) \<Rightarrow>
     append_int 4 y @ ''-'' @ append_int 2 m @ ''-'' @ append_int 2 d)"

definition clock_part :: "gotime \<Rightarrow> string" where
  "clock_part t = (let s = local_seconds t mod 86400 in
     append_int 2 (s div 3600) @ '':'' @ append_int 2 (s div 60 mod 60) @ '':'' @ append_int 2 (s mod 60))"

text \<open>The offset as \<open>+hh:mm\<close>, or \<open>+hhmm\<close> without the separator.\<close>

definition offset_part :: "string \<Rightarrow> gotime \<Rightarrow> string" where
  "offset_part sep t = (let z = \<bar>t_offset t\<bar> div 60 in
     (if t_offset t < 0 \<and> z \<noteq> 0 then ''-'' else ''+'') @
     append_int 2 (z div 60) @ sep @ append_int 2 (z mod 60))"

text \<open>\<open>t.Format(time.RFC3339)\<close>\<close>

definition RFC3339 :: "gotime \<Rightarrow> string" where
  "RFC3339 t = date_part t @ ''T'' @ clock_part t @
     (if t_offset t = 0 then ''Z'' else offset_part '':'' t)"

text \<open>\<open>t.Format("2006-01-02 15:04:05 MST")\<close>\<close>

definition human_time :: "gotime \<Rightarrow> string" where
  "human_time t = date_part t @ '' '' @ clock_part t @ '' '' @
     (if t_zone t \<noteq> [] then t_zone t else offset_part [] t)"

lemma RFC3339_example:
  "RFC3339 \<lparr>t_ns = 1787140800 * 10 ^ 9 + 5, t_offset = 10800, t_zone = ''MSK''\<rparr> = ''2026-08-19T15:00:00+03:00''"
  by code_simp

text \<open>\<open>t.IsZero()\<close>: January 1, year 1, 00:00 UTC. \<open>t.Unix()\<close>. \<open>t.Sub(u)\<close>, which saturates.\<close>

definition IsZero :: "gotime \<Rightarrow> bool" where
  "IsZero t \<longleftrightarrow> t_ns t = - 62135596800 * 1000000000"

definition Unix :: "gotime \<Rightarrow> int" where
  "Unix t = t_ns t div 1000000000"

definition Sub :: "gotime \<Rightarrow> gotime \<Rightarrow> int64" where
  "Sub t u = (let d = t_ns t - t_ns u in
     word_of_int (if d < - (2 ^ 63) then - (2 ^ 63) else if 2 ^ 63 \<le> d then 2 ^ 63 - 1 else d))"

subsection \<open>Duration.String\<close>

text \<open>\<open>fmtFrac\<close>: the fraction without trailing zeros, without the point when nothing is left.\<close>

definition fmt_frac :: "nat \<Rightarrow> int \<Rightarrow> string" where
  "fmt_frac prec v =
     (let ds = rev (dropWhile (\<lambda>c. c = CHR ''0'') (rev (append_int prec (v mod 10 ^ prec))))
      in if ds = [] then [] else ''.'' @ ds)"

definition Duration_String :: "int64 \<Rightarrow> string" where
  "Duration_String d =
     (let u = \<bar>sint d\<bar>;
          body =
            (if u = 0 then ''0s''
             else if u < 1000 then itoa u @ ''ns''
             else if u < 1000000 then itoa (u div 10 ^ 3) @ fmt_frac 3 u @ [CHR 0xC2, CHR 0xB5] @ ''s''
             else if u < 1000000000 then itoa (u div 10 ^ 6) @ fmt_frac 6 u @ ''ms''
             else
               (let s = u div 10 ^ 9; m = s div 60; h = m div 60;
                    sec = itoa (s mod 60) @ fmt_frac 9 u @ ''s''
                in (if 0 < h then itoa h @ ''h'' else []) @
                   (if 0 < m then itoa (m mod 60) @ ''m'' else []) @ sec))
      in if sint d < 0 then ''-'' @ body else body)"

lemma Duration_String_day: "Duration_String (seconds 86400) = ''24h0m0s''"
  by code_simp

end
