(* ===== verification/Os.thy ===== *)
theory Os
  imports Go_Fmt
begin

section \<open>The operating system as a parameter, and package path/filepath\<close>

text \<open>
  File-system calls act on an opaque world \<open>'w\<close>. The record \<open>os\<close> carries one function for each
  call the program makes; an open file is the descriptor the call returned. \<open>Dir\<close> is
  \<open>filepath.Dir\<close> with the lexical \<open>filepath.Clean\<close>.
\<close>

type_synonym fd = nat

record 'w os =
  os_read_file :: "'w \<Rightarrow> string \<Rightarrow> goerr + string"
  os_mkdir_all :: "'w \<Rightarrow> string \<Rightarrow> 'w \<times> goerr option"
  os_open_append :: "'w \<Rightarrow> string \<Rightarrow> 'w \<times> (goerr + fd)"
  os_open_rdwr :: "'w \<Rightarrow> string \<Rightarrow> 'w \<times> (goerr + fd)"
  os_write :: "'w \<Rightarrow> fd \<Rightarrow> string \<Rightarrow> 'w \<times> goerr option"
  os_write_at :: "'w \<Rightarrow> fd \<Rightarrow> string \<Rightarrow> nat \<Rightarrow> 'w \<times> goerr option"
  os_truncate :: "'w \<Rightarrow> fd \<Rightarrow> 'w \<times> goerr option"
  os_close :: "'w \<Rightarrow> fd \<Rightarrow> 'w \<times> goerr option"
  os_flock :: "'w \<Rightarrow> fd \<Rightarrow> 'w \<times> goerr option"
  os_funlock :: "'w \<Rightarrow> fd \<Rightarrow> 'w \<times> goerr option"
  os_getpid :: "'w \<Rightarrow> int"
  os_stat :: "'w \<Rightarrow> string \<Rightarrow> bool"
  os_hostname :: "'w \<Rightarrow> goerr + string"

text \<open>The elements of a path between its slashes.\<close>

fun split_slash :: "string \<Rightarrow> string list" where
  "split_slash [] = [[]]"
| "split_slash (c # s) =
     (if c = CHR ''/'' then [] # split_slash s
      else (case split_slash s of [] \<Rightarrow> [[c]] | e # es \<Rightarrow> (c # e) # es))"

text \<open>One element: \<open>.\<close> and empty ones vanish, \<open>..\<close> removes the element before it.\<close>

definition clean_step :: "bool \<Rightarrow> string \<Rightarrow> string list \<Rightarrow> string list" where
  "clean_step rooted e out =
     (if e = [] \<or> e = ''.'' then out
      else if e = ''..'' then
        (if out \<noteq> [] \<and> last out \<noteq> ''..'' then butlast out
         else if rooted then out else out @ [e])
      else out @ [e])"

definition Clean :: "string \<Rightarrow> string" where
  "Clean p =
     (if p = [] then ''.''
      else (let rooted = (hd p = CHR ''/'');
                body = join ''/'' (fold (clean_step rooted) (split_slash p) [])
            in if rooted then ''/'' @ body else if body = [] then ''.'' else body))"

definition Dir :: "string \<Rightarrow> string" where
  "Dir p = Clean (rev (dropWhile (\<lambda>c. c \<noteq> CHR ''/'') (rev p)))"

lemma Dir_examples:
  "Dir ''/run/logstat/logstat.lock'' = ''/run/logstat''" "Dir ''x.lock'' = ''.''"
  "Dir ''/a/../b//c'' = ''/b''" "Dir ''/x'' = ''/''"
  by code_simp+

subsection \<open>A world where every call succeeds\<close>

text \<open>For the witnesses: files are empty, descriptors are 3, and the host name is the argument.\<close>

definition example_os :: "string \<Rightarrow> 'w os" where
  "example_os h =
     \<lparr>os_read_file = (\<lambda>w p. Inr []), os_mkdir_all = (\<lambda>w p. (w, None)), os_open_append = (\<lambda>w p. (w, Inr 3)),
      os_open_rdwr = (\<lambda>w p. (w, Inr 3)), os_write = (\<lambda>w f s. (w, None)), os_write_at = (\<lambda>w f s n. (w, None)),
      os_truncate = (\<lambda>w f. (w, None)),
      os_close = (\<lambda>w f. (w, None)), os_flock = (\<lambda>w f. (w, None)), os_funlock = (\<lambda>w f. (w, None)),
      os_getpid = (\<lambda>w. 1), os_stat = (\<lambda>w p. True), os_hostname = (\<lambda>w. Inr h)\<rparr>"

end
