(* ===== verification/Config.thy ===== *)
theory Config
  imports Counter Go_Time Os
begin

section \<open>Configuration: defaults, validation, overlaps (internal/config)\<close>

text \<open>
  The five structs are records; the fields carry the name of their YAML key with a prefix. The YAML
  decoder and the cron parser are libraries outside the repository, so they are parameters
  (\<open>config_libs\<close>): \<open>yaml_decode data cfg\<close> is \<open>dec.Decode(&cfg)\<close>, which returns the struct as the
  decoder left it and an error, and \<open>cron_parse\<close> is \<open>cron.ParseStandard\<close>.
\<close>

record redis_config =
  r_host :: string
  r_port :: int64
  r_db :: int64
  r_password :: string
  r_ttl :: int64

record logging_config =
  l_level :: string
  l_output :: string
  l_file :: string

record reset_config =
  rs_enabled :: bool
  rs_schedule :: string

record metrics_config =
  m_enabled :: bool
  m_listen :: string
  m_path :: string

record config =
  cfg_log_path :: string
  cfg_actions :: "string list"
  cfg_case_sensitive :: bool
  cfg_flush_interval :: int64
  cfg_poll :: bool
  cfg_heartbeat_key :: bool
  cfg_lock_file :: string
  cfg_redis :: redis_config
  cfg_logging :: logging_config
  cfg_reset :: reset_config
  cfg_metrics :: metrics_config

record 's config_libs =
  yaml_decode :: "string \<Rightarrow> config \<Rightarrow> config \<times> goerr option"
  cron_parse :: "string \<Rightarrow> goerr + 's"

definition OutputJournald :: string where "OutputJournald = ''journald''"
definition OutputFile :: string where "OutputFile = ''file''"

definition Levels :: "string list" where
  "Levels = [''debug'', ''info'', ''warn'', ''error'']"

definition Addr :: "redis_config \<Rightarrow> string" where
  "Addr r = r_host r @ '':'' @ itoa (sint (r_port r))"

definition TTLDuration :: "redis_config \<Rightarrow> int64" where
  "TTLDuration r = seconds (r_ttl r)"

definition Default :: config where
  "Default =
     \<lparr>cfg_log_path = ''/var/log/app.log'',
      cfg_actions = [''get-number'', ''get-sms'', ''getNumber'', ''getStatus''],
      cfg_case_sensitive = True,
      cfg_flush_interval = 10,
      cfg_poll = False,
      cfg_heartbeat_key = True,
      cfg_lock_file = ''/run/logstat/logstat.lock'',
      cfg_redis = \<lparr>r_host = ''127.0.0.1'', r_port = 6379, r_db = 0, r_password = [], r_ttl = 86400\<rparr>,
      cfg_logging = \<lparr>l_level = ''info'', l_output = OutputJournald, l_file = []\<rparr>,
      cfg_reset = \<lparr>rs_enabled = True, rs_schedule = ''0 0 * * *''\<rparr>,
      cfg_metrics = \<lparr>m_enabled = False, m_listen = ''127.0.0.1:9843'', m_path = ''/metrics''\<rparr>\<rparr>"

definition Parse :: "'s config_libs \<Rightarrow> string \<Rightarrow> goerr + config" where
  "Parse libs data =
     (case yaml_decode libs data Default of
        (cfg, None) \<Rightarrow> Inr cfg
      | (cfg, Some err) \<Rightarrow>
          if errors_Is err EOF then Inr cfg else Inl (Errorf ''parse yaml: %w'' [] (Some err)))"

subsection \<open>Overlaps\<close>

text \<open>The body of the inner loop for the words \<open>i\<close> and \<open>j\<close>.\<close>

definition overlap_pair :: "unicode \<Rightarrow> bool \<Rightarrow> string list \<Rightarrow> nat \<Rightarrow> nat \<Rightarrow> string list" where
  "overlap_pair uc cs as i j =
     (let a = as ! i; b = as ! j; needles = map (needle uc cs) as in
      if i = j \<or> a = [] \<or> b = [] then []
      else if needles ! i = needles ! j then
        (if i < j then
           [Sprintf uc ''actions %q and %q differ only in case: with case_sensitive: no they match the same lines but keep two separate counters''
              [AS a, AS b]]
         else [])
      else if Contains (needles ! j) (needles ! i) then
        [Sprintf uc ''action %q is a substring of action %q: every line matching %q also increments %q''
           [AS a, AS b, AS b, AS a]]
      else [])"

definition Overlaps :: "unicode \<Rightarrow> string list \<Rightarrow> bool \<Rightarrow> string list" where
  "Overlaps uc as cs =
     concat (map (\<lambda>i. concat (map (overlap_pair uc cs as i) [0..<length as])) [0..<length as])"

subsection \<open>The exporter section\<close>

definition fail :: "string \<Rightarrow> farg list \<Rightarrow> goerr" where
  "fail f args = Errorf f args None"

definition ValidatePath :: "metrics_config \<Rightarrow> goerr option" where
  "ValidatePath m =
     (if \<not> HasPrefix (m_path m) ''/'' then
        Some (fail ''metrics.path must start with a slash, got %q'' [AS (m_path m)])
      else if ContainsAny (m_path m) ''{}'' then
        Some (fail ''metrics.path must not contain { or }, got %q: the path is taken literally, not as a routing pattern'' [AS (m_path m)])
      else if ContainsSpace (m_path m) then
        Some (fail ''metrics.path must not contain whitespace, got %q'' [AS (m_path m)])
      else if m_path m \<noteq> ''/'' \<and> HasSuffix (m_path m) ''/'' then
        Some (fail ''metrics.path must not end with a slash, got %q: that would serve the metrics on every path below it'' [AS (m_path m)])
      else None)"

definition validate_metrics :: "metrics_config \<Rightarrow> goerr option" where
  "validate_metrics m =
     (let listen = TrimSpace (m_listen m) in
      if listen = [] then Some (ErrText ''metrics.listen must not be empty'')
      else (case SplitHostPort listen of
        Inl err \<Rightarrow> Some (Errorf ''metrics.listen %q must be host:port: %w'' [AS (m_listen m)] (Some err))
      | Inr (_, port) \<Rightarrow>
          (case ParseInt port of
             Inl _ \<Rightarrow> Some (fail ''metrics.listen %q must end in a numeric port'' [AS (m_listen m)])
           | Inr n \<Rightarrow>
               if n < 1 \<or> 65535 < n then
                 Some (fail ''metrics.listen port must be in 1..65535, got %d'' [AI n])
               else ValidatePath m)))"

definition ParseSchedule :: "'s config_libs \<Rightarrow> string \<Rightarrow> goerr + 's" where
  "ParseSchedule libs expr =
     (if TrimSpace expr = [] then Inl (ErrText ''reset.schedule must not be empty'')
      else (case cron_parse libs expr of
        Inl err \<Rightarrow> Inl (Errorf ''reset.schedule %q is not a valid 5-field cron expression: %w'' [AS expr] (Some err))
      | Inr sched \<Rightarrow> Inr sched))"

subsection \<open>Validate\<close>

text \<open>
  The loop over the actions: \<open>i\<close> is the index, \<open>seen\<close>, \<open>uniq\<close>, \<open>errs\<close> and \<open>warnings\<close> are the
  variables it updates.
\<close>

fun actions_loop ::
  "unicode \<Rightarrow> nat \<Rightarrow> string list \<Rightarrow> bool gomap \<Rightarrow> string list \<Rightarrow> goerr list \<Rightarrow> string list \<Rightarrow>
   string list \<times> goerr list \<times> string list" where
  "actions_loop uc i [] seen uniq errs warnings = (uniq, errs, warnings)"
| "actions_loop uc i (a # as) seen uniq errs warnings =
     (if a = [] then
        actions_loop uc (Suc i) as seen uniq (errs @ [fail ''actions[%d] must not be empty'' [AI (int i)]]) warnings
      else if mget False seen a then
        actions_loop uc (Suc i) as seen uniq errs
          (warnings @ [Sprintf uc ''action %q is listed more than once, duplicates ignored'' [AS a]])
      else
        actions_loop uc (Suc i) as (AList.update a True seen) (uniq @ [a]) errs warnings)"

definition ensure :: "bool \<Rightarrow> goerr \<Rightarrow> goerr list" where
  "ensure ok e = (if ok then [] else [e])"

definition check_flush_interval :: "config \<Rightarrow> goerr list" where
  "check_flush_interval c =
     ensure (0 <s cfg_flush_interval c)
       (fail ''flush_interval must be > 0, got %d'' [AI (sint (cfg_flush_interval c))])"

definition check_redis :: "redis_config \<Rightarrow> goerr list" where
  "check_redis r =
     ensure (TrimSpace (r_host r) \<noteq> []) (fail ''redis.host must not be empty'' []) @
     ensure (\<not> (r_port r <s 1 \<or> 65535 <s r_port r))
       (fail ''redis.port must be in 1..65535, got %d'' [AI (sint (r_port r))]) @
     ensure (\<not> r_db r <s 0) (fail ''redis.db must be >= 0, got %d'' [AI (sint (r_db r))]) @
     ensure (\<not> r_ttl r <s 0) (fail ''redis.ttl must be >= 0 seconds, got %d'' [AI (sint (r_ttl r))])"

definition ttl_warning :: "unicode \<Rightarrow> config \<Rightarrow> string list" where
  "ttl_warning uc c =
     (let ttl = r_ttl (cfg_redis c); fi = cfg_flush_interval c in
      if 0 <s ttl \<and> 0 <s fi \<and> ttl \<le>s fi then
        [Sprintf uc ''redis.ttl (%ds) is not longer than flush_interval (%ds): keys may expire between two flushes and lose their total''
           [AI (sint ttl), AI (sint fi)]]
      else [])"

definition check_logging :: "logging_config \<Rightarrow> goerr list" where
  "check_logging l =
     ensure (l_level l \<in> set Levels)
       (fail ''logging.level must be one of %s, got %q'' [AS (join ''/'' Levels), AS (l_level l)]) @
     (if l_output l = OutputJournald then []
      else if l_output l = OutputFile then
        ensure (TrimSpace (l_file l) \<noteq> [])
          (fail ''logging.file must not be empty when logging.output is \"file\"'' [])
      else [fail ''logging.output must be %q or %q, got %q''
              [AS OutputJournald, AS OutputFile, AS (l_output l)]])"

definition errs_of :: "goerr option \<Rightarrow> goerr list" where
  "errs_of e = (case e of None \<Rightarrow> [] | Some err \<Rightarrow> [err])"

definition check_schedule :: "'s config_libs \<Rightarrow> reset_config \<Rightarrow> goerr list" where
  "check_schedule libs r = (case ParseSchedule libs (rs_schedule r) of Inl err \<Rightarrow> [err] | Inr _ \<Rightarrow> [])"

text \<open>\<open>join\<close> of the source: nothing, the one error, or a \<open>multiError\<close>.\<close>

fun join_errs :: "goerr list \<Rightarrow> goerr option" where
  "join_errs [] = None"
| "join_errs [e] = Some e"
| "join_errs es = Some (MultiErr es)"

definition Validate :: "unicode \<Rightarrow> 's config_libs \<Rightarrow> config \<Rightarrow> config \<times> string list \<times> goerr option" where
  "Validate uc libs c =
     (let errs0 =
            ensure (TrimSpace (cfg_log_path c) \<noteq> []) (fail ''log_path must not be empty'' []) @
            ensure (cfg_actions c \<noteq> []) (fail ''actions must not be empty'' []);
          (uniq, errs1, warnings0) = actions_loop uc 0 (cfg_actions c) [] [] errs0 [];
          c' = c\<lparr>cfg_actions := uniq\<rparr>;
          warnings1 = warnings0 @ Overlaps uc (cfg_actions c') (cfg_case_sensitive c');
          errs2 = errs1 @ check_flush_interval c' @
            ensure (TrimSpace (cfg_lock_file c') \<noteq> []) (fail ''lock_file must not be empty'' []) @
            check_redis (cfg_redis c') @
            check_logging (cfg_logging c') @
            check_schedule libs (cfg_reset c') @
            errs_of (validate_metrics (cfg_metrics c'))
      in (c', warnings1 @ ttl_warning uc c', join_errs errs2))"

text \<open>\<open>Load\<close>: the configuration only when it was read, parsed and accepted, the warnings also with a
  validation error.\<close>

definition Load ::
  "unicode \<Rightarrow> 's config_libs \<Rightarrow> 'w os \<Rightarrow> 'w \<Rightarrow> string \<Rightarrow> config option \<times> string list \<times> goerr option" where
  "Load uc libs os w path =
     (case os_read_file os w path of
        Inl err \<Rightarrow> (None, [], Some (Errorf ''read config %s: %w'' [AS path] (Some err)))
      | Inr data \<Rightarrow>
          (case Parse libs data of
             Inl err \<Rightarrow> (None, [], Some (Errorf ''config %s: %w'' [AS path] (Some err)))
           | Inr cfg \<Rightarrow>
               (case Validate uc libs cfg of
                  (cfg', warnings, Some err) \<Rightarrow>
                    (None, warnings, Some (Errorf ''config %s: %w'' [AS path] (Some err)))
                | (cfg', warnings, None) \<Rightarrow> (Some cfg', warnings, None))))"

subsection \<open>Checks that touch the file system\<close>

definition ensureDir :: "'w os \<Rightarrow> 'w \<Rightarrow> string \<Rightarrow> 'w \<times> goerr option" where
  "ensureDir os w dir =
     (if dir = [] \<or> dir = ''.'' then (w, None)
      else (case os_mkdir_all os w dir of
        (w', Some err) \<Rightarrow> (w', Some (Errorf ''cannot create directory %s: %w'' [AS dir] (Some err)))
      | (w', None) \<Rightarrow> (w', None)))"

definition CheckPaths :: "'w os \<Rightarrow> 'w \<Rightarrow> config \<Rightarrow> 'w \<times> goerr option" where
  "CheckPaths os w c =
     (case ensureDir os w (Dir (cfg_lock_file c)) of
        (w1, Some err) \<Rightarrow> (w1, Some (Errorf ''lock_file %s: %w'' [AS (cfg_lock_file c)] (Some err)))
      | (w1, None) \<Rightarrow>
          (let file = l_file (cfg_logging c) in
           if l_output (cfg_logging c) = OutputFile then
             (case ensureDir os w1 (Dir file) of
                (w2, Some err) \<Rightarrow> (w2, Some (Errorf ''logging.file %s: %w'' [AS file] (Some err)))
              | (w2, None) \<Rightarrow>
                  (case os_open_append os w2 file of
                     (w3, Inl err) \<Rightarrow> (w3, Some (Errorf ''logging.file %s is not writable: %w'' [AS file] (Some err)))
                   | (w3, Inr f) \<Rightarrow>
                       (case os_close os w3 f of
                          (w4, Some err) \<Rightarrow> (w4, Some (Errorf ''logging.file %s: %w'' [AS file] (Some err)))
                        | (w4, None) \<Rightarrow> (w4, None))))
           else (w1, None)))"

subsection \<open>The loop over the actions\<close>

text \<open>Duplicates dropped, the first occurrence kept.\<close>

definition keep_first :: "string list \<Rightarrow> string list" where
  "keep_first xs = rev (remdups (rev xs))"

lemma keep_first_facts [simp]:
  "distinct (keep_first xs)" "set (keep_first xs) = set xs"
  by (simp_all add: keep_first_def)

lemma remdups_later: "a \<in> set ys \<Longrightarrow> remdups (xs @ a # ys) = remdups (xs @ ys)"
  by (induction xs) auto

lemma keep_first_dup: "a \<in> set xs \<Longrightarrow> keep_first (xs @ a # ys) = keep_first (xs @ ys)"
  by (simp add: keep_first_def remdups_later)

lemma keep_first_distinct: "distinct xs \<Longrightarrow> keep_first xs = xs"
  by (simp add: keep_first_def distinct_remdups_id)

lemma actions_loop_uniq:
  assumes "\<And>a. mget False seen a = (a \<in> set uniq)" "distinct uniq"
  shows "fst (actions_loop uc i as seen uniq errs ws) = keep_first (uniq @ filter (\<lambda>a. a \<noteq> []) as)"
  using assms
proof (induction as arbitrary: i seen uniq errs ws)
  case (Cons a as)
  show ?case
  proof (cases "a \<noteq> [] \<and> \<not> mget False seen a")
    case True
    then have "fst (actions_loop uc (Suc i) as (AList.update a True seen) (uniq @ [a]) errs ws) =
        keep_first ((uniq @ [a]) @ filter (\<lambda>a. a \<noteq> []) as)"
      using Cons.prems by (intro Cons.IH) auto
    with True show ?thesis by simp
  next
    case False
    then show ?thesis
      using Cons.IH [OF Cons.prems] Cons.prems(1) [of a] keep_first_dup [of a uniq] by auto
  qed
qed (simp add: keep_first_distinct)

text \<open>The errors are one per empty action, after what was there before.\<close>

lemma actions_loop_errs:
  "\<exists>es. fst (snd (actions_loop uc i as seen uniq errs ws)) = errs @ es \<and>
     (es = [] \<longleftrightarrow> [] \<notin> set as) \<and>
     (\<forall>k < length as. as ! k = [] \<longrightarrow> fail ''actions[%d] must not be empty'' [AI (int (i + k))] \<in> set es) \<and>
     (\<forall>e\<in>set es. \<exists>n. e = fail ''actions[%d] must not be empty'' [AI n])"
proof (induction as arbitrary: i seen uniq errs ws)
  case (Cons a as)
  let ?e = "fail ''actions[%d] must not be empty'' [AI (int i)]"
  let ?tail = "\<lambda>seen uniq errs ws. fst (snd (actions_loop uc (Suc i) as seen uniq errs ws))"
  show ?case
  proof (cases "a = []")
    case True
    obtain es where es: "?tail seen uniq (errs @ [?e]) ws = (errs @ [?e]) @ es"
      and k: "\<forall>k < length as. as ! k = [] \<longrightarrow> fail ''actions[%d] must not be empty'' [AI (int (Suc i + k))] \<in> set es"
      and f: "\<forall>e\<in>set es. \<exists>n. e = fail ''actions[%d] must not be empty'' [AI n]"
      using Cons.IH [of "Suc i" seen uniq "errs @ [?e]" ws] by blast
    have "\<forall>k < length (a # as). (a # as) ! k = [] \<longrightarrow>
        fail ''actions[%d] must not be empty'' [AI (int (i + k))] \<in> set (?e # es)"
      using k by (auto simp: less_Suc_eq_0_disj ac_simps)
    with es f True show ?thesis by (intro exI [of _ "?e # es"]) auto
  next
    case False
    then obtain seen' uniq' ws' where
      loop: "actions_loop uc i (a # as) seen uniq errs ws = actions_loop uc (Suc i) as seen' uniq' errs ws'"
      by (cases "mget False seen a") auto
    obtain es where es: "?tail seen' uniq' errs ws' = errs @ es" "(es = []) = ([] \<notin> set as)"
      and k: "\<forall>k < length as. as ! k = [] \<longrightarrow> fail ''actions[%d] must not be empty'' [AI (int (Suc i + k))] \<in> set es"
      and f: "\<forall>e\<in>set es. \<exists>n. e = fail ''actions[%d] must not be empty'' [AI n]"
      using Cons.IH [of "Suc i" seen' uniq' errs ws'] by blast
    have "\<forall>k < length (a # as). (a # as) ! k = [] \<longrightarrow>
        fail ''actions[%d] must not be empty'' [AI (int (i + k))] \<in> set es"
      using k False by (auto simp: less_Suc_eq_0_disj ac_simps)
    with es f False loop show ?thesis by (intro exI [of _ es]) auto
  qed
qed auto

text \<open>A list that is already normalised goes through unchanged and silently.\<close>

lemma actions_loop_clean:
  assumes "distinct (uniq @ as)" "[] \<notin> set as" "\<And>a. mget False seen a = (a \<in> set uniq)"
  shows "actions_loop uc i as seen uniq errs ws = (uniq @ as, errs, ws)"
  using assms by (induction as arbitrary: i seen uniq) auto

lemma Validate_actions:
  "cfg_actions (fst (Validate uc libs c)) = keep_first (filter (\<lambda>a. a \<noteq> []) (cfg_actions c))"
  using actions_loop_uniq [of "[]" "[]"] by (simp add: Validate_def Let_def split_beta)

lemma Validate_config:
  "fst (Validate uc libs c) = c\<lparr>cfg_actions := keep_first (filter (\<lambda>a. a \<noteq> []) (cfg_actions c))\<rparr>"
  using actions_loop_uniq [of "[]" "[]"] by (simp add: Validate_def Let_def split_beta)

subsection \<open>What Validate accepts\<close>

definition valid_metrics :: "metrics_config \<Rightarrow> bool" where
  "valid_metrics m \<longleftrightarrow> validate_metrics m = None"

definition valid_redis :: "redis_config \<Rightarrow> bool" where
  "valid_redis r \<longleftrightarrow> TrimSpace (r_host r) \<noteq> [] \<and> 1 \<le> sint (r_port r) \<and> sint (r_port r) \<le> 65535 \<and>
     0 \<le> sint (r_db r) \<and> 0 \<le> sint (r_ttl r)"

definition valid_logging :: "logging_config \<Rightarrow> bool" where
  "valid_logging l \<longleftrightarrow> l_level l \<in> {''debug'', ''info'', ''warn'', ''error''} \<and>
     (l_output l = ''journald'' \<or> (l_output l = ''file'' \<and> TrimSpace (l_file l) \<noteq> []))"

text \<open>Everything but the actions.\<close>

definition valid_rest :: "'s config_libs \<Rightarrow> config \<Rightarrow> bool" where
  "valid_rest libs c \<longleftrightarrow> TrimSpace (cfg_log_path c) \<noteq> [] \<and> 0 < sint (cfg_flush_interval c) \<and>
     TrimSpace (cfg_lock_file c) \<noteq> [] \<and> valid_redis (cfg_redis c) \<and> valid_logging (cfg_logging c) \<and>
     (\<exists>s. ParseSchedule libs (rs_schedule (cfg_reset c)) = Inr s) \<and> valid_metrics (cfg_metrics c)"

definition valid_config :: "'s config_libs \<Rightarrow> config \<Rightarrow> bool" where
  "valid_config libs c \<longleftrightarrow> cfg_actions c \<noteq> [] \<and> [] \<notin> set (cfg_actions c) \<and> valid_rest libs c"

lemma join_errs_None: "join_errs es = None \<longleftrightarrow> es = []"
  by (cases es rule: join_errs.cases) auto

lemma ensure_Nil: "ensure b e = [] \<longleftrightarrow> b"
  by (simp add: ensure_def)

lemma check_redis_Nil: "check_redis r = [] \<longleftrightarrow> valid_redis r"
  by (auto simp: check_redis_def ensure_Nil valid_redis_def word_sless_alt)

lemma check_logging_Nil: "check_logging l = [] \<longleftrightarrow> valid_logging l"
  by (auto simp: check_logging_def ensure_Nil valid_logging_def Levels_def OutputJournald_def
      OutputFile_def)

lemma check_schedule_Nil: "check_schedule libs r = [] \<longleftrightarrow> (\<exists>s. ParseSchedule libs (rs_schedule r) = Inr s)"
  by (auto simp: check_schedule_def split: sum.split)

lemma errs_of_Nil: "errs_of e = [] \<longleftrightarrow> e = None"
  by (simp add: errs_of_def split: option.split)

lemmas check_Nil = ensure_Nil check_redis_Nil check_logging_Nil check_schedule_Nil errs_of_Nil

text \<open>The errors of the checks after the loop; none of them looks at the actions.\<close>

definition rest_errs :: "'s config_libs \<Rightarrow> config \<Rightarrow> goerr list" where
  "rest_errs libs c = check_flush_interval c @
     ensure (TrimSpace (cfg_lock_file c) \<noteq> []) (fail ''lock_file must not be empty'' []) @
     check_redis (cfg_redis c) @ check_logging (cfg_logging c) @ check_schedule libs (cfg_reset c) @
     errs_of (validate_metrics (cfg_metrics c))"

lemma rest_errs_update [simp]: "rest_errs libs (c\<lparr>cfg_actions := as\<rparr>) = rest_errs libs c"
  by (simp add: rest_errs_def check_flush_interval_def)

lemma Validate_errs:
  "\<exists>es. snd (snd (Validate uc libs c)) = join_errs
       (ensure (TrimSpace (cfg_log_path c) \<noteq> []) (fail ''log_path must not be empty'' []) @
        ensure (cfg_actions c \<noteq> []) (fail ''actions must not be empty'' []) @ es @ rest_errs libs c) \<and>
     (es = [] \<longleftrightarrow> [] \<notin> set (cfg_actions c)) \<and>
     (\<forall>k < length (cfg_actions c). cfg_actions c ! k = [] \<longrightarrow>
        fail ''actions[%d] must not be empty'' [AI (int k)] \<in> set es) \<and>
     (\<forall>e\<in>set es. \<exists>n. e = fail ''actions[%d] must not be empty'' [AI n])"
proof -
  let ?e0 = "ensure (TrimSpace (cfg_log_path c) \<noteq> []) (fail ''log_path must not be empty'' []) @
    ensure (cfg_actions c \<noteq> []) (fail ''actions must not be empty'' [])"
  have "snd (snd (Validate uc libs c)) =
      join_errs (fst (snd (actions_loop uc 0 (cfg_actions c) [] [] ?e0 [])) @ rest_errs libs c)"
    by (simp add: Validate_def Let_def split_beta rest_errs_def check_flush_interval_def)
  then show ?thesis
    using actions_loop_errs [of uc 0 "cfg_actions c" "[]" "[]" ?e0 "[]"] by auto
qed

lemma valid_rest_iff:
  "valid_rest libs c \<longleftrightarrow> TrimSpace (cfg_log_path c) \<noteq> [] \<and> rest_errs libs c = []"
  by (auto simp: valid_rest_def rest_errs_def check_flush_interval_def check_Nil sless_zero valid_metrics_def)

lemma Validate_accepts_iff: "snd (snd (Validate uc libs c)) = None \<longleftrightarrow> valid_config libs c"
proof -
  obtain es where "snd (snd (Validate uc libs c)) = join_errs
       (ensure (TrimSpace (cfg_log_path c) \<noteq> []) (fail ''log_path must not be empty'' []) @
        ensure (cfg_actions c \<noteq> []) (fail ''actions must not be empty'' []) @ es @ rest_errs libs c)"
    and "es = [] \<longleftrightarrow> [] \<notin> set (cfg_actions c)"
    using Validate_errs [of uc libs c] by blast
  then show ?thesis
    by (auto simp: join_errs_None ensure_Nil valid_config_def valid_rest_iff)
qed

end
