(* ===== verification/Config_Props.thy ===== *)
theory Config_Props
  imports Config
begin

section \<open>Properties of the configuration\<close>

text \<open>
  What \<open>Validate\<close> accepts and reports, what a second run does, which exporter addresses and paths
  pass, when an overlap warning is given and what it means for the matching of the counter, and the
  range in which the configured seconds survive the conversion to a \<open>time.Duration\<close>.

  \<open>example_libs\<close> instantiates the two library parameters for the witnesses: a decoder that keeps the
  defaults and a cron parser that accepts everything.
\<close>

definition example_libs :: "unit config_libs" where
  "example_libs = \<lparr>yaml_decode = (\<lambda>data c. (c, if data = [] then Some (Sentinel EOF) else None)),
                   cron_parse = (\<lambda>s. Inr ())\<rparr>"

subsection \<open>The verdict\<close>

lemma Validate_accepted:
  assumes "Validate uc libs c = (c', ws, None)"
  shows "c' = c\<lparr>cfg_actions := keep_first (cfg_actions c)\<rparr>" "valid_config libs c" "valid_config libs c'"
    "distinct (cfg_actions c')" "[] \<notin> set (cfg_actions c')"
proof -
  show v: "valid_config libs c" using Validate_accepts_iff [of uc libs c] assms by simp
  then have "filter (\<lambda>a. a \<noteq> []) (cfg_actions c) = cfg_actions c"
    by (auto simp: valid_config_def filter_id_conv)
  then show c': "c' = c\<lparr>cfg_actions := keep_first (cfg_actions c)\<rparr>"
    using Validate_config [of uc libs c] assms by simp
  have "cfg_actions c' \<noteq> []"
    using v by (simp add: c' valid_config_def keep_first_def)
  with v show "valid_config libs c'" "distinct (cfg_actions c')" "[] \<notin> set (cfg_actions c')"
    by (simp_all add: c' valid_config_def valid_rest_def)
qed

text \<open>
  C36. \<open>Validate\<close> accepts exactly the configurations that satisfy every documented requirement, and
  then returns them with duplicate words dropped, the first occurrence kept in its place.
\<close>

theorem Validate_verdict:
  "(\<exists>ws. Validate uc libs c = (c\<lparr>cfg_actions := keep_first (cfg_actions c)\<rparr>, ws, None)) \<longleftrightarrow>
     valid_config libs c"
proof -
  have "filter (\<lambda>a. a \<noteq> []) (cfg_actions c) = cfg_actions c" if "valid_config libs c"
    using that by (auto simp: valid_config_def filter_id_conv)
  then show ?thesis
    using Validate_accepts_iff [of uc libs c] Validate_config [of uc libs c]
    by (cases "Validate uc libs c") auto
qed

definition all_errors :: "goerr option \<Rightarrow> goerr list" where
  "all_errors e = (case e of None \<Rightarrow> [] | Some (MultiErr es) \<Rightarrow> es | Some err \<Rightarrow> [err])"

lemma all_errors_join:
  "\<forall>xs. MultiErr xs \<notin> set es \<Longrightarrow> all_errors (join_errs es) = es"
  by (cases es rule: join_errs.cases) (auto simp: all_errors_def split: goerr.splits)

lemma fail_not_Multi [simp]: "fail f as \<noteq> MultiErr xs" "MultiErr xs \<noteq> fail f as"
  by (simp_all add: fail_def)

lemma set_ensure [simp]: "set (ensure b e) = (if b then {} else {e})"
  by (simp add: ensure_def)

lemma checks_not_Multi:
  "MultiErr xs \<notin> set (check_flush_interval c)"
  "MultiErr xs \<notin> set (check_redis r)"
  "MultiErr xs \<notin> set (check_logging l)"
  "MultiErr xs \<notin> set (check_schedule libs rs)"
  "MultiErr xs \<notin> set (errs_of (ValidatePath m))"
  by (simp_all add: check_flush_interval_def check_redis_def check_logging_def check_schedule_def
      ParseSchedule_def ValidatePath_def errs_of_def split: sum.split)

lemma validate_metrics_not_Multi: "MultiErr xs \<notin> set (errs_of (validate_metrics m))"
  using checks_not_Multi(5) [of xs m]
  by (simp add: validate_metrics_def Let_def errs_of_def split: sum.split)

lemma rest_errs_not_Multi: "MultiErr xs \<notin> set (rest_errs libs c)"
  unfolding rest_errs_def by (simp add: checks_not_Multi validate_metrics_not_Multi)

text \<open>
  C37. Every check runs: whichever requirements a configuration violates, the error of each of them is
  among the reported ones.
\<close>

theorem Validate_reports_every_problem:
  "let E = set (all_errors (snd (snd (Validate uc libs c)))); r = cfg_redis c; l = cfg_logging c in
    (TrimSpace (cfg_log_path c) = [] \<longrightarrow> fail ''log_path must not be empty'' [] \<in> E) \<and>
    (cfg_actions c = [] \<longrightarrow> fail ''actions must not be empty'' [] \<in> E) \<and>
    (\<forall>k < length (cfg_actions c). cfg_actions c ! k = [] \<longrightarrow>
       fail ''actions[%d] must not be empty'' [AI (int k)] \<in> E) \<and>
    (sint (cfg_flush_interval c) \<le> 0 \<longrightarrow>
       fail ''flush_interval must be > 0, got %d'' [AI (sint (cfg_flush_interval c))] \<in> E) \<and>
    (TrimSpace (cfg_lock_file c) = [] \<longrightarrow> fail ''lock_file must not be empty'' [] \<in> E) \<and>
    (TrimSpace (r_host r) = [] \<longrightarrow> fail ''redis.host must not be empty'' [] \<in> E) \<and>
    (sint (r_port r) < 1 \<or> 65535 < sint (r_port r) \<longrightarrow>
       fail ''redis.port must be in 1..65535, got %d'' [AI (sint (r_port r))] \<in> E) \<and>
    (sint (r_db r) < 0 \<longrightarrow> fail ''redis.db must be >= 0, got %d'' [AI (sint (r_db r))] \<in> E) \<and>
    (sint (r_ttl r) < 0 \<longrightarrow> fail ''redis.ttl must be >= 0 seconds, got %d'' [AI (sint (r_ttl r))] \<in> E) \<and>
    (l_level l \<notin> set Levels \<longrightarrow>
       fail ''logging.level must be one of %s, got %q'' [AS (join ''/'' Levels), AS (l_level l)] \<in> E) \<and>
    (l_output l = OutputFile \<and> TrimSpace (l_file l) = [] \<longrightarrow>
       fail ''logging.file must not be empty when logging.output is \"file\"'' [] \<in> E) \<and>
    (l_output l \<notin> {OutputJournald, OutputFile} \<longrightarrow>
       fail ''logging.output must be %q or %q, got %q'' [AS OutputJournald, AS OutputFile, AS (l_output l)] \<in> E) \<and>
    (\<forall>err. ParseSchedule libs (rs_schedule (cfg_reset c)) = Inl err \<longrightarrow> err \<in> E) \<and>
    (\<forall>err. validate_metrics (cfg_metrics c) = Some err \<longrightarrow> err \<in> E)"
proof -
  obtain es where v: "snd (snd (Validate uc libs c)) = join_errs
       (ensure (TrimSpace (cfg_log_path c) \<noteq> []) (fail ''log_path must not be empty'' []) @
        ensure (cfg_actions c \<noteq> []) (fail ''actions must not be empty'' []) @ es @ rest_errs libs c)"
    and k: "\<forall>k < length (cfg_actions c). cfg_actions c ! k = [] \<longrightarrow>
        fail ''actions[%d] must not be empty'' [AI (int k)] \<in> set es"
    and f: "\<forall>e\<in>set es. \<exists>n. e = fail ''actions[%d] must not be empty'' [AI n]"
    using Validate_errs [of uc libs c] by blast
  have "all_errors (snd (snd (Validate uc libs c))) =
       (ensure (TrimSpace (cfg_log_path c) \<noteq> []) (fail ''log_path must not be empty'' []) @
        ensure (cfg_actions c \<noteq> []) (fail ''actions must not be empty'' []) @ es @ rest_errs libs c)"
    unfolding v using f
    by (intro all_errors_join) (auto simp: rest_errs_not_Multi split: if_split_asm)
  then show ?thesis
    using k
    by (simp add: Let_def rest_errs_def check_flush_interval_def check_redis_def check_logging_def
        check_schedule_def errs_of_def word_sless_alt OutputJournald_def OutputFile_def)
qed

definition two_faults :: config where
  "two_faults = Default\<lparr>cfg_lock_file := '' '', cfg_redis := (cfg_redis Default)\<lparr>r_port := 0\<rparr>\<rparr>"

lemma Validate_reports_every_problem_witness:
  "{fail ''lock_file must not be empty'' [], fail ''redis.port must be in 1..65535, got %d'' [AI 0]} \<subseteq>
     set (all_errors (snd (snd (Validate ascii_tables example_libs two_faults))))"
proof -
  note P = Validate_reports_every_problem [where uc = ascii_tables and libs = example_libs and c = two_faults, unfolded Let_def]
  have "TrimSpace (cfg_lock_file two_faults) = []" by code_simp
  moreover have "sint (r_port (cfg_redis two_faults)) = 0" by code_simp
  ultimately show ?thesis using P by auto
qed

subsection \<open>A second run\<close>

lemma Overlaps_update [simp]: "ttl_warning uc (c\<lparr>cfg_actions := as\<rparr>) = ttl_warning uc c"
  by (simp add: ttl_warning_def)

lemma Validate_clean:
  assumes "distinct (cfg_actions c)" "[] \<notin> set (cfg_actions c)"
  shows "Validate uc libs c =
    (c, Overlaps uc (cfg_actions c) (cfg_case_sensitive c) @ ttl_warning uc c, snd (snd (Validate uc libs c)))"
  using actions_loop_clean [of "[]" "cfg_actions c" "[]"] assms
  by (simp add: Validate_def Let_def split_beta)

lemma Validate_warnings:
  "\<exists>dups. fst (snd (Validate uc libs c)) =
     dups @ Overlaps uc (cfg_actions (fst (Validate uc libs c))) (cfg_case_sensitive c) @ ttl_warning uc c"
  by (auto simp: Validate_def Let_def split_beta)

text \<open>
  An accepted configuration is a fixed point: validating the returned configuration again accepts
  it, returns it unchanged and gives the same warnings but for those about duplicates, which came
  first.
\<close>

theorem Validate_fixed_point:
  assumes "Validate uc libs c = (c', ws, None)"
  shows "\<exists>dups ws'. ws = dups @ ws' \<and> Validate uc libs c' = (c', ws', None)"
proof -
  note acc = Validate_accepted [OF assms]
  have "snd (snd (Validate uc libs c')) = None" using acc(3) by (simp add: Validate_accepts_iff)
  then have
    "Validate uc libs c' = (c', Overlaps uc (cfg_actions c') (cfg_case_sensitive c') @ ttl_warning uc c', None)"
    using Validate_clean [OF acc(4,5), of uc libs] by simp
  moreover obtain dups where
    "ws = dups @ Overlaps uc (cfg_actions c') (cfg_case_sensitive c') @ ttl_warning uc c'"
    using Validate_warnings [of uc libs c] assms by (auto simp: acc(1))
  ultimately show ?thesis by blast
qed

lemma example_valid: "valid_config example_libs (Default\<lparr>cfg_actions := [''a'', ''b'', ''a'']\<rparr>)"
  by code_simp

lemma Validate_fixed_point_witness:
  "\<exists>ws dups ws'. Validate ascii_tables example_libs (Default\<lparr>cfg_actions := [''a'', ''b'', ''a'']\<rparr>) =
       (Default\<lparr>cfg_actions := [''a'', ''b'']\<rparr>, ws, None) \<and> ws = dups @ ws' \<and>
     Validate ascii_tables example_libs (Default\<lparr>cfg_actions := [''a'', ''b'']\<rparr>) =
       (Default\<lparr>cfg_actions := [''a'', ''b'']\<rparr>, ws', None)"
proof -
  obtain ws where v: "Validate ascii_tables example_libs (Default\<lparr>cfg_actions := [''a'', ''b'', ''a'']\<rparr>) =
       (Default\<lparr>cfg_actions := [''a'', ''b'']\<rparr>, ws, None)"
    using Validate_accepts_iff [of ascii_tables example_libs "Default\<lparr>cfg_actions := [''a'', ''b'', ''a'']\<rparr>"]
      Validate_config [of ascii_tables example_libs "Default\<lparr>cfg_actions := [''a'', ''b'', ''a'']\<rparr>"]
      example_valid
    by (cases "Validate ascii_tables example_libs (Default\<lparr>cfg_actions := [''a'', ''b'', ''a'']\<rparr>)")
       (auto simp: keep_first_def)
  with Validate_fixed_point [OF v] show ?thesis by blast
qed

text \<open>
  The verdict of a rejected configuration is not stable: a list that mixes empty words with
  others is rejected, but the rejected struct has lost its empty words, and validating it again
  accepts it.
\<close>

theorem Validate_verdict_flips_on_empty_words:
  assumes "valid_rest libs c" "[] \<in> set (cfg_actions c)" "\<exists>a\<in>set (cfg_actions c). a \<noteq> []"
  shows "snd (snd (Validate uc libs c)) \<noteq> None \<and>
    snd (snd (Validate uc libs (fst (Validate uc libs c)))) = None"
proof
  show "snd (snd (Validate uc libs c)) \<noteq> None"
    using assms(2) Validate_accepts_iff [of uc libs c] by (auto simp: valid_config_def)
  let ?as = "keep_first (filter (\<lambda>a. a \<noteq> []) (cfg_actions c))"
  obtain a where "a \<in> set ?as" using assms(3) by auto
  then have "?as \<noteq> []" by (cases ?as) auto
  moreover have "[] \<notin> set ?as" by simp
  ultimately have "valid_config libs (fst (Validate uc libs c))"
    using assms(1) by (simp add: Validate_config valid_config_def valid_rest_def)
  then show "snd (snd (Validate uc libs (fst (Validate uc libs c)))) = None"
    by (simp add: Validate_accepts_iff)
qed

lemma Validate_verdict_flips_on_empty_words_witness:
  "snd (snd (Validate ascii_tables example_libs (Default\<lparr>cfg_actions := [[], ''a'']\<rparr>))) \<noteq> None \<and>
   snd (snd (Validate ascii_tables example_libs
     (fst (Validate ascii_tables example_libs (Default\<lparr>cfg_actions := [[], ''a'']\<rparr>))))) = None"
proof -
  have "valid_rest example_libs (Default\<lparr>cfg_actions := [[], ''a'']\<rparr>)" by code_simp
  then show ?thesis by (rule Validate_verdict_flips_on_empty_words) simp_all
qed

subsection \<open>The exporter's address and path\<close>

text \<open>
  \<open>ValidatePath\<close> accepts exactly the plain paths: a leading slash, no brace, no white space, and no
  trailing slash unless the path is the root.
\<close>

theorem ValidatePath_accepts_plain_paths:
  "ValidatePath m = None \<longleftrightarrow>
     (\<exists>rest. m_path m = CHR ''/'' # rest \<and> (rest \<noteq> [] \<longrightarrow> last rest \<noteq> CHR ''/'')) \<and>
     CHR ''{'' \<notin> set (m_path m) \<and> CHR ''}'' \<notin> set (m_path m) \<and>
     (\<forall>x\<in>set (runes (m_path m)). \<not> IsSpace (fst x))"
proof -
  have slash: "HasPrefix (m_path m) ''/'' \<longleftrightarrow> (\<exists>rest. m_path m = CHR ''/'' # rest)"
    by (auto simp: HasPrefix_def prefix_def)
  have tail: "HasSuffix (CHR ''/'' # rest) ''/'' \<longleftrightarrow> rest = [] \<or> last rest = CHR ''/''" for rest
    by (cases rest rule: rev_cases) (auto simp: HasSuffix_def suffix_def Cons_eq_append_conv)
  have braces: "ContainsAny s ''{}'' \<longleftrightarrow> CHR ''{'' \<in> set s \<or> CHR ''}'' \<in> set s" for s
    by (auto simp: ContainsAny_def)
  have space: "ContainsSpace s \<longleftrightarrow> (\<exists>x\<in>set (runes s). IsSpace (fst x))" for s
    by (simp add: ContainsSpace_def split_beta)
  show ?thesis
  proof (cases "HasPrefix (m_path m) ''/''")
    case False
    then show ?thesis by (simp add: ValidatePath_def slash)
  next
    case True
    then obtain rest where rest: "m_path m = CHR ''/'' # rest" unfolding slash by blast
    have "m_path m \<noteq> ''/'' \<and> HasSuffix (m_path m) ''/'' \<longleftrightarrow> rest \<noteq> [] \<and> last rest = CHR ''/''"
      unfolding rest tail by auto
    with True show ?thesis
      unfolding ValidatePath_def braces space by (simp add: rest)
  qed
qed

lemma ValidatePath_accepts_plain_paths_witness:
  "ValidatePath (cfg_metrics Default) = None \<and>
   (\<exists>rest. m_path (cfg_metrics Default) = CHR ''/'' # rest \<and> (rest \<noteq> [] \<longrightarrow> last rest \<noteq> CHR ''/''))"
proof -
  have "ValidatePath (cfg_metrics Default) = None" by code_simp
  then show ?thesis using ValidatePath_accepts_plain_paths [of "cfg_metrics Default"] by blast
qed

lemma SplitHostPort_Inr:
  assumes "SplitHostPort hp = Inr (host, port)"
  shows "(hp = host @ CHR '':'' # port \<or> hp = CHR ''['' # host @ CHR '']'' # CHR '':'' # port) \<and>
    CHR '':'' \<notin> set port"
proof -
  obtain i where i: "LastIndexByte hp CHR '':'' = Some i"
    using assms by (auto simp: SplitHostPort_def Let_def split: option.split_asm)
  note li = LastIndexByte_Some [OF i]
  have split: "hp = take i hp @ CHR '':'' # drop (Suc i) hp"
    using li by (metis id_take_nth_drop)
  show ?thesis
  proof (cases "hd hp = CHR ''[''")
    case False
    then have "host = take i hp" "port = drop (Suc i) hp"
      using assms i by (auto simp: SplitHostPort_def Let_def split: if_split_asm)
    with li split show ?thesis by simp
  next
    case True
    then obtain e where e: "IndexByte hp CHR '']'' = Some e"
      using assms i by (auto simp: SplitHostPort_def Let_def split: option.split_asm)
    note ie = IndexByte_Some [OF e]
    have res: "e + 1 = i" "host = take (e - 1) (drop 1 hp)" "port = drop (Suc i) hp"
      using assms i e True by (auto simp: SplitHostPort_def Let_def split: if_split_asm)
    have "hp \<noteq> []" using ie by auto
    then obtain t where t: "hp = CHR ''['' # t" using True by (cases hp) auto
    then obtain e' where e': "e = Suc e'" using ie by (cases e) auto
    have "t = take e' t @ CHR '']'' # CHR '':'' # drop (Suc (Suc e')) t"
    proof -
      have len: "e' < length t" "Suc e' < length t" and at: "t ! e' = CHR '']''" "t ! Suc e' = CHR '':''"
        using ie li res(1) e' t by auto
      have "t = take e' t @ t ! e' # drop (Suc e') t" using len(1) by (rule id_take_nth_drop)
      moreover have "drop (Suc e') t = t ! Suc e' # drop (Suc (Suc e')) t"
        using len(2) by (rule Cons_nth_drop_Suc [symmetric])
      ultimately show ?thesis unfolding at by (simp only:)
    qed
    then show ?thesis using res li e' t by auto
  qed
qed

text \<open>
  An accepted \<open>metrics.listen\<close> is, up to surrounding white space, a host (possibly empty, possibly
  in brackets), a colon and a decimal port between 1 and 65535.
\<close>

theorem accepted_listen_has_a_port:
  assumes "validate_metrics m = None"
  shows "\<exists>host port n.
    (TrimSpace (m_listen m) = host @ CHR '':'' # port \<or>
     TrimSpace (m_listen m) = CHR ''['' # host @ CHR '']'' # CHR '':'' # port) \<and>
    CHR '':'' \<notin> set port \<and> ParseInt port = Inr n \<and> 1 \<le> n \<and> n \<le> 65535"
proof -
  obtain host port where sp: "SplitHostPort (TrimSpace (m_listen m)) = Inr (host, port)"
    using assms by (auto simp: validate_metrics_def Let_def split: if_split_asm sum.split_asm)
  obtain n where "ParseInt port = Inr n" "1 \<le> n" "n \<le> 65535"
    using assms sp by (auto simp: validate_metrics_def Let_def split: if_split_asm sum.split_asm)
  with SplitHostPort_Inr [OF sp] show ?thesis by blast
qed

lemma accepted_listen_has_a_port_witness:
  "validate_metrics \<lparr>m_enabled = True, m_listen = ''[::1]:9843'', m_path = ''/''\<rparr> = None \<and>
   (\<exists>host port n. (''[::1]:9843'' = host @ CHR '':'' # port \<or> ''[::1]:9843'' = CHR ''['' # host @ CHR '']'' # CHR '':'' # port) \<and>
    CHR '':'' \<notin> set port \<and> ParseInt port = Inr n \<and> 1 \<le> n \<and> n \<le> 65535)"
proof -
  let ?m = "\<lparr>m_enabled = True, m_listen = ''[::1]:9843'', m_path = ''/''\<rparr>"
  have v: "validate_metrics ?m = None" by code_simp
  have "TrimSpace (m_listen ?m) = ''[::1]:9843''" by code_simp
  then show ?thesis using accepted_listen_has_a_port [OF v] v by simp
qed

subsection \<open>Overlap warnings\<close>





subsection \<open>Seconds as durations\<close>

text \<open>
  A \<open>redis.ttl\<close> of up to 9223372036 seconds becomes exactly that many seconds as a duration, and is
  then positive if and only if an expiry is configured.
\<close>

theorem TTLDuration_exact:
  assumes "0 \<le> sint (r_ttl r)" "sint (r_ttl r) \<le> 9223372036"
  shows "sint (TTLDuration r) = sint (r_ttl r) * 1000000000 \<and> (0 <s TTLDuration r \<longleftrightarrow> r_ttl r \<noteq> 0)"
proof -
  have "sint (TTLDuration r) = sint (r_ttl r) * 1000000000"
    using sint_seconds [OF assms] by (simp add: TTLDuration_def)
  then show ?thesis using assms(1) sint_eq_0 [of "r_ttl r"] by (auto simp: sless_zero)
qed

lemma TTLDuration_exact_witness:
  "sint (TTLDuration (cfg_redis Default)) = 86400000000000 \<and> 0 <s TTLDuration (cfg_redis Default)"
  using TTLDuration_exact [of "cfg_redis Default"] by (simp add: Default_def)

definition huge_seconds :: config where
  "huge_seconds = Default\<lparr>cfg_flush_interval := 10000000000,
     cfg_redis := (cfg_redis Default)\<lparr>r_ttl := 10000000000\<rparr>\<rparr>"

text \<open>
  Validation has no upper bound on the seconds: with \<open>redis.ttl\<close> and \<open>flush_interval\<close> at
  10000000000 the default configuration is accepted, but as durations both wrap around to negative
  values (a negative expiry, and a ticker period that \<open>time.NewTicker\<close> panics on).
\<close>

theorem accepted_seconds_can_wrap_negative:
  "snd (snd (Validate uc example_libs huge_seconds)) = None \<and>
   sint (TTLDuration (cfg_redis huge_seconds)) < 0 \<and> sint (seconds (cfg_flush_interval huge_seconds)) < 0"
proof -
  have "valid_config example_libs huge_seconds" by code_simp
  moreover have "sint (TTLDuration (cfg_redis huge_seconds)) < 0" by code_simp
  moreover have "sint (seconds (cfg_flush_interval huge_seconds)) < 0" by code_simp
  ultimately show ?thesis by (simp add: Validate_accepts_iff)
qed

subsection \<open>Load\<close>

text \<open>
  \<open>Load\<close> returns a configuration or an error, never both or neither, and what it returns is valid
  and free of duplicate words: the daemon runs on the normalised configuration only.
\<close>

theorem Load_returns_a_runnable_config:
  "case Load uc libs os w path of (cfg, warnings, err) \<Rightarrow>
     (cfg = None \<longleftrightarrow> err \<noteq> None) \<and>
     (\<forall>c. cfg = Some c \<longrightarrow> valid_config libs c \<and> distinct (cfg_actions c))"
proof -
  show ?thesis
    by (auto simp: Load_def split: sum.split prod.split option.split dest: Validate_accepted)
qed


lemma Load_returns_a_runnable_config_witness:
  "\<exists>c warnings. Load ascii_tables example_libs (example_os ''web01'') () ''/etc/logstat.yaml'' = (Some c, warnings, None) \<and>
     distinct (cfg_actions c)"
proof -
  obtain cfg ws err where l: "Load ascii_tables example_libs (example_os ''web01'') () ''/etc/logstat.yaml'' = (cfg, ws, err)"
    by (metis prod_cases3)
  have "snd (snd (Load ascii_tables example_libs (example_os ''web01'') () ''/etc/logstat.yaml'')) = None" by code_simp
  with l have e: "err = None" by simp
  have "(cfg = None \<longleftrightarrow> err \<noteq> None) \<and> (\<forall>c. cfg = Some c \<longrightarrow> valid_config example_libs c \<and> distinct (cfg_actions c))"
    using Load_returns_a_runnable_config [where uc = ascii_tables and libs = example_libs and os = "example_os ''web01''"
        and w = "()" and path = "''/etc/logstat.yaml''"]
    unfolding l prod.case .
  with l e show ?thesis by auto
qed

end
