(* ===== verification/Redis.thy ===== *)
theory Redis
  imports Go_Fmt
begin

section \<open>The Redis client as a parameter, and its contract\<close>

text \<open>
  go-redis and the Redis server are outside the repository. The program's code takes a \<open>client\<close>: two
  functions on an opaque world \<open>'w\<close>, one that issues a single command and one that executes a
  pipeline. \<open>cmd\<close> has one constructor for each client method the program calls.

  What theorems assume about them is stated here as two predicates over a view of the world as a
  database. \<open>redis_contract\<close>: a call may send its command several times, because go-redis repeats one
  whose connection failed (\<open>MaxRetries\<close> is 3 unless the options say otherwise, and \<open>store.New\<close> does not),
  and an execution whose reply was lost had its effect all the same; the last execution of a call that is
  answered had the documented effect and reply. A pipeline runs its commands in order, each with its own
  outcome, may be repeated as a whole, and reports the first error. \<open>clean_failures\<close> is the stronger
  assumption that an execution without an answer had no effect: an answered call was executed once, and
  whatever reports an error was not applied. Nothing else writes to the keys during an operation.
\<close>

subsection \<open>Commands and replies\<close>

datatype cmd =
    SetNX string string int64
  | Get string
  | SetKey string string int64
  | IncrBy string int64
  | Expire string int64
  | Persist string
  | MGet "string list"

text \<open>An element of an \<open>MGET\<close> reply: \<open>nil\<close>, a string, or a value of another type.\<close>

datatype mvalue = VNil | VStr string | VOther

datatype reply = RStatus | RBool bool | RInt int64 | RStr string | RVals "mvalue list"

record 'w client =
  rdb_do :: "'w \<Rightarrow> cmd \<Rightarrow> 'w \<times> (goerr + reply)"
  rdb_exec :: "'w \<Rightarrow> cmd list \<Rightarrow> 'w \<times> goerr option \<times> (goerr + reply) list"

subsection \<open>The documented effect of a command\<close>

text \<open>A key holds a string or a value of another type, and possibly an expiry.\<close>

datatype rvalue = SVal string | OtherType

record entry =
  e_val :: rvalue
  e_exp :: "int64 option"

type_synonym db = "string \<Rightarrow> entry option"

definition expiry :: "int64 \<Rightarrow> int64 option" where
  "expiry ttl = (if 0 <s ttl then Some ttl else None)"

text \<open>The integers Redis accepts as such: the canonical decimal form of a 64-bit integer.\<close>

definition redis_int :: "rvalue \<Rightarrow> int option" where
  "redis_int v = (case v of OtherType \<Rightarrow> None | SVal s \<Rightarrow>
     (case ParseInt s of Inl _ \<Rightarrow> None | Inr n \<Rightarrow> if itoa n = s then Some n else None))"

definition set_entry :: "string \<Rightarrow> int64 \<Rightarrow> entry" where
  "set_entry v ttl = \<lparr>e_val = SVal v, e_exp = expiry ttl\<rparr>"

text \<open>
  \<open>None\<close>: the server answers with an error and changes nothing. \<open>SetNX\<close> of go-redis passes a negative
  expiry on, which the server refuses; \<open>Set\<close> leaves it out. (The duration -1, go-redis's \<open>KeepTTL\<close>, does
  not occur: \<open>Store_New\<close> makes every expiry a multiple of a second.)
\<close>

fun redis_effect :: "cmd \<Rightarrow> db \<Rightarrow> (db \<times> reply) option" where
  "redis_effect (SetNX k v ttl) d =
     (if ttl <s 0 then None
      else if d k = None then Some (d(k \<mapsto> set_entry v ttl), RBool True) else Some (d, RBool False))"
| "redis_effect (Get k) d =
     (case d k of Some e \<Rightarrow> (case e_val e of SVal s \<Rightarrow> Some (d, RStr s) | OtherType \<Rightarrow> None) | None \<Rightarrow> None)"
| "redis_effect (SetKey k v ttl) d = Some (d(k \<mapsto> set_entry v ttl), RStatus)"
| "redis_effect (IncrBy k n) d =
     (case d k of
        None \<Rightarrow> Some (d(k \<mapsto> \<lparr>e_val = SVal (itoa (sint n)), e_exp = None\<rparr>), RInt n)
      | Some e \<Rightarrow>
          (case redis_int (e_val e) of
             None \<Rightarrow> None
           | Some old \<Rightarrow>
               (let new = old + sint n in
                if new < - (2 ^ 63) \<or> 2 ^ 63 \<le> new then None
                else Some (d(k \<mapsto> e\<lparr>e_val := SVal (itoa new)\<rparr>), RInt (word_of_int new)))))"
| "redis_effect (Expire k ttl) d =
     (case d k of None \<Rightarrow> Some (d, RBool False) | Some e \<Rightarrow> Some (d(k \<mapsto> e\<lparr>e_exp := Some ttl\<rparr>), RBool True))"
| "redis_effect (Persist k) d =
     (case d k of None \<Rightarrow> Some (d, RBool False)
      | Some e \<Rightarrow> Some (d(k \<mapsto> e\<lparr>e_exp := None\<rparr>), RBool (e_exp e \<noteq> None)))"
| "redis_effect (MGet ks) d =
     Some (d, RVals (map (\<lambda>k. case d k of None \<Rightarrow> VNil
       | Some e \<Rightarrow> (case e_val e of SVal s \<Rightarrow> VStr s | OtherType \<Rightarrow> VNil)) ks))"

subsection \<open>The contract of the client\<close>

definition applied :: "cmd \<Rightarrow> db \<Rightarrow> db \<Rightarrow> bool" where
  "applied c d d' \<longleftrightarrow> (\<exists>x. redis_effect c d = Some (d', x))"

text \<open>A call of a single command: executions without an answer, then the last one.\<close>

definition cmd_outcome :: "cmd \<Rightarrow> goerr + reply \<Rightarrow> db \<Rightarrow> db \<Rightarrow> bool" where
  "cmd_outcome c r d d' \<longleftrightarrow>
     (\<exists>d1. (applied c)\<^sup>*\<^sup>* d d1 \<and> (case r of Inr x \<Rightarrow> redis_effect c d1 = Some (d', x) | Inl e \<Rightarrow> d' = d1))"

text \<open>A command in one pass of a pipeline, the pass, and a call.\<close>

definition cmd_pass :: "cmd \<Rightarrow> goerr + reply \<Rightarrow> db \<Rightarrow> db \<Rightarrow> bool" where
  "cmd_pass c r d d' = (case r of Inr x \<Rightarrow> redis_effect c d = Some (d', x) | Inl e \<Rightarrow> d' = d \<or> applied c d d')"

fun pipe_pass :: "cmd list \<Rightarrow> (goerr + reply) list \<Rightarrow> db \<Rightarrow> db \<Rightarrow> bool" where
  "pipe_pass [] [] d d' = (d' = d)"
| "pipe_pass (c # cs) (r # rs) d d' = (\<exists>d1. cmd_pass c r d d1 \<and> pipe_pass cs rs d1 d')"
| "pipe_pass _ _ d d' = False"

definition some_pass :: "cmd list \<Rightarrow> db \<Rightarrow> db \<Rightarrow> bool" where
  "some_pass cs d d' \<longleftrightarrow> (\<exists>rs. pipe_pass cs rs d d')"

definition pipe_outcome :: "cmd list \<Rightarrow> (goerr + reply) list \<Rightarrow> db \<Rightarrow> db \<Rightarrow> bool" where
  "pipe_outcome cs rs d d' \<longleftrightarrow> (\<exists>d1. (some_pass cs)\<^sup>*\<^sup>* d d1 \<and> pipe_pass cs rs d1 d')"

fun first_error :: "(goerr + reply) list \<Rightarrow> goerr option" where
  "first_error [] = None"
| "first_error (Inl e # rs) = Some e"
| "first_error (Inr x # rs) = first_error rs"

definition redis_contract :: "'w client \<Rightarrow> ('w \<Rightarrow> db) \<Rightarrow> bool" where
  "redis_contract cl view \<longleftrightarrow>
     (\<forall>w c w' r. rdb_do cl w c = (w', r) \<longrightarrow> cmd_outcome c r (view w) (view w')) \<and>
     (\<forall>w cs w' err rs. rdb_exec cl w cs = (w', err, rs) \<longrightarrow>
        pipe_outcome cs rs (view w) (view w') \<and> err = first_error rs)"

definition same_values :: "db \<Rightarrow> db \<Rightarrow> bool" where
  "same_values d d' \<longleftrightarrow> (\<forall>k. map_option e_val (d' k) = map_option e_val (d k))"

definition clean_failures :: "'w client \<Rightarrow> ('w \<Rightarrow> db) \<Rightarrow> bool" where
  "clean_failures cl view \<longleftrightarrow>
     (\<forall>w c w' r. rdb_do cl w c = (w', r) \<longrightarrow>
        (case r of Inr x \<Rightarrow> redis_effect c (view w) = Some (view w', x) | Inl e \<Rightarrow> view w' = view w)) \<and>
     (\<forall>w cs w' err rs. rdb_exec cl w cs = (w', err, rs) \<longrightarrow>
        (if err = None then pipe_pass cs rs (view w) (view w') else same_values (view w) (view w')))"

lemma redis_contractD:
  assumes "redis_contract cl view"
  shows "rdb_do cl w c = (w', r) \<Longrightarrow> cmd_outcome c r (view w) (view w')"
    and "rdb_exec cl w cs = (w', err, rs) \<Longrightarrow> pipe_outcome cs rs (view w) (view w')"
    and "rdb_exec cl w cs = (w', err, rs) \<Longrightarrow> err = first_error rs"
  using assms unfolding redis_contract_def by blast+

lemma clean_failuresD:
  assumes "clean_failures cl view"
  shows "rdb_do cl w c = (w', Inl e) \<Longrightarrow> view w' = view w"
    and "rdb_do cl w c = (w', Inr x) \<Longrightarrow> redis_effect c (view w) = Some (view w', x)"
    and "rdb_exec cl w cs = (w', Some e, rs) \<Longrightarrow> same_values (view w) (view w')"
    and "rdb_exec cl w cs = (w', None, rs) \<Longrightarrow> pipe_pass cs rs (view w) (view w')"
  using assms unfolding clean_failures_def by fastforce+

lemma pipe_pass_length: "pipe_pass cs rs d d' \<Longrightarrow> length rs = length cs"
  by (induction cs rs d d' rule: pipe_pass.induct) auto

lemma pipe_pass_Cons:
  "pipe_pass (c # cs) rs d d' \<longleftrightarrow> (\<exists>r rs' d1. rs = r # rs' \<and> cmd_pass c r d d1 \<and> pipe_pass cs rs' d1 d')"
  by (cases rs) auto

lemma pipe_pass_Nil: "pipe_pass [] rs d d' \<longleftrightarrow> rs = [] \<and> d' = d"
  by (cases rs) auto

lemma pipe_outcome_length: "pipe_outcome cs rs d d' \<Longrightarrow> length rs = length cs"
  using pipe_pass_length by (auto simp: pipe_outcome_def)

text \<open>
  What the executions of a call keep: a reflexive and transitive relation between databases that each
  of its commands satisfies.
\<close>

lemma star_keeps:
  assumes "r\<^sup>*\<^sup>* d d'" "\<And>x. P x x" "\<And>x y z. P x y \<Longrightarrow> P y z \<Longrightarrow> P x z" "\<And>x y. r x y \<Longrightarrow> P x y"
  shows "P d d'"
  using assms(1)
proof (induction rule: rtranclp_induct)
  case base
  then show ?case by (rule assms(2))
next
  case (step y z)
  then show ?case using assms(3,4) by blast
qed

lemma cmd_pass_keeps:
  assumes "cmd_pass c r d d'" "P d d" "\<And>y. applied c d y \<Longrightarrow> P d y"
  shows "P d d'"
  using assms by (cases r) (auto simp: cmd_pass_def applied_def)

lemma cmd_outcome_keeps:
  assumes "cmd_outcome c r d d'" "\<And>x. P x x" "\<And>x y z. P x y \<Longrightarrow> P y z \<Longrightarrow> P x z" "\<And>x y. applied c x y \<Longrightarrow> P x y"
  shows "P d d'"
proof -
  from assms(1) obtain d1 where "(applied c)\<^sup>*\<^sup>* d d1" "cmd_pass c r d1 d'"
    by (cases r) (auto simp: cmd_outcome_def cmd_pass_def)
  then show ?thesis
    using star_keeps [of "applied c" d d1 P] cmd_pass_keeps [of c r d1 d' P] assms(2-4) by blast
qed

lemma pipe_pass_keeps:
  assumes "pipe_pass cs rs d d'" "\<And>x. P x x" "\<And>x y z. P x y \<Longrightarrow> P y z \<Longrightarrow> P x z"
    "\<And>c x y. c \<in> set cs \<Longrightarrow> applied c x y \<Longrightarrow> P x y"
  shows "P d d'"
  using assms(1,4)
proof (induction cs rs d d' rule: pipe_pass.induct)
  case (2 c cs r rs d d')
  then obtain d1 where o: "cmd_pass c r d d1" "pipe_pass cs rs d1 d'" by auto
  have "P d d1"
  proof (rule cmd_pass_keeps [OF o(1)])
    show "P d y" if "applied c d y" for y using 2(3) [of c] that by simp
  qed (rule assms(2))
  moreover have "P d1 d'"
  proof (rule 2(1) [OF o(2)])
    show "P x y" if "c' \<in> set cs" "applied c' x y" for c' x y using 2(3) [of c'] that by simp
  qed
  ultimately show ?case by (rule assms(3))
qed (use assms(2) in simp_all)

lemma pipe_outcome_last:
  assumes "pipe_outcome cs rs d d'" "\<And>x. P x x" "\<And>x y z. P x y \<Longrightarrow> P y z \<Longrightarrow> P x z"
    "\<And>c x y. c \<in> set cs \<Longrightarrow> applied c x y \<Longrightarrow> P x y"
  shows "\<exists>d1. P d d1 \<and> pipe_pass cs rs d1 d'"
proof -
  from assms(1) obtain d1 where d1: "(some_pass cs)\<^sup>*\<^sup>* d d1" "pipe_pass cs rs d1 d'" by (auto simp: pipe_outcome_def)
  have step: "P x y" if "some_pass cs x y" for x y
    using that pipe_pass_keeps [of cs _ x y P] assms(2-4) unfolding some_pass_def by blast
  have "P d d1" by (rule star_keeps [OF d1(1)]) (use assms(2,3) step in blast)+
  with d1(2) show ?thesis by blast
qed

lemma pipe_outcome_keeps:
  assumes "pipe_outcome cs rs d d'" "\<And>x. P x x" "\<And>x y z. P x y \<Longrightarrow> P y z \<Longrightarrow> P x z"
    "\<And>c x y. c \<in> set cs \<Longrightarrow> applied c x y \<Longrightarrow> P x y"
  shows "P d d'"
proof -
  have "\<exists>d1. P d d1 \<and> pipe_pass cs rs d1 d'" by (rule pipe_outcome_last [of cs rs d d' P]) (fact assms)+
  then obtain d1 where d1: "P d d1" "pipe_pass cs rs d1 d'" by blast
  have "P d1 d'" by (rule pipe_pass_keeps [of cs rs d1 d' P]) (fact d1 assms)+
  with d1(1) show ?thesis by (rule assms(3))
qed

text \<open>Repeating a command other than \<open>INCRBY\<close> changes nothing.\<close>

lemma applied_again: "\<forall>k n. c \<noteq> IncrBy k n \<Longrightarrow> applied c d d1 \<Longrightarrow> applied c d1 d2 \<Longrightarrow> d2 = d1"
  by (cases c) (auto simp: applied_def split: if_split_asm option.split_asm rvalue.split_asm)

lemma applied_star: "(applied c)\<^sup>*\<^sup>* d d1 \<Longrightarrow> \<forall>k n. c \<noteq> IncrBy k n \<Longrightarrow> d1 = d \<or> applied c d d1"
proof (induction rule: rtranclp_induct)
  case (step y z)
  then show ?case using applied_again [of c d y z] by blast
qed simp

lemma cmd_outcome_once:
  assumes "cmd_outcome c r d d'" "\<forall>k n. c \<noteq> IncrBy k n"
  shows "case r of Inr x \<Rightarrow> applied c d d' | Inl e \<Rightarrow> d' = d \<or> applied c d d'"
proof -
  from assms(1) obtain d1 where d1: "(applied c)\<^sup>*\<^sup>* d d1"
    "case r of Inr x \<Rightarrow> redis_effect c d1 = Some (d', x) | Inl e \<Rightarrow> d' = d1"
    by (auto simp: cmd_outcome_def)
  from applied_star [OF d1(1) assms(2)] have "d1 = d \<or> applied c d d1" .
  with d1(2) applied_again [OF assms(2), of d d1 d'] show ?thesis
    by (cases r) (auto simp: applied_def)
qed

text \<open>A command that only reads changes nothing and is answered from the database as it is.\<close>

lemma cmd_outcome_read:
  assumes "cmd_outcome c r d d'" "(\<exists>k. c = Get k) \<or> (\<exists>ks. c = MGet ks)"
  shows "d' = d \<and> (\<forall>x. r = Inr x \<longrightarrow> redis_effect c d = Some (d, x))"
proof -
  have ro: "applied c x y \<Longrightarrow> y = x" for x y
    using assms(2) by (auto simp: applied_def split: option.split_asm rvalue.split_asm)
  from assms(1) obtain d1 where d1: "(applied c)\<^sup>*\<^sup>* d d1"
    "case r of Inr x \<Rightarrow> redis_effect c d1 = Some (d', x) | Inl e \<Rightarrow> d' = d1"
    by (auto simp: cmd_outcome_def)
  from d1(1) have "d1 = d" by (rule star_keeps [of _ _ _ "\<lambda>x y. y = x"]) (use ro in auto)
  with d1(2) ro [of d d'] show ?thesis by (cases r) (auto simp: applied_def)
qed

lemma first_error_None: "first_error rs = None \<longleftrightarrow> (\<forall>r\<in>set rs. \<exists>x. r = Inr x)"
  by (induction rs rule: first_error.induct) auto

subsection \<open>What a command can change\<close>

primrec cmd_keys :: "cmd \<Rightarrow> string set" where
  "cmd_keys (SetNX k v ttl) = {k}"
| "cmd_keys (Get k) = {}"
| "cmd_keys (SetKey k v ttl) = {k}"
| "cmd_keys (IncrBy k n) = {k}"
| "cmd_keys (Expire k ttl) = {k}"
| "cmd_keys (Persist k) = {k}"
| "cmd_keys (MGet ks) = {}"

lemma redis_effect_frame: "redis_effect c d = Some (d', x) \<Longrightarrow> k \<notin> cmd_keys c \<Longrightarrow> d' k = d k"
  by (cases c) (auto simp: Let_def split: if_split_asm option.split_asm rvalue.split_asm)

lemma cmd_outcome_frame: "cmd_outcome c r d d' \<Longrightarrow> k \<notin> cmd_keys c \<Longrightarrow> d' k = d k"
  by (rule cmd_outcome_keeps [of c r d d' "\<lambda>x y. y k = x k"]) (auto simp: applied_def dest: redis_effect_frame)

lemma pipe_outcome_frame:
  "pipe_outcome cs rs d d' \<Longrightarrow> k \<notin> (\<Union>c\<in>set cs. cmd_keys c) \<Longrightarrow> d' k = d k"
  by (rule pipe_outcome_keeps [of cs rs d d' "\<lambda>x y. y k = x k"]) (auto simp: applied_def dest: redis_effect_frame)

text \<open>Expiry commands never touch a value.\<close>

definition only_expiry :: "cmd \<Rightarrow> bool" where
  "only_expiry c \<longleftrightarrow> (\<exists>k ttl. c = Expire k ttl) \<or> (\<exists>k. c = Persist k)"

lemma redis_effect_value:
  "redis_effect c d = Some (d', x) \<Longrightarrow> only_expiry c \<Longrightarrow> map_option e_val (d' k) = map_option e_val (d k)"
  by (auto simp: only_expiry_def split: option.split_asm)

lemma pipe_outcome_value:
  "pipe_outcome cs rs d d' \<Longrightarrow> \<forall>c\<in>set cs. only_expiry c \<Longrightarrow>
     map_option e_val (d' k) = map_option e_val (d k)"
  by (rule pipe_outcome_keeps [of cs rs d d' "\<lambda>x y. map_option e_val (y k) = map_option e_val (x k)"])
     (auto simp: applied_def dest: redis_effect_value)

lemma redis_int_itoa:
  "- (2 ^ 63) \<le> n \<Longrightarrow> n < 2 ^ 63 \<Longrightarrow> redis_int (SVal (itoa n)) = Some n"
  by (simp add: redis_int_def ParseInt_itoa)

lemma redis_int_itoa_sint [simp]: "redis_int (SVal (itoa (sint (n :: int64)))) = Some (sint n)"
  using int64_range [of n] by (rule redis_int_itoa)

lemma redis_int_range: "redis_int v = Some n \<Longrightarrow> - (2 ^ 63) \<le> n \<and> n < 2 ^ 63"
  by (auto simp: redis_int_def dest: ParseInt_range split: rvalue.split_asm sum.split_asm if_split_asm)

subsection \<open>A small server for the witnesses\<close>

text \<open>
  To show that the contract can be met, a server whose world is the database and a list of faults: each
  call takes the next one. \<open>Up\<close> answers, \<open>Lost\<close> drops the connection before the command arrives,
  \<open>LostReply\<close> after it was executed, \<open>Denied\<close> refuses the expiry commands of a pipeline, \<open>Repeated\<close> loses
  the first reply and answers the client's second attempt. With no fault left the server is up.
\<close>

datatype fault = Up | Lost | LostReply | Denied | Repeated

record server =
  sv_db :: db
  sv_faults :: "fault list"

definition broken_pipe :: goerr where "broken_pipe = ErrText ''write: broken pipe''"
definition no_perm :: goerr where "no_perm = ReplyErr ''NOPERM this user has no permissions''"

definition next_fault :: "server \<Rightarrow> fault" where
  "next_fault w = (case sv_faults w of [] \<Rightarrow> Up | f # _ \<Rightarrow> f)"

definition run_cmd :: "cmd \<Rightarrow> db \<Rightarrow> db \<times> (goerr + reply)" where
  "run_cmd c d = (case redis_effect c d of Some (d', x) \<Rightarrow> (d', Inr x)
                  | None \<Rightarrow> (d, Inl (ReplyErr ''ERR'')))"

definition deny_expiry :: "fault \<Rightarrow> cmd \<Rightarrow> db \<Rightarrow> db \<times> (goerr + reply)" where
  "deny_expiry f c d =
     (case c of
        Expire k ttl \<Rightarrow> if f = Denied then (d, Inl no_perm) else run_cmd c d
      | Persist k \<Rightarrow> if f = Denied then (d, Inl no_perm) else run_cmd c d
      | _ \<Rightarrow> run_cmd c d)"

primrec run_pipe :: "fault \<Rightarrow> cmd list \<Rightarrow> db \<Rightarrow> db \<times> (goerr + reply) list" where
  "run_pipe f [] d = (d, [])"
| "run_pipe f (c # cs) d =
     (case deny_expiry f c d of (d1, r) \<Rightarrow> (case run_pipe f cs d1 of (d2, rs) \<Rightarrow> (d2, r # rs)))"

definition sv_do :: "server \<Rightarrow> cmd \<Rightarrow> server \<times> (goerr + reply)" where
  "sv_do w c =
     (let w1 = w\<lparr>sv_faults := tl (sv_faults w)\<rparr>; f = next_fault w in
      if f = Lost then (w1, Inl broken_pipe)
      else (case deny_expiry f c (sv_db w) of (d, r) \<Rightarrow>
        if f = Repeated then (case deny_expiry f c d of (d2, r2) \<Rightarrow> (w1\<lparr>sv_db := d2\<rparr>, r2))
        else (w1\<lparr>sv_db := d\<rparr>, if f = LostReply then Inl broken_pipe else r)))"

definition sv_exec :: "server \<Rightarrow> cmd list \<Rightarrow> server \<times> goerr option \<times> (goerr + reply) list" where
  "sv_exec w cs =
     (let w1 = w\<lparr>sv_faults := tl (sv_faults w)\<rparr>; f = next_fault w in
      if f = Lost then
        (let rs = map (\<lambda>c. Inl broken_pipe) cs in (w1, first_error rs, rs))
      else (case run_pipe f cs (sv_db w) of (d, rs) \<Rightarrow>
        if f = Repeated then (case run_pipe f cs d of (d2, rs2) \<Rightarrow> (w1\<lparr>sv_db := d2\<rparr>, first_error rs2, rs2))
        else (let rs' = (if f = LostReply then map (\<lambda>c. Inl broken_pipe) cs else rs) in
         (w1\<lparr>sv_db := d\<rparr>, first_error rs', rs'))))"

definition server_client :: "server client" where
  "server_client = \<lparr>rdb_do = sv_do, rdb_exec = sv_exec\<rparr>"

lemma run_cmd_pass: "run_cmd c d = (d', r) \<Longrightarrow> cmd_pass c r d d'"
  by (auto simp: run_cmd_def cmd_pass_def split: option.split_asm prod.split_asm)

lemma deny_expiry_pass: "deny_expiry f c d = (d', r) \<Longrightarrow> cmd_pass c r d d'"
  by (cases c) (auto simp: deny_expiry_def dest!: run_cmd_pass split: if_split_asm, auto simp: cmd_pass_def)

lemma run_pipe_pass: "run_pipe f cs d = (d', rs) \<Longrightarrow> pipe_pass cs rs d d'"
proof (induction cs arbitrary: d rs)
  case (Cons c cs)
  then show ?case
    by (auto split: prod.split_asm dest!: deny_expiry_pass) blast
qed simp

text \<open>A pass whose replies are lost, and a repeated one.\<close>

lemma cmd_pass_lost: "cmd_pass c r d d' \<Longrightarrow> cmd_pass c (Inl e) d d'"
  by (auto simp: cmd_pass_def applied_def split: sum.split_asm)

lemma pipe_pass_lost: "pipe_pass cs rs d d' \<Longrightarrow> pipe_pass cs (map (\<lambda>c. Inl e) cs) d d'"
  by (induction cs rs d d' rule: pipe_pass.induct) (auto dest: cmd_pass_lost)

lemma pipe_pass_none: "pipe_pass cs (map (\<lambda>c. Inl e) cs) d d"
  by (induction cs) (auto simp: cmd_pass_def)

lemma cmd_outcome_pass: "cmd_pass c r d d' \<Longrightarrow> cmd_outcome c r d d'"
  by (cases r) (auto simp: cmd_outcome_def cmd_pass_def)

lemma cmd_outcome_repeated:
  assumes "cmd_pass c r d d1" "cmd_pass c r' d1 d2"
  shows "cmd_outcome c r' d d2"
proof -
  have "(applied c)\<^sup>*\<^sup>* d d1" using assms(1) by (cases r) (auto simp: cmd_pass_def applied_def)
  moreover have "case r' of Inr x \<Rightarrow> redis_effect c d1 = Some (d2, x) | Inl e \<Rightarrow> (applied c)\<^sup>*\<^sup>* d1 d2"
    using assms(2) by (cases r') (auto simp: cmd_pass_def)
  ultimately show ?thesis
    by (cases r') (auto simp: cmd_outcome_def intro: rtranclp_trans)
qed

lemma pipe_outcome_pass: "pipe_pass cs rs d d' \<Longrightarrow> pipe_outcome cs rs d d'"
  by (auto simp: pipe_outcome_def)

lemma pipe_outcome_repeated: "pipe_pass cs rs d d1 \<Longrightarrow> pipe_pass cs rs' d1 d2 \<Longrightarrow> pipe_outcome cs rs' d d2"
  using r_into_rtranclp [of "some_pass cs" d d1] by (auto simp: pipe_outcome_def some_pass_def [of cs d d1])

lemma server_contract: "redis_contract server_client sv_db"
  unfolding redis_contract_def
proof (intro conjI allI impI)
  fix w c w' r
  assume e: "rdb_do server_client w c = (w', r)"
  obtain d r' where d: "deny_expiry (next_fault w) c (sv_db w) = (d, r')" by fastforce
  obtain d2 r2 where d2: "deny_expiry (next_fault w) c d = (d2, r2)" by fastforce
  note p = deny_expiry_pass [OF d]
  have "cmd_pass c (Inl broken_pipe) (sv_db w) (sv_db w)" by (simp add: cmd_pass_def)
  with e d d2 cmd_outcome_pass [OF p] cmd_outcome_pass [OF cmd_pass_lost [OF p]]
    cmd_outcome_repeated [OF p deny_expiry_pass [OF d2]] cmd_outcome_pass
  show "cmd_outcome c r (sv_db w) (sv_db w')"
    by (auto simp: server_client_def sv_do_def Let_def split: if_split_asm)
next
  fix w cs w' err rs
  assume e: "rdb_exec server_client w cs = (w', err, rs)"
  obtain d rs' where d: "run_pipe (next_fault w) cs (sv_db w) = (d, rs')" by fastforce
  obtain d2 rs2 where d2: "run_pipe (next_fault w) cs d = (d2, rs2)" by fastforce
  note p = run_pipe_pass [OF d]
  from e d d2 pipe_outcome_pass [OF p] pipe_outcome_pass [OF pipe_pass_lost [OF p]]
    pipe_outcome_repeated [OF p run_pipe_pass [OF d2]] pipe_outcome_pass [OF pipe_pass_none]
  show "pipe_outcome cs rs (sv_db w) (sv_db w')"
    by (auto simp: server_client_def sv_exec_def Let_def split: if_split_asm)
  from e d d2 show "err = first_error rs"
    by (auto simp: server_client_def sv_exec_def Let_def split: if_split_asm)
qed

text \<open>A client for which even the failures are clean: only \<open>Up\<close> and \<open>Lost\<close> occur.\<close>

definition clean_fault :: "fault \<Rightarrow> fault" where
  "clean_fault f = (if f = Up then Up else Lost)"

definition scrub :: "server \<Rightarrow> server" where
  "scrub w = w\<lparr>sv_faults := map clean_fault (sv_faults w)\<rparr>"

text \<open>A refused command in an otherwise healthy pipeline would break atomicity: refuse it all.\<close>

definition clean_exec :: "server \<Rightarrow> cmd list \<Rightarrow> server \<times> goerr option \<times> (goerr + reply) list" where
  "clean_exec w cs = (case sv_exec (scrub w) cs of (w', err, rs) \<Rightarrow>
     if err = None then (w', err, rs)
     else (let rs' = map (\<lambda>c. Inl broken_pipe) cs in
           (w'\<lparr>sv_db := sv_db w\<rparr>, first_error rs', rs')))"

definition clean_client :: "server client" where
  "clean_client = \<lparr>rdb_do = (\<lambda>w. sv_do (scrub w)), rdb_exec = clean_exec\<rparr>"

lemma sv_do_healthy:
  assumes "sv_do w c = (w', r)" "next_fault w \<in> {Up, Lost}"
  shows "case r of Inr x \<Rightarrow> redis_effect c (sv_db w) = Some (sv_db w', x) | Inl e \<Rightarrow> sv_db w' = sv_db w"
  using assms
  by (cases c)
     (auto simp: sv_do_def Let_def deny_expiry_def run_cmd_def simp del: redis_effect.simps
       split: if_split_asm option.split_asm prod.split_asm)

lemma scrub_facts [simp]: "sv_db (scrub w) = sv_db w" "next_fault (scrub w) \<in> {Up, Lost}"
  by (auto simp: scrub_def next_fault_def clean_fault_def split: list.split if_split_asm)

lemma clean_exec_outcome:
  assumes "clean_exec w cs = (w', err, rs)"
  shows "pipe_pass cs rs (sv_db w) (sv_db w')" "err = first_error rs" "err \<noteq> None \<Longrightarrow> sv_db w' = sv_db w"
proof -
  obtain w1 e1 r1 where x: "sv_exec (scrub w) cs = (w1, e1, r1)" by (cases "sv_exec (scrub w) cs") auto
  obtain d r where d: "run_pipe (next_fault (scrub w)) cs (sv_db w) = (d, r)" by fastforce
  have f: "next_fault (scrub w) \<noteq> Repeated" "next_fault (scrub w) \<noteq> LostReply" using scrub_facts(2) [of w] by auto
  from x d f have c: "pipe_pass cs r1 (sv_db w) (sv_db w1)" "e1 = first_error r1"
    using run_pipe_pass [OF d] pipe_pass_none [of cs broken_pipe "sv_db w"]
    by (auto simp: sv_exec_def Let_def split: if_split_asm)
  show "pipe_pass cs rs (sv_db w) (sv_db w')" "err = first_error rs" "err \<noteq> None \<Longrightarrow> sv_db w' = sv_db w"
    using assms c pipe_pass_none [of cs broken_pipe "sv_db w"]
    by (auto simp: clean_exec_def x Let_def split: if_split_asm)
qed

text \<open>With no faults ahead every single command has its documented effect.\<close>

lemma server_up:
  "rdb_do server_client \<lparr>sv_db = d, sv_faults = []\<rparr> c =
     (case redis_effect c d of
        Some (d', x) \<Rightarrow> (\<lparr>sv_db = d', sv_faults = []\<rparr>, Inr x)
      | None \<Rightarrow> (\<lparr>sv_db = d, sv_faults = []\<rparr>, Inl (ReplyErr ''ERR'')))"
  by (cases c)
     (simp_all add: server_client_def sv_do_def next_fault_def deny_expiry_def run_cmd_def Let_def
       split: option.split)

lemma clean_client_contract: "redis_contract clean_client sv_db" "clean_failures clean_client sv_db"
proof -
  have d: "case r of Inr x \<Rightarrow> redis_effect c (sv_db w) = Some (sv_db w', x) | Inl e \<Rightarrow> sv_db w' = sv_db w"
    if "rdb_do clean_client w c = (w', r)" for w c w' r
    using sv_do_healthy [OF _ scrub_facts(2), of w c w' r] that by (cases r) (simp_all add: clean_client_def)
  have x: "pipe_pass cs rs (sv_db w) (sv_db w')" "err = first_error rs" "err \<noteq> None \<Longrightarrow> sv_db w' = sv_db w"
    if "rdb_exec clean_client w cs = (w', err, rs)" for w cs w' err rs
    using clean_exec_outcome [of w cs w' err rs] that by (simp_all add: clean_client_def)
  have "cmd_pass c r (sv_db w) (sv_db w')" if "rdb_do clean_client w c = (w', r)" for w c w' r
    using d [OF that] by (simp add: cmd_pass_def split: sum.split_asm)
  then show "redis_contract clean_client sv_db"
    unfolding redis_contract_def using x by (blast intro: cmd_outcome_pass pipe_outcome_pass)
  show "clean_failures clean_client sv_db"
    unfolding clean_failures_def using d x(1) x(3) by (simp add: split_paired_all same_values_def)
qed

text \<open>A repeated increment: the client reports success, and the server has counted it twice.\<close>

lemma repeated_increment:
  "case rdb_do server_client \<lparr>sv_db = Map.empty, sv_faults = [Repeated]\<rparr> (IncrBy ''k'' 5) of
     (w, r) \<Rightarrow> r = Inr (RInt 10) \<and> sv_db w ''k'' = Some \<lparr>e_val = SVal ''10'', e_exp = None\<rparr>"
  by code_simp

end
