(* ===== verification/Store.thy ===== *)
theory Store
  imports Redis Config
begin

section \<open>The Redis key schema and the operations on it (internal/store)\<close>

text \<open>
  \<open>store\<close> is the struct \<open>Store\<close> without the client, which every operation takes as its first
  argument; an operation also takes the world and returns it. A method that returns \<open>error\<close> returns
  \<open>goerr option\<close>, one that returns a value or an error a sum.

  The contract towards the daemon is the locale \<open>counter_store\<close>: which operation changes the value of
  which counter, when it succeeds and when it fails. The contract of the keys is \<open>key_schema\<close>. Both
  are interpreted here, on the operations below.
\<close>

record store =
  s_host :: string
  s_heartbeat :: bool
  s_ttl :: int64

subsection \<open>Keys and values\<close>

definition KeyPrefix :: string where "KeyPrefix = ''logstat:''"

definition CounterKey :: "string \<Rightarrow> string \<Rightarrow> string" where
  "CounterKey host action = KeyPrefix @ ''counter:'' @ host @ '':'' @ action"

definition HeartbeatKey :: "string \<Rightarrow> string \<Rightarrow> string" where
  "HeartbeatKey host action = KeyPrefix @ ''heartbeat:'' @ host @ '':'' @ action"

definition FormatHeartbeat :: "string \<Rightarrow> gotime \<Rightarrow> string \<Rightarrow> int64 \<Rightarrow> string" where
  "FormatHeartbeat host ts action n =
     ''server='' @ host @ '' time='' @ RFC3339 ts @ '' type='' @ action @ '' lines='' @ itoa (sint n)"

definition ShortHostname :: "'w os \<Rightarrow> 'w \<Rightarrow> string" where
  "ShortHostname os w =
     (case os_hostname os w of
        Inl err \<Rightarrow> ''unknown''
      | Inr h \<Rightarrow>
          if h = [] then ''unknown''
          else (case IndexByte h CHR ''.'' of
                  Some i \<Rightarrow> if 0 < i then take i h else h
                | None \<Rightarrow> h))"

definition IsUnavailable :: "goerr option \<Rightarrow> bool" where
  "IsUnavailable err = (case err of
       None \<Rightarrow> False
     | Some e \<Rightarrow> if errors_Is e ErrMalformedValue then False else \<not> errors_As_reply e)"

subsection \<open>Operations\<close>

definition Store_New :: "redis_config \<Rightarrow> string \<Rightarrow> bool \<Rightarrow> store" where
  "Store_New cfg host heartbeat = \<lparr>s_host = host, s_heartbeat = heartbeat, s_ttl = TTLDuration cfg\<rparr>"

definition keys :: "store \<Rightarrow> string \<Rightarrow> string list" where
  "keys s action =
     (if \<not> s_heartbeat s then [CounterKey (s_host s) action]
      else [CounterKey (s_host s) action, HeartbeatKey (s_host s) action])"

text \<open>The typed accessors of go-redis: \<open>Err\<close>, \<open>Int64\<close> of a string reply, \<open>Result\<close> of an integer
  and of a list reply. A reply of another type is an error.\<close>

definition unexpected :: goerr where "unexpected = ErrText ''redis: unexpected reply type''"

definition reply_err :: "goerr + reply \<Rightarrow> goerr option" where
  "reply_err r = (case r of Inl e \<Rightarrow> Some e | Inr _ \<Rightarrow> None)"

definition reply_parse_int :: "goerr + reply \<Rightarrow> goerr + int64" where
  "reply_parse_int r = (case r of
       Inl e \<Rightarrow> Inl e
     | Inr (RStr v) \<Rightarrow> (case ParseInt v of Inl e \<Rightarrow> Inl (NumErr ''ParseInt'' v e) | Inr n \<Rightarrow> Inr (word_of_int n))
     | Inr _ \<Rightarrow> Inl unexpected)"

definition reply_int :: "goerr + reply \<Rightarrow> goerr + int64" where
  "reply_int r = (case r of Inl e \<Rightarrow> Inl e | Inr (RInt n) \<Rightarrow> Inr n | Inr _ \<Rightarrow> Inl unexpected)"

definition reply_values :: "goerr + reply \<Rightarrow> goerr + mvalue list" where
  "reply_values r = (case r of Inl e \<Rightarrow> Inl e | Inr (RVals vs) \<Rightarrow> Inr vs | Inr _ \<Rightarrow> Inl unexpected)"

fun Init :: "'w client \<Rightarrow> store \<Rightarrow> 'w \<Rightarrow> string list \<Rightarrow> gotime \<Rightarrow> 'w \<times> goerr option" where
  "Init cl s w [] ts = (w, None)"
| "Init cl s w (a # as) ts =
     (case rdb_do cl w (SetNX (CounterKey (s_host s) a) ''0'' (s_ttl s)) of (w1, r1) \<Rightarrow>
      (case reply_err r1 of
         Some err \<Rightarrow> (w1, Some (Errorf ''init counter for %q: %w'' [AS a] (Some err)))
       | None \<Rightarrow>
         if \<not> s_heartbeat s then Init cl s w1 as ts
         else
          (case rdb_do cl w1 (Get (CounterKey (s_host s) a)) of (w2, r2) \<Rightarrow>
           (case reply_parse_int r2 of
              Inl err \<Rightarrow> (w2, Some (Errorf ''init counter for %q: %w'' [AS a] (Some err)))
            | Inr n \<Rightarrow>
              (case rdb_do cl w2 (SetNX (HeartbeatKey (s_host s) a)
                       (FormatHeartbeat (s_host s) ts a n) (s_ttl s)) of (w3, r3) \<Rightarrow>
               (case reply_err r3 of
                  Some err \<Rightarrow> (w3, Some (Errorf ''init heartbeat for %q: %w'' [AS a] (Some err)))
                | None \<Rightarrow> Init cl s w3 as ts))))))"

definition touch_cmd :: "store \<Rightarrow> string \<Rightarrow> cmd" where
  "touch_cmd s k = (if 0 <s s_ttl s then Expire k (s_ttl s) else Persist k)"

definition Touch :: "'w client \<Rightarrow> store \<Rightarrow> 'w \<Rightarrow> string list \<Rightarrow> 'w \<times> goerr option" where
  "Touch cl s w as =
     (if as = [] then (w, None)
      else (let pipe = concat (map (\<lambda>a. map (touch_cmd s) (keys s a)) as) in
            case rdb_exec cl w pipe of
              (w', Some err, _) \<Rightarrow> (w', Some (Errorf ''refresh ttl: %w'' [] (Some err)))
            | (w', None, _) \<Rightarrow> (w', None)))"

definition Incr :: "'w client \<Rightarrow> store \<Rightarrow> 'w \<Rightarrow> string \<Rightarrow> int64 \<Rightarrow> 'w \<times> (goerr + int64)" where
  "Incr cl s w a delta =
     (let key = CounterKey (s_host s) a in
      if s_ttl s \<le>s 0 then
        (case rdb_do cl w (IncrBy key delta) of (w', r) \<Rightarrow>
           (case reply_int r of
              Inl err \<Rightarrow> (w', Inl (Errorf ''incrby %q: %w'' [AS a] (Some err)))
            | Inr n \<Rightarrow> (w', Inr n)))
      else
        (case rdb_exec cl w [IncrBy key delta, Expire key (s_ttl s)] of
           (w', Some err, _) \<Rightarrow> (w', Inl (Errorf ''incrby %q: %w'' [AS a] (Some err)))
         | (w', None, [incr, expire]) \<Rightarrow>
             (case reply_int incr of
                Inl err \<Rightarrow> (w', Inl (Errorf ''incrby %q: %w'' [AS a] (Some err)))
              | Inr n \<Rightarrow>
                  (case reply_err expire of
                     Some err \<Rightarrow> (w', Inl (Errorf ''expire %q: %w'' [AS a] (Some err)))
                   | None \<Rightarrow> (w', Inr n)))
         | (w', None, _) \<Rightarrow> (w', Inl unexpected)))"

definition SetHeartbeat :: "'w client \<Rightarrow> store \<Rightarrow> 'w \<Rightarrow> string \<Rightarrow> int64 \<Rightarrow> gotime \<Rightarrow> 'w \<times> goerr option" where
  "SetHeartbeat cl s w a n ts =
     (if \<not> s_heartbeat s then (w, None)
      else (case rdb_do cl w (SetKey (HeartbeatKey (s_host s) a) (FormatHeartbeat (s_host s) ts a n) (s_ttl s)) of
              (w', r) \<Rightarrow>
                (case reply_err r of
                   Some err \<Rightarrow> (w', Some (Errorf ''set heartbeat %q: %w'' [AS a] (Some err)))
                 | None \<Rightarrow> (w', None))))"

definition Store_Reset :: "'w client \<Rightarrow> store \<Rightarrow> 'w \<Rightarrow> string \<Rightarrow> gotime \<Rightarrow> 'w \<times> goerr option" where
  "Store_Reset cl s w a ts =
     (case rdb_do cl w (SetKey (CounterKey (s_host s) a) ''0'' (s_ttl s)) of (w', r) \<Rightarrow>
        (case reply_err r of
           Some err \<Rightarrow> (w', Some (Errorf ''reset counter %q: %w'' [AS a] (Some err)))
         | None \<Rightarrow> SetHeartbeat cl s w' a 0 ts))"

text \<open>The loop of \<open>Counters\<close> over \<open>actions\<close> and \<open>values\<close>, with \<open>out\<close> and \<open>malformed\<close>.\<close>

fun counters_loop ::
  "string list \<Rightarrow> mvalue list \<Rightarrow> int64 gomap \<Rightarrow> string list \<Rightarrow> int64 gomap \<times> string list" where
  "counters_loop (a # as) (v # vs) out malformed =
     (case v of
        VNil \<Rightarrow> counters_loop as vs out malformed
      | VOther \<Rightarrow> counters_loop as vs out (malformed @ [a])
      | VStr raw \<Rightarrow>
          (case ParseInt raw of
             Inl _ \<Rightarrow> counters_loop as vs out (malformed @ [a])
           | Inr n \<Rightarrow> counters_loop as vs (AList.update a (word_of_int n) out) malformed))"
| "counters_loop as vs out malformed = (out, malformed)"

definition Counters :: "'w client \<Rightarrow> store \<Rightarrow> 'w \<Rightarrow> string list \<Rightarrow> 'w \<times> int64 gomap \<times> goerr option" where
  "Counters cl s w as =
     (if as = [] then (w, [], None)
      else (case rdb_do cl w (MGet (map (CounterKey (s_host s)) as)) of (w', r) \<Rightarrow>
        (case reply_values r of
           Inl err \<Rightarrow> (w', [], Some (Errorf ''read counters: %w'' [] (Some err)))
         | Inr values \<Rightarrow>
             if length values \<noteq> length as then
               (w', [], Some (fail ''read counters: got %d values for %d keys''
                                [AI (int (length values)), AI (int (length as))]))
             else (case counters_loop as values [] [] of (out, malformed) \<Rightarrow>
                     if malformed \<noteq> [] then
                       (w', out, Some (Errorf ''read counters of %s: %w'' [AS (join '', '' malformed)]
                                         (Some (Sentinel ErrMalformedValue))))
                     else (w', out, None)))))"

subsection \<open>The key schema\<close>

text \<open>What every reader and writer of the database relies on: a key belongs to one word and one purpose.\<close>

locale key_schema =
  fixes ckey :: "string \<Rightarrow> string" and hkey :: "string \<Rightarrow> string"
  assumes ckey_inj: "ckey a = ckey b \<Longrightarrow> a = b"
    and hkey_inj: "hkey a = hkey b \<Longrightarrow> a = b"
    and disjoint: "ckey a \<noteq> hkey b"
begin

lemma ckey_eq [simp]: "ckey a = ckey b \<longleftrightarrow> a = b"
  using ckey_inj by blast

lemma hkey_eq [simp]: "hkey a = hkey b \<longleftrightarrow> a = b"
  using hkey_inj by blast

lemmas keys_disjoint [simp] = disjoint disjoint [symmetric]

text \<open>Writing the counter of one word is invisible at every other key.\<close>

lemma update_counter_frame:
  "(d(ckey a \<mapsto> e)) (hkey b) = d (hkey b)" "b \<noteq> a \<Longrightarrow> (d(ckey a \<mapsto> e)) (ckey b) = d (ckey b)"
  by simp_all

lemma update_heartbeat_frame:
  "(d(hkey a \<mapsto> e)) (ckey b) = d (ckey b)" "b \<noteq> a \<Longrightarrow> (d(hkey a \<mapsto> e)) (hkey b) = d (hkey b)"
  by simp_all

end

interpretation ks: key_schema "CounterKey host" "HeartbeatKey host" for host
  by unfold_locales (simp_all add: CounterKey_def HeartbeatKey_def KeyPrefix_def)

subsection \<open>The value of a counter\<close>

definition counter_value :: "string \<Rightarrow> db \<Rightarrow> string \<Rightarrow> int" where
  "counter_value host d a =
     (case d (CounterKey host a) of None \<Rightarrow> 0
      | Some e \<Rightarrow> (case redis_int (e_val e) of None \<Rightarrow> 0 | Some n \<Rightarrow> n))"

lemma counter_value_cong:
  "map_option e_val (d' (CounterKey host a)) = map_option e_val (d (CounterKey host a)) \<Longrightarrow>
     counter_value host d' a = counter_value host d a"
  by (cases "d (CounterKey host a)"; cases "d' (CounterKey host a)") (auto simp: counter_value_def)

lemma counter_value_same: "d' (CounterKey host a) = d (CounterKey host a) \<Longrightarrow>
    counter_value host d' a = counter_value host d a"
  by (simp add: counter_value_def)

lemma counter_value_range: "- (2 ^ 63) \<le> counter_value host d a \<and> counter_value host d a < 2 ^ 63"
  using redis_int_range by (auto simp: counter_value_def split: option.split)

lemma redis_int_zero: "redis_int (SVal ''0'') = Some 0"
  by code_simp

text \<open>The effect of the commands on the value of a counter.\<close>

lemma IncrBy_value:
  assumes "redis_effect (IncrBy (CounterKey host a) n) d = Some (d', x)"
  shows "counter_value host d' a = counter_value host d a + sint n" "\<exists>m. x = RInt m \<and> sint m = counter_value host d' a"
proof -
  have "counter_value host d' a = counter_value host d a + sint n \<and>
      (\<exists>m. x = RInt m \<and> sint m = counter_value host d' a)"
  proof (cases "d (CounterKey host a)")
    case None
    then show ?thesis using assms by (auto simp: counter_value_def)
  next
    case (Some e)
    then obtain old where old: "redis_int (e_val e) = Some old"
      using assms by (auto split: option.split_asm)
    define new where "new = old + sint n"
    have r: "- (2 ^ 63) \<le> new" "new < 2 ^ 63"
      and d': "d' = d(CounterKey host a \<mapsto> e\<lparr>e_val := SVal (itoa new)\<rparr>)" and x: "x = RInt (word_of_int new)"
      using assms Some old by (auto simp: new_def Let_def not_less not_le split: if_split_asm)
    have "counter_value host d' a = new" "counter_value host d a = old"
      using Some old r by (simp_all add: d' counter_value_def redis_int_itoa)
    moreover have "sint (word_of_int new :: int64) = new" using r by (rule sint_of_int64)
    ultimately show ?thesis by (simp only: x new_def) blast
  qed
  then show "counter_value host d' a = counter_value host d a + sint n"
    "\<exists>m. x = RInt m \<and> sint m = counter_value host d' a" by blast+
qed

text \<open>\<open>added k n x y\<close>: \<open>n\<close> was added \<open>k\<close> times.\<close>

definition added :: "nat \<Rightarrow> int64 \<Rightarrow> int \<Rightarrow> int \<Rightarrow> bool" where
  "added k n x y \<longleftrightarrow> y = x + int k * sint n"

lemma added_0 [simp]: "added 0 n x y \<longleftrightarrow> y = x"
  by (simp add: added_def)

lemma added_1 [simp]: "added (Suc 0) n x y \<longleftrightarrow> y = x + sint n"
  by (simp add: added_def)

lemma added_trans: "added j n x y \<Longrightarrow> added k n y z \<Longrightarrow> added (j + k) n x z"
  by (simp add: added_def algebra_simps)

lemma IncrBy_applied:
  "applied (IncrBy (CounterKey host a) n) d d' \<Longrightarrow> added 1 n (counter_value host d a) (counter_value host d' a)"
  by (auto simp: applied_def added_def simp del: redis_effect.simps dest: IncrBy_value(1))

lemma IncrBy_star:
  "(applied (IncrBy (CounterKey host a) n))\<^sup>*\<^sup>* d d' \<Longrightarrow> \<exists>k. added k n (counter_value host d a) (counter_value host d' a)"
  by (erule star_keeps) (blast intro: added_0 [THEN iffD2] added_trans IncrBy_applied)+

lemma cmd_outcome_IncrBy:
  assumes "cmd_outcome (IncrBy (CounterKey host a) n) r d d'"
  shows "\<exists>k. added k n (counter_value host d a) (counter_value host d' a) \<and>
    (\<forall>x. r = Inr x \<longrightarrow> 1 \<le> k \<and> (\<exists>m. x = RInt m \<and> sint m = counter_value host d' a))"
proof -
  from assms obtain d1 where d1: "(applied (IncrBy (CounterKey host a) n))\<^sup>*\<^sup>* d d1"
    "case r of Inr x \<Rightarrow> redis_effect (IncrBy (CounterKey host a) n) d1 = Some (d', x) | Inl e \<Rightarrow> d' = d1"
    by (auto simp: cmd_outcome_def)
  from IncrBy_star [OF d1(1)] obtain k where k: "added k n (counter_value host d a) (counter_value host d1 a)" ..
  show ?thesis
  proof (cases r)
    case (Inl e)
    with d1(2) k show ?thesis by auto
  next
    case (Inr x)
    with d1(2) have e: "redis_effect (IncrBy (CounterKey host a) n) d1 = Some (d', x)" by simp
    from k have "added (k + 1) n (counter_value host d a) (counter_value host d' a)"
      by (rule added_trans) (simp add: IncrBy_value(1) [OF e])
    with Inr IncrBy_value(2) [OF e] show ?thesis by (intro exI [of _ "k + 1"]) simp
  qed
qed

lemma SetNX_value:
  "applied (SetNX (CounterKey host a) ''0'' ttl) d d' \<Longrightarrow> counter_value host d' b = counter_value host d b"
  by (auto simp: applied_def counter_value_def set_entry_def redis_int_zero split: if_split_asm option.split)

lemma cmd_outcome_SetNX:
  "cmd_outcome (SetNX (CounterKey host a) ''0'' ttl) r d d' \<Longrightarrow> counter_value host d' b = counter_value host d b"
  by (erule cmd_outcome_keeps) (auto dest: SetNX_value)

lemma cmd_outcome_SetZero:
  assumes "cmd_outcome (SetKey (CounterKey host a) ''0'' ttl) r d d'"
  shows "case r of Inr x \<Rightarrow> counter_value host d' a = 0
    | Inl e \<Rightarrow> counter_value host d' a \<in> {counter_value host d a, 0}"
  using cmd_outcome_once [OF assms]
  by (auto simp: applied_def counter_value_def set_entry_def redis_int_zero split: sum.split sum.split_asm)

lemma cmd_outcome_other_counter:
  "cmd_outcome c r d d' \<Longrightarrow> CounterKey host b \<notin> cmd_keys c \<Longrightarrow> counter_value host d' b = counter_value host d b"
  by (rule counter_value_same) (rule cmd_outcome_frame)

lemma pipe_outcome_other_counter:
  "pipe_outcome cs rs d d' \<Longrightarrow> CounterKey host b \<notin> (\<Union>c\<in>set cs. cmd_keys c) \<Longrightarrow>
     counter_value host d' b = counter_value host d b"
  by (rule counter_value_same) (rule pipe_outcome_frame)

subsection \<open>The contract of the store\<close>

text \<open>
  The operations as the daemon uses them. \<open>val e s w a\<close> is the value of the counter of \<open>a\<close> in the
  world \<open>w\<close>; \<open>good e\<close> says that the environment keeps its contract, under which an increment may be
  applied several times, \<open>clean e\<close> that in addition it is applied once if it succeeds and not at all if it
  reports an error.
\<close>

locale counter_store =
  fixes good clean :: "'e \<Rightarrow> bool"
    and val :: "'e \<Rightarrow> 's \<Rightarrow> 'w \<Rightarrow> string \<Rightarrow> int"
    and init :: "'e \<Rightarrow> 's \<Rightarrow> 'w \<Rightarrow> string list \<Rightarrow> 't \<Rightarrow> 'w \<times> goerr option"
    and touch :: "'e \<Rightarrow> 's \<Rightarrow> 'w \<Rightarrow> string list \<Rightarrow> 'w \<times> goerr option"
    and incr :: "'e \<Rightarrow> 's \<Rightarrow> 'w \<Rightarrow> string \<Rightarrow> int64 \<Rightarrow> 'w \<times> (goerr + int64)"
    and heartbeat :: "'e \<Rightarrow> 's \<Rightarrow> 'w \<Rightarrow> string \<Rightarrow> int64 \<Rightarrow> 't \<Rightarrow> 'w \<times> goerr option"
    and reset :: "'e \<Rightarrow> 's \<Rightarrow> 'w \<Rightarrow> string \<Rightarrow> 't \<Rightarrow> 'w \<times> goerr option"
  assumes init_val: "good e \<Longrightarrow> init e s w as ts = (w', r) \<Longrightarrow> val e s w' b = val e s w b"
    and touch_val: "good e \<Longrightarrow> touch e s w as = (w', r) \<Longrightarrow> val e s w' b = val e s w b"
    and heartbeat_val: "good e \<Longrightarrow> heartbeat e s w a n ts = (w', r) \<Longrightarrow> val e s w' b = val e s w b"
    and incr_ok: "good e \<Longrightarrow> incr e s w a d = (w', Inr n) \<Longrightarrow>
      (\<exists>k. 1 \<le> k \<and> added k d (val e s w a) (val e s w' a)) \<and> sint n = val e s w' a"
    and incr_err: "good e \<Longrightarrow> incr e s w a d = (w', Inl err) \<Longrightarrow> \<exists>k. added k d (val e s w a) (val e s w' a)"
    and incr_clean: "good e \<Longrightarrow> clean e \<Longrightarrow> incr e s w a d = (w', ri) \<Longrightarrow>
      added (case ri of Inl _ \<Rightarrow> 0 | Inr _ \<Rightarrow> 1) d (val e s w a) (val e s w' a)"
    and incr_other: "good e \<Longrightarrow> incr e s w a d = (w', ri) \<Longrightarrow> b \<noteq> a \<Longrightarrow> val e s w' b = val e s w b"
    and reset_ok: "good e \<Longrightarrow> reset e s w a ts = (w', None) \<Longrightarrow> val e s w' a = 0"
    and reset_err: "good e \<Longrightarrow> reset e s w a ts = (w', Some err) \<Longrightarrow> val e s w' a \<in> {val e s w a, 0}"
    and reset_other: "good e \<Longrightarrow> reset e s w a ts = (w', r) \<Longrightarrow> b \<noteq> a \<Longrightarrow> val e s w' b = val e s w b"
begin

text \<open>What is still owed after an attempt to write \<open>d\<close> is nothing on success and all of it on failure.\<close>

text \<open>With clean failures nothing is lost and nothing is counted twice.\<close>

lemma incr_exact:
  assumes "good e" "clean e" "incr e s w a d = (w', r)"
  shows "val e s w' a + (case r of Inl _ \<Rightarrow> sint d | Inr _ \<Rightarrow> 0) = val e s w a + sint d"
  using incr_clean [OF assms] by (cases r) simp_all

text \<open>Without that assumption nothing is lost.\<close>

lemma incr_at_least:
  assumes "good e" "0 \<le> sint d" "incr e s w a d = (w', r)"
  shows "val e s w a + sint d \<le> val e s w' a + (case r of Inl _ \<Rightarrow> sint d | Inr _ \<Rightarrow> 0)"
proof (cases r)
  case (Inl err)
  with assms incr_err obtain k where "added k d (val e s w a) (val e s w' a)" by blast
  with Inl assms(2) show ?thesis by (simp add: added_def)
next
  case (Inr n)
  with assms incr_ok obtain k where k: "1 \<le> k" "added k d (val e s w a) (val e s w' a)" by blast
  have "1 * sint d \<le> int k * sint d" using k(1) assms(2) by (intro mult_right_mono) simp_all
  with k(2) Inr show ?thesis by (simp add: added_def)
qed

end

subsection \<open>The store keeps the contract\<close>

type_synonym 'w redis_env = "'w client \<times> ('w \<Rightarrow> db)"

definition env_good :: "'w redis_env \<Rightarrow> bool" where
  "env_good e \<longleftrightarrow> redis_contract (fst e) (snd e)"

definition env_clean :: "'w redis_env \<Rightarrow> bool" where
  "env_clean e \<longleftrightarrow> clean_failures (fst e) (snd e)"

definition env_val :: "'w redis_env \<Rightarrow> store \<Rightarrow> 'w \<Rightarrow> string \<Rightarrow> int" where
  "env_val e s w a = counter_value (s_host s) (snd e w) a"

lemma reply_int_Inr: "reply_int r = Inr n \<longleftrightarrow> r = Inr (RInt n)"
  by (auto simp: reply_int_def split: sum.split_asm reply.split_asm)

lemma reply_err_None: "reply_err r = None \<longleftrightarrow> (\<exists>x. r = Inr x)"
  by (auto simp: reply_err_def split: sum.split_asm)

lemma SetHeartbeat_val:
  assumes "redis_contract cl view" "SetHeartbeat cl s w a n ts = (w', r)"
  shows "counter_value (s_host s) (view w') b = counter_value (s_host s) (view w) b"
proof (cases "s_heartbeat s")
  case True
  then obtain rr where
    "rdb_do cl w (SetKey (HeartbeatKey (s_host s) a) (FormatHeartbeat (s_host s) ts a n) (s_ttl s)) = (w', rr)"
    using assms(2) by (auto simp: SetHeartbeat_def split: prod.split_asm option.split_asm)
  then show ?thesis
    using redis_contractD(1) [OF assms(1)] by (fastforce intro: cmd_outcome_other_counter)
qed (use assms(2) in \<open>simp add: SetHeartbeat_def\<close>)

lemma Init_val:
  assumes "redis_contract cl view" "Init cl s w as ts = (w', r)"
  shows "counter_value (s_host s) (view w') b = counter_value (s_host s) (view w) b"
  using assms(2)
proof (induction as arbitrary: w)
  case (Cons a as)
  note oc = redis_contractD(1) [OF assms(1)]
  obtain w1 r1 where 1: "rdb_do cl w (SetNX (CounterKey (s_host s) a) ''0'' (s_ttl s)) = (w1, r1)" by fastforce
  obtain w2 r2 where 2: "rdb_do cl w1 (Get (CounterKey (s_host s) a)) = (w2, r2)" by fastforce
  have v1: "counter_value (s_host s) (view w1) b = counter_value (s_host s) (view w) b"
    using cmd_outcome_SetNX [OF oc [OF 1]] by simp
  have v2: "counter_value (s_host s) (view w2) b = counter_value (s_host s) (view w1) b"
    using oc [OF 2] by (rule cmd_outcome_other_counter) simp
  have v3: "counter_value (s_host s) (view w3) b = counter_value (s_host s) (view w2) b"
    if "rdb_do cl w2 (SetNX (HeartbeatKey (s_host s) a) x (s_ttl s)) = (w3, r3)" for w3 r3 x
    using oc [OF that] by (rule cmd_outcome_other_counter) simp
  show ?case
    using Cons v1 v2 v3 by (fastforce simp: 1 2 split: option.split_asm if_split_asm sum.split_asm prod.split_asm)
qed simp

lemma touch_cmd_facts:
  "only_expiry (touch_cmd s k)" "cmd_keys (touch_cmd s k) = {k}"
  by (auto simp: touch_cmd_def only_expiry_def)

lemma Touch_values:
  assumes "redis_contract cl view" "Touch cl s w as = (w', r)"
  shows "map_option e_val (view w' k) = map_option e_val (view w k)"
proof (cases "as = []")
  case False
  let ?pipe = "concat (map (\<lambda>a. map (touch_cmd s) (keys s a)) as)"
  obtain w1 err rs where x: "rdb_exec cl w ?pipe = (w1, err, rs)" by (cases "rdb_exec cl w ?pipe") auto
  with False assms(2) have "w1 = w'" by (auto simp: Touch_def split: option.split_asm)
  moreover have "\<forall>c\<in>set ?pipe. only_expiry c" by (auto simp: touch_cmd_facts)
  ultimately show ?thesis using pipe_outcome_value [OF redis_contractD(2) [OF assms(1) x]] by blast
qed (use assms(2) in \<open>simp add: Touch_def\<close>)

lemma Touch_val:
  "redis_contract cl view \<Longrightarrow> Touch cl s w as = (w', r) \<Longrightarrow>
     counter_value (s_host s) (view w') b = counter_value (s_host s) (view w) b"
  by (intro counter_value_cong) (rule Touch_values)

text \<open>
  Under the contract a call of \<open>Incr\<close> comes down to the outcome of its one command, or to passes of its
  pipeline.
\<close>

lemma Incr_single:
  assumes "redis_contract cl view" "s_ttl s \<le>s 0" "Incr cl s w a d = (w', r)"
  obtains rr where "rdb_do cl w (IncrBy (CounterKey (s_host s) a) d) = (w', rr)"
    "(\<exists>n. rr = Inr (RInt n) \<and> r = Inr n) \<or> (\<exists>e err. rr = Inl e \<and> r = Inl err)"
proof -
  obtain w1 rr where x: "rdb_do cl w (IncrBy (CounterKey (s_host s) a) d) = (w1, rr)" by fastforce
  have "w1 = w'" using x assms(2,3) by (auto simp: Incr_def Let_def split: sum.split_asm)
  moreover have "(\<exists>n. rr = Inr (RInt n) \<and> r = Inr n) \<or> (\<exists>e err. rr = Inl e \<and> r = Inl err)"
    using cmd_outcome_IncrBy [OF redis_contractD(1) [OF assms(1) x]] x assms(2,3)
    by (cases rr) (auto simp: Incr_def Let_def reply_int_def)
  ultimately show ?thesis using x that by blast
qed

abbreviation incr_pipe :: "store \<Rightarrow> string \<Rightarrow> int64 \<Rightarrow> cmd list" where
  "incr_pipe s a d \<equiv> [IncrBy (CounterKey (s_host s) a) d, Expire (CounterKey (s_host s) a) (s_ttl s)]"

lemma Incr_pipe:
  assumes "redis_contract cl view" "\<not> s_ttl s \<le>s 0" "Incr cl s w a d = (w', r)"
  obtains err ri re d0 d1 where "rdb_exec cl w (incr_pipe s a d) = (w', err, [ri, re])"
    "(some_pass (incr_pipe s a d))\<^sup>*\<^sup>* (view w) d0"
    "cmd_pass (IncrBy (CounterKey (s_host s) a) d) ri d0 d1"
    "cmd_pass (Expire (CounterKey (s_host s) a) (s_ttl s)) re d1 (view w')"
    "(\<exists>n x. err = None \<and> ri = Inr (RInt n) \<and> re = Inr x \<and> r = Inr n) \<or> (\<exists>e err'. err = Some e \<and> r = Inl err')"
proof -
  let ?p = "incr_pipe s a d"
  obtain w1 err rs where x: "rdb_exec cl w ?p = (w1, err, rs)" by (cases "rdb_exec cl w ?p") auto
  note po = redis_contractD(2) [OF assms(1) x]
  then obtain ri re where rs: "rs = [ri, re]"
    using pipe_outcome_length [OF po] by (auto simp: length_Suc_conv)
  with po obtain d0 d1 where o: "(some_pass ?p)\<^sup>*\<^sup>* (view w) d0" "cmd_pass (hd ?p) ri d0 d1" "cmd_pass (last ?p) re d1 (view w1)"
    by (auto simp: pipe_outcome_def)
  have fe: "err = first_error [ri, re]" using redis_contractD(3) [OF assms(1) x] rs by simp
  have inc: "\<exists>n. x = RInt n" if "ri = Inr x" for x
    using IncrBy_value(2) [of "s_host s" a d d0 d1 x] o(2) that by (auto simp: cmd_pass_def simp del: redis_effect.simps)
  have w1: "w1 = w'" and "(\<exists>n x. err = None \<and> ri = Inr (RInt n) \<and> re = Inr x \<and> r = Inr n) \<or> (\<exists>e err'. err = Some e \<and> r = Inl err')"
    using x assms(2,3) fe inc
    by (cases ri; cases re; auto simp: rs Incr_def Let_def reply_int_def reply_err_def)+
  then show ?thesis using that [of err ri re d0 d1] x o by (simp add: rs w1)
qed

text \<open>One pass of the pipeline adds the increment once or not at all.\<close>

lemma Expire_counter_value:
  assumes "cmd_pass (Expire k ttl) r d d'"
  shows "counter_value host d' b = counter_value host d b"
  using assms
proof (rule cmd_pass_keeps)
  fix y assume "applied (Expire k ttl) d y"
  then show "counter_value host y b = counter_value host d b"
    by (intro counter_value_cong) (auto simp: applied_def split: option.split_asm)
qed simp

lemma IncrBy_pass:
  assumes "cmd_pass (IncrBy (CounterKey host a) n) r d d'"
  shows "\<exists>k. added k n (counter_value host d a) (counter_value host d' a) \<and>
    (\<forall>x. r = Inr x \<longrightarrow> k = 1 \<and> (\<exists>m. x = RInt m \<and> sint m = counter_value host d' a))"
proof (cases r)
  case (Inl e)
  with assms have "d' = d \<or> applied (IncrBy (CounterKey host a) n) d d'" by (simp add: cmd_pass_def)
  with IncrBy_applied [of host a n d d'] have "\<exists>k. added k n (counter_value host d a) (counter_value host d' a)"
    using added_0 by metis
  with Inl show ?thesis by simp
next
  case (Inr x)
  with assms have "redis_effect (IncrBy (CounterKey host a) n) d = Some (d', x)" by (simp add: cmd_pass_def)
  from IncrBy_value [OF this] Inr show ?thesis by (intro exI [of _ 1]) auto
qed

lemma incr_pipe_passes:
  assumes "(some_pass (incr_pipe s a n))\<^sup>*\<^sup>* d d'"
  shows "\<exists>k. added k n (counter_value (s_host s) d a) (counter_value (s_host s) d' a)"
  using assms
proof (rule star_keeps)
  fix x y assume "some_pass (incr_pipe s a n) x y"
  then obtain rs where "pipe_pass (incr_pipe s a n) rs x y" by (auto simp: some_pass_def)
  then obtain ri re z where "cmd_pass (IncrBy (CounterKey (s_host s) a) n) ri x z"
    and e: "cmd_pass (Expire (CounterKey (s_host s) a) (s_ttl s)) re z y"
    by (auto simp: pipe_pass_Cons pipe_pass_Nil)
  with IncrBy_pass show "\<exists>k. added k n (counter_value (s_host s) x a) (counter_value (s_host s) y a)"
    unfolding Expire_counter_value [OF e] by blast
qed (blast intro: added_0 [THEN iffD2] added_trans)+

lemma Incr_val:
  assumes "redis_contract cl view" "Incr cl s w a d = (w', r)"
  shows "\<exists>k. added k d (counter_value (s_host s) (view w) a) (counter_value (s_host s) (view w') a) \<and>
    (\<forall>n. r = Inr n \<longrightarrow> 1 \<le> k \<and> sint n = counter_value (s_host s) (view w') a)"
proof (cases "s_ttl s \<le>s 0")
  case True
  from Incr_single [OF assms(1) True assms(2)] obtain rr where
    x: "rdb_do cl w (IncrBy (CounterKey (s_host s) a) d) = (w', rr)"
    and r: "(\<exists>n. rr = Inr (RInt n) \<and> r = Inr n) \<or> (\<exists>e err. rr = Inl e \<and> r = Inl err)" .
  from r show ?thesis using cmd_outcome_IncrBy [OF redis_contractD(1) [OF assms(1) x]] by auto
next
  case False
  from Incr_pipe [OF assms(1) False assms(2)] obtain err ri re d0 d1 where
    "rdb_exec cl w (incr_pipe s a d) = (w', err, [ri, re])"
    and o: "(some_pass (incr_pipe s a d))\<^sup>*\<^sup>* (view w) d0" "cmd_pass (IncrBy (CounterKey (s_host s) a) d) ri d0 d1"
       "cmd_pass (Expire (CounterKey (s_host s) a) (s_ttl s)) re d1 (view w')"
    and r: "(\<exists>n x. err = None \<and> ri = Inr (RInt n) \<and> re = Inr x \<and> r = Inr n) \<or> (\<exists>e err'. err = Some e \<and> r = Inl err')" .
  from incr_pipe_passes [OF o(1)] obtain j where
    j: "added j d (counter_value (s_host s) (view w) a) (counter_value (s_host s) d0 a)" ..
  from IncrBy_pass [OF o(2)] obtain k where k: "added k d (counter_value (s_host s) d0 a) (counter_value (s_host s) d1 a)"
    "\<forall>x. ri = Inr x \<longrightarrow> k = 1 \<and> (\<exists>m. x = RInt m \<and> sint m = counter_value (s_host s) d1 a)" by blast
  have "added (j + k) d (counter_value (s_host s) (view w) a) (counter_value (s_host s) (view w') a)"
    unfolding Expire_counter_value [OF o(3)] using j k(1) by (rule added_trans)
  with r k(2) show ?thesis
    by (intro exI [of _ "j + k"]) (auto simp: Expire_counter_value [OF o(3)])
qed

lemma Incr_clean:
  assumes "redis_contract cl view" "clean_failures cl view" "Incr cl s w a d = (w', r)"
  shows "added (case r of Inl _ \<Rightarrow> 0 | Inr _ \<Rightarrow> 1) d (counter_value (s_host s) (view w) a) (counter_value (s_host s) (view w') a)"
proof (cases "s_ttl s \<le>s 0")
  case True
  note cf = clean_failuresD [OF assms(2)]
  from Incr_single [OF assms(1) True assms(3)] obtain rr where
    x: "rdb_do cl w (IncrBy (CounterKey (s_host s) a) d) = (w', rr)"
    and r: "(\<exists>n. rr = Inr (RInt n) \<and> r = Inr n) \<or> (\<exists>e err. rr = Inl e \<and> r = Inl err)" .
  show ?thesis
  proof (cases rr)
    case (Inl e)
    with x r cf(1) show ?thesis by auto
  next
    case (Inr y)
    with cf(2) x have "redis_effect (IncrBy (CounterKey (s_host s) a) d) (view w) = Some (view w', y)" by blast
    from IncrBy_value(1) [OF this] Inr r show ?thesis by auto
  qed
next
  case False
  note cf = clean_failuresD [OF assms(2)]
  from Incr_pipe [OF assms(1) False assms(3)] obtain err ri re where
    x: "rdb_exec cl w (incr_pipe s a d) = (w', err, [ri, re])"
    and r: "(\<exists>n x. err = None \<and> ri = Inr (RInt n) \<and> re = Inr x \<and> r = Inr n) \<or> (\<exists>e err'. err = Some e \<and> r = Inl err')" .
  show ?thesis
  proof (cases err)
    case None
    with x cf(4) have "pipe_pass (incr_pipe s a d) [ri, re] (view w) (view w')" by blast
    then obtain z where z: "cmd_pass (IncrBy (CounterKey (s_host s) a) d) ri (view w) z"
      "cmd_pass (Expire (CounterKey (s_host s) a) (s_ttl s)) re z (view w')" by auto
    from None r obtain n where n: "ri = Inr (RInt n)" "r = Inr n" by auto
    with IncrBy_pass [OF z(1)] show ?thesis by (auto simp: Expire_counter_value [OF z(2)])
  next
    case (Some e)
    with x cf(3) have "same_values (view w) (view w')" by blast
    then have "counter_value (s_host s) (view w') a = counter_value (s_host s) (view w) a"
      by (intro counter_value_cong) (simp add: same_values_def)
    with Some r show ?thesis by auto
  qed
qed

lemma Incr_frame:
  assumes "redis_contract cl view" "Incr cl s w a d = (w', r)" "k \<noteq> CounterKey (s_host s) a"
  shows "view w' k = view w k"
proof (cases "s_ttl s \<le>s 0")
  case True
  from Incr_single [OF assms(1) True assms(2)] obtain rr where
    x: "rdb_do cl w (IncrBy (CounterKey (s_host s) a) d) = (w', rr)"
    and "(\<exists>n. rr = Inr (RInt n) \<and> r = Inr n) \<or> (\<exists>e err. rr = Inl e \<and> r = Inl err)" .
  then show ?thesis
    using cmd_outcome_frame [OF redis_contractD(1) [OF assms(1) x]] assms(3) by simp
next
  case False
  obtain err rs where "rdb_exec cl w (incr_pipe s a d) = (w', err, rs)"
    by (rule Incr_pipe [OF assms(1) False assms(2)])
  then show ?thesis
    using pipe_outcome_frame [OF redis_contractD(2) [OF assms(1)]] assms(3) by fastforce
qed

lemma Store_Reset_cases:
  assumes "Store_Reset cl s w a ts = (w', r)"
  obtains w1 rr where "rdb_do cl w (SetKey (CounterKey (s_host s) a) ''0'' (s_ttl s)) = (w1, rr)"
    "(\<exists>e err. rr = Inl e \<and> w' = w1 \<and> r = Some err) \<or> (\<exists>x. rr = Inr x \<and> SetHeartbeat cl s w1 a 0 ts = (w', r))"
  using assms that by (fastforce simp: Store_Reset_def reply_err_def split: prod.split_asm option.split_asm sum.split_asm)

lemma Store_Reset_val:
  assumes "redis_contract cl view" "Store_Reset cl s w a ts = (w', r)"
  shows "counter_value (s_host s) (view w') a \<in> {counter_value (s_host s) (view w) a, 0}"
    and "r = None \<Longrightarrow> counter_value (s_host s) (view w') a = 0"
    and "b \<noteq> a \<Longrightarrow> counter_value (s_host s) (view w') b = counter_value (s_host s) (view w) b"
proof -
  from Store_Reset_cases [OF assms(2)] obtain w1 rr where
    x: "rdb_do cl w (SetKey (CounterKey (s_host s) a) ''0'' (s_ttl s)) = (w1, rr)"
    and r: "(\<exists>e err. rr = Inl e \<and> w' = w1 \<and> r = Some err) \<or>
            (\<exists>x. rr = Inr x \<and> SetHeartbeat cl s w1 a 0 ts = (w', r))" .
  note z = cmd_outcome_SetZero [OF redis_contractD(1) [OF assms(1) x]]
  show "counter_value (s_host s) (view w') a \<in> {counter_value (s_host s) (view w) a, 0}"
    and "r = None \<Longrightarrow> counter_value (s_host s) (view w') a = 0"
    using z r SetHeartbeat_val [OF assms(1)] by auto
  assume "b \<noteq> a"
  then have "counter_value (s_host s) (view w1) b = counter_value (s_host s) (view w) b"
    using redis_contractD(1) [OF assms(1) x] by (intro cmd_outcome_other_counter) auto
  then show "counter_value (s_host s) (view w') b = counter_value (s_host s) (view w) b"
    using r SetHeartbeat_val [OF assms(1)] by auto
qed

interpretation cs: counter_store env_good env_clean env_val
  "\<lambda>e. Init (fst e)" "\<lambda>e. Touch (fst e)" "\<lambda>e. Incr (fst e)" "\<lambda>e. SetHeartbeat (fst e)" "\<lambda>e. Store_Reset (fst e)"
proof (unfold_locales, goal_cases)
  case (6 e s w a d w' r)
  then show ?case using Incr_clean by (fastforce simp: env_good_def env_clean_def env_val_def)
next
  case (7 e s w a d w' r b)
  then show ?case
    using Incr_frame by (fastforce simp: env_good_def env_val_def intro!: counter_value_same)
qed (use Init_val Touch_val SetHeartbeat_val Incr_val Store_Reset_val in
      \<open>fastforce simp: env_good_def env_val_def\<close>)+

end
