(* ===== verification/Reader.thy ===== *)
theory Reader
  imports Store
begin

section \<open>Reading the counters (Store.Counters and the interface metrics.Reader)\<close>

text \<open>
  What a reader of the counters may rely on, as the locale \<open>counter_reader\<close>, and the proof that
  \<open>Counters\<close> provides it: a value for exactly the words whose key is readable, an error that separates
  an unreadable key from a server that did not answer, and no effect on the database.
\<close>

subsection \<open>What a key holds, read as a counter\<close>

text \<open>The string of a key, if it holds one.\<close>

definition key_string :: "entry option \<Rightarrow> string option" where
  "key_string e = (case e of None \<Rightarrow> None
     | Some e \<Rightarrow> (case e_val e of SVal s \<Rightarrow> Some s | OtherType \<Rightarrow> None))"

definition readable :: "string \<Rightarrow> db \<Rightarrow> string \<Rightarrow> int64 option" where
  "readable host d a = (case key_string (d (CounterKey host a)) of None \<Rightarrow> None
     | Some s \<Rightarrow> (case ParseInt s of Inl _ \<Rightarrow> None | Inr n \<Rightarrow> Some (word_of_int n)))"

definition malformed :: "string \<Rightarrow> db \<Rightarrow> string \<Rightarrow> bool" where
  "malformed host d a = (case key_string (d (CounterKey host a)) of None \<Rightarrow> False
     | Some s \<Rightarrow> (case ParseInt s of Inl _ \<Rightarrow> True | Inr n \<Rightarrow> False))"

text \<open>A readable counter holds the value the writing side counts on.\<close>

lemma readable_counter_value:
  assumes "redis_int (e_val e) = Some n" "d (CounterKey host a) = Some e"
  shows "readable host d a = Some (word_of_int n)" "counter_value host d a = n" "\<not> malformed host d a"
  using assms
  by (auto simp: readable_def malformed_def key_string_def counter_value_def redis_int_def
      split: rvalue.split_asm sum.split_asm if_split_asm)

lemma MGet_value_cases:
  "(case d (CounterKey host a) of None \<Rightarrow> VNil
     | Some e \<Rightarrow> (case e_val e of SVal s \<Rightarrow> VStr s | OtherType \<Rightarrow> VNil)) =
   (case key_string (d (CounterKey host a)) of None \<Rightarrow> VNil | Some s \<Rightarrow> VStr s)"
  by (auto simp: key_string_def split: option.split rvalue.split)

lemma counters_loop_exact:
  "counters_loop as (map (\<lambda>a. case key_string (d (CounterKey host a)) of None \<Rightarrow> VNil | Some s \<Rightarrow> VStr s) as) out mal =
     (out', mal') \<Longrightarrow>
   map_of out' a = (if a \<in> set as \<and> readable host d a \<noteq> None then readable host d a else map_of out a) \<and>
   mal' = mal @ List.filter (malformed host d) as \<and> (gomap_ok out \<longrightarrow> gomap_ok out')"
proof (induction as arbitrary: out mal)
  case (Cons b as)
  show ?case
  proof (cases "key_string (d (CounterKey host b))")
    case None
    with Cons.prems Cons.IH [of out mal] show ?thesis
      by (auto simp: readable_def malformed_def)
  next
    case (Some s)
    show ?thesis
    proof (cases "ParseInt s")
      case (Inl e)
      with Some Cons.prems Cons.IH [of out "mal @ [b]"] show ?thesis
        by (auto simp: readable_def malformed_def)
    next
      case (Inr n)
      with Some have "readable host d b = Some (word_of_int n)" "\<not> malformed host d b"
        by (simp_all add: readable_def malformed_def)
      with Some Inr Cons.prems Cons.IH [of "AList.update b (word_of_int n) out" mal] show ?thesis by auto
    qed
  qed
qed simp

lemma Counters_cases:
  assumes "redis_contract cl view" "Counters cl s w as = (w', out, err)"
  obtains "view w' = view w" "\<forall>a. map_of out a = (if a \<in> set as then readable (s_host s) (view w) a else None)"
      "gomap_ok out" "err = None \<longleftrightarrow> (\<forall>a\<in>set as. \<not> malformed (s_host s) (view w) a)"
      "\<forall>e. err = Some e \<longrightarrow> errors_Is e ErrMalformedValue"
      "as = [] \<or> (\<exists>x. rdb_do cl w (MGet (map (CounterKey (s_host s)) as)) = (w', Inr x))"
    | e where "view w' = view w" "out = []" "err = Some (Errorf ''read counters: %w'' [] (Some e))"
      "as \<noteq> []" "rdb_do cl w (MGet (map (CounterKey (s_host s)) as)) = (w', Inl e)"
proof (cases "as = []")
  case True
  with assms(2) that(1) show ?thesis by (simp add: Counters_def)
next
  case False
  obtain w1 r where x: "rdb_do cl w (MGet (map (CounterKey (s_host s)) as)) = (w1, r)" by fastforce
  note o = redis_contractD(1) [OF assms(1) x]
  have v: "view w1 = view w" and eff: "r = Inr z \<Longrightarrow> redis_effect (MGet (map (CounterKey (s_host s)) as)) (view w) = Some (view w, z)" for z
    using cmd_outcome_read [OF o] by blast+
  show ?thesis
  proof (cases r)
    case (Inl e)
    with x v False assms(2) show ?thesis
      by (intro that(2) [of e]) (auto simp: Counters_def reply_values_def)
  next
    case (Inr y)
    let ?vs = "map (\<lambda>a. case key_string (view w (CounterKey (s_host s) a)) of None \<Rightarrow> VNil | Some s \<Rightarrow> VStr s) as"
    have y: "y = RVals ?vs"
      using eff [OF Inr] by (simp add: comp_def MGet_value_cases)
    obtain out' mal where l: "counters_loop as ?vs [] [] = (out', mal)" by fastforce
    note L = counters_loop_exact [OF l]
    have m: "mal = List.filter (malformed (s_host s) (view w)) as" using L [of "[]"] by simp
    have e: "(w', out, err) = (if mal \<noteq> []
        then (w1, out', Some (Errorf ''read counters of %s: %w'' [AS (join '', '' mal)] (Some (Sentinel ErrMalformedValue))))
        else (w1, out', None))"
      using assms(2) x False by (simp add: Counters_def reply_values_def Inr y l)
    then have out: "out = out'" "w' = w1" by (auto split: if_split_asm)
    show ?thesis
    proof (rule that(1))
      show "view w' = view w" using v out by simp
      show "\<forall>a. map_of out a = (if a \<in> set as then readable (s_host s) (view w) a else None)"
        using L out by auto
      show "gomap_ok out" using L out by simp
      show "err = None \<longleftrightarrow> (\<forall>a\<in>set as. \<not> malformed (s_host s) (view w) a)"
        using e m by (auto simp: filter_empty_conv split: if_split_asm)
      show "\<forall>e. err = Some e \<longrightarrow> errors_Is e ErrMalformedValue"
        using e by (auto split: if_split_asm)
      show "as = [] \<or> (\<exists>x. rdb_do cl w (MGet (map (CounterKey (s_host s)) as)) = (w', Inr x))"
        using x Inr out by simp
    qed
  qed
qed

subsection \<open>The interface\<close>

text \<open>
  \<open>stored e s w a\<close> is the readable value of a word and \<open>answers\<close> says that the server answers this
  read; \<open>read\<close> is \<open>Counters\<close>.
\<close>

locale counter_reader =
  fixes good :: "'e \<Rightarrow> bool"
    and stored :: "'e \<Rightarrow> 's \<Rightarrow> 'w \<Rightarrow> string \<Rightarrow> int64 option"
    and answers :: "'e \<Rightarrow> 's \<Rightarrow> 'w \<Rightarrow> string list \<Rightarrow> bool"
    and read :: "'e \<Rightarrow> 's \<Rightarrow> 'w \<Rightarrow> string list \<Rightarrow> 'w \<times> int64 gomap \<times> goerr option"
  assumes answered: "good e \<Longrightarrow> read e s w as = (w', out, err) \<Longrightarrow> answers e s w as \<Longrightarrow> a \<in> set as \<Longrightarrow>
      map_of out a = stored e s w a"
    and nothing_else: "good e \<Longrightarrow> read e s w as = (w', out, err) \<Longrightarrow> a \<notin> set as \<Longrightarrow> map_of out a = None"
    and malformed_is_up: "good e \<Longrightarrow> read e s w as = (w', out, err) \<Longrightarrow> answers e s w as \<Longrightarrow> \<not> IsUnavailable err"
    and unanswered: "good e \<Longrightarrow> read e s w as = (w', out, err) \<Longrightarrow> \<not> answers e s w as \<Longrightarrow> out = [] \<and> err \<noteq> None"
    and keys_once: "good e \<Longrightarrow> read e s w as = (w', out, err) \<Longrightarrow> gomap_ok out"
    and read_only: "good e \<Longrightarrow> read e s w as = (w', out, err) \<Longrightarrow> stored e s w' a = stored e s w a"
begin

text \<open>A value that is read is the stored one; an empty result of an answered read means no readable key.\<close>

lemma read_sound:
  assumes "good e" "read e s w as = (w', out, err)" "map_of out a = Some n"
  shows "a \<in> set as \<and> stored e s w a = Some n"
proof (cases "answers e s w as")
  case True
  with assms nothing_else [OF assms(1,2)] answered [OF assms(1,2) True] show ?thesis
    by (metis option.distinct(1))
next
  case False
  with unanswered [OF assms(1,2)] assms(3) show ?thesis by simp
qed

lemma outage_is_seen:
  assumes "good e" "read e s w as = (w', out, err)" "IsUnavailable err"
  shows "\<not> answers e s w as \<and> out = []"
  using malformed_is_up [OF assms(1,2)] unanswered [OF assms(1,2)] assms(3) by blast

lemma read_twice:
  assumes "good e" "read e s w as = (w1, o1, e1)" "read e s w1 as = (w2, o2, e2)"
    "answers e s w as" "answers e s w1 as"
  shows "map_of o1 a = map_of o2 a"
  using answered [OF assms(1,2,4)] answered [OF assms(1,3,5)] nothing_else [OF assms(1,2)]
    nothing_else [OF assms(1,3)] read_only [OF assms(1,2)] by (cases "a \<in> set as") simp_all

end

definition redis_answers :: "'w redis_env \<Rightarrow> store \<Rightarrow> 'w \<Rightarrow> string list \<Rightarrow> bool" where
  "redis_answers e s w as \<longleftrightarrow> as = [] \<or>
     (case rdb_do (fst e) w (MGet (map (CounterKey (s_host s)) as)) of (_, Inl _) \<Rightarrow> False | (_, Inr _) \<Rightarrow> True)"

definition env_stored :: "'w redis_env \<Rightarrow> store \<Rightarrow> 'w \<Rightarrow> string \<Rightarrow> int64 option" where
  "env_stored e s w a = readable (s_host s) (snd e w) a"

lemma malformed_not_unavailable: "\<forall>x. err = Some x \<longrightarrow> errors_Is x ErrMalformedValue \<Longrightarrow> \<not> IsUnavailable err"
  by (auto simp: IsUnavailable_def split: option.split)

lemma Counters_answered:
  assumes "env_good e" "Counters (fst e) s w as = (w', out, err)" "redis_answers e s w as"
  shows "map_of out a = (if a \<in> set as then env_stored e s w a else None)" "\<not> IsUnavailable err"
proof -
  have "redis_contract (fst e) (snd e)" using assms(1) by (simp add: env_good_def)
  then show "map_of out a = (if a \<in> set as then env_stored e s w a else None)" "\<not> IsUnavailable err"
    by (rule Counters_cases [OF _ assms(2)];
        use assms(3) in \<open>simp add: env_stored_def redis_answers_def malformed_not_unavailable\<close>)+
qed

interpretation rd: counter_reader env_good env_stored redis_answers "\<lambda>e. Counters (fst e)"
proof (unfold_locales, goal_cases)
  case (1 e s w as w' out err a)
  then show ?case using Counters_answered(1) by fastforce
next
  case (2 e s w as w' out err a)
  from 2(1) have "redis_contract (fst e) (snd e)" by (simp add: env_good_def)
  then show ?case by (rule Counters_cases [OF _ 2(2)]) (use 2(3) in auto)
next
  case (3 e s w as w' out err)
  then show ?case by (rule Counters_answered(2))
next
  case (4 e s w as w' out err)
  then obtain w1 x where "as \<noteq> []" "rdb_do (fst e) w (MGet (map (CounterKey (s_host s)) as)) = (w1, Inl x)"
    by (auto simp: redis_answers_def split: prod.split_asm sum.split_asm)
  with 4(2) show ?case by (auto simp: Counters_def reply_values_def)
next
  case (5 e s w as w' out err)
  from 5(1) have "redis_contract (fst e) (snd e)" by (simp add: env_good_def)
  then show ?case by (rule Counters_cases [OF _ 5(2)]) auto
next
  case (6 e s w as w' out err a)
  from 6(1) have "redis_contract (fst e) (snd e)" by (simp add: env_good_def)
  then show ?case by (rule Counters_cases [OF _ 6(2)]) (auto simp: env_stored_def)
qed

end
