(* ===== verification/Store_Props.thy ===== *)
theory Store_Props
  imports Reader
begin

section \<open>Properties of the Redis layer\<close>

text \<open>
  What each operation of the store does to the database on every outcome: which keys it creates,
  changes or leaves alone, what it returns, and how its errors are classified.
\<close>

subsection \<open>Keys\<close>

text \<open>
  A counter key determines its host and its word (a host name has no colon), and no counter key is
  the heartbeat key of anything: two instances collide only on the same host and the same word.
\<close>

theorem CounterKey_unique:
  assumes "CHR '':'' \<notin> set host" "CHR '':'' \<notin> set host'"
  shows "(CounterKey host a = CounterKey host' b \<longleftrightarrow> host = host' \<and> a = b) \<and>
    CounterKey host a \<noteq> HeartbeatKey host' b"
  using append_inj_at [of host "CHR '':''" a host' b] assms
  by (auto simp: CounterKey_def HeartbeatKey_def KeyPrefix_def)

lemma CounterKey_unique_witness:
  "CHR '':'' \<notin> set ''web01'' \<and> CounterKey ''web01'' ''get-sms'' \<noteq> CounterKey ''web01'' ''getStatus'' \<and>
   CounterKey ''web01'' ''get-sms'' = ''logstat:counter:web01:get-sms''"
  using CounterKey_unique [of "''web01''" "''web01''" "''get-sms''" "''getStatus''"]
  by (simp add: CounterKey_def KeyPrefix_def)

text \<open>
  \<open>ShortHostname\<close> is the part of the host name before its first dot, never empty: \<open>unknown\<close> stands
  in for a missing name, and only a name that begins with a dot keeps its dots.
\<close>

theorem ShortHostname_is_short:
  "ShortHostname os w \<noteq> [] \<and>
   (CHR ''.'' \<notin> set (ShortHostname os w) \<or> hd (ShortHostname os w) = CHR ''.'') \<and>
   (\<forall>h. os_hostname os w = Inr h \<and> h \<noteq> [] \<longrightarrow>
      (\<exists>rest. h = ShortHostname os w @ rest \<and> (rest = [] \<or> hd rest = CHR ''.'')))"
proof (cases "os_hostname os w")
  case (Inr h)
  show ?thesis
  proof (cases "IndexByte h CHR ''.''")
    case None
    then have "CHR ''.'' \<notin> set h" by (simp add: IndexByte_None)
    moreover have "ShortHostname os w = (if h = [] then ''unknown'' else h)"
      using Inr None by (simp add: ShortHostname_def)
    ultimately show ?thesis using Inr by auto
  next
    case (Some i)
    note at = IndexByte_Some [OF Some]
    show ?thesis
    proof (cases "0 < i")
      case True
      have "hd (drop i h) = CHR ''.''" using at by (simp add: hd_drop_conv_nth)
      with True at Inr Some show ?thesis
        by (auto simp: ShortHostname_def intro!: exI [of _ "drop i h"])
    next
      case False
      then have "hd h = CHR ''.''" using at by (metis gr0I hd_conv_nth length_0_conv less_nat_zero_code)
      with False at Inr Some show ?thesis by (auto simp: ShortHostname_def)
    qed
  qed
qed (simp add: ShortHostname_def)


lemma ShortHostname_is_short_witness:
  "ShortHostname (example_os ''web01.example.com'') () = ''web01'' \<and>
   (\<exists>rest. ''web01.example.com'' = ''web01'' @ rest \<and> (rest = [] \<or> hd rest = CHR ''.''))"
proof -
  have s: "ShortHostname (example_os ''web01.example.com'') () = ''web01''" by code_simp
  have "os_hostname (example_os ''web01.example.com'') () = Inr ''web01.example.com''"
    by (simp add: example_os_def)
  then show ?thesis
    using ShortHostname_is_short [of "example_os ''web01.example.com''" "()"] unfolding s by blast
qed

subsection \<open>Initialisation\<close>

lemma SetNX_keeps:
  assumes "cmd_outcome (SetNX k v ttl) r d d'"
  shows "d \<subseteq>\<^sub>m d' \<and> (\<forall>k'. k' \<noteq> k \<longrightarrow> d' k' = d k') \<and>
     d' k \<in> {d k, Some (set_entry v ttl)} \<and> (\<forall>x. r = Inr x \<longrightarrow> d' k \<noteq> None)"
proof -
  from cmd_outcome_once [OF assms] have o: "d' = d \<or> applied (SetNX k v ttl) d d'"
    "r = Inr x \<Longrightarrow> applied (SetNX k v ttl) d d'" for x by (cases r; simp)+
  have "d \<subseteq>\<^sub>m y \<and> (\<forall>k'. k' \<noteq> k \<longrightarrow> y k' = d k') \<and> y k \<in> {d k, Some (set_entry v ttl)} \<and> y k \<noteq> None"
    if "applied (SetNX k v ttl) d y" for y
    using that by (auto simp: applied_def map_le_def dom_def split: if_split_asm)
  with o show ?thesis by auto
qed

lemma Get_keeps: "cmd_outcome (Get k) r d d' \<Longrightarrow> d' = d"
  using cmd_outcome_read [of "Get k" r d d'] by simp

lemma Init_step:
  assumes "redis_contract cl view" "Init cl s w (a # as) ts = (w', r)"
  obtains w1 where "view w \<subseteq>\<^sub>m view w1" "\<forall>k. k \<notin> set (keys s a) \<longrightarrow> view w1 k = view w k"
    "view w1 (CounterKey (s_host s) a) \<in> {view w (CounterKey (s_host s) a), Some (set_entry ''0'' (s_ttl s))}"
    "(r \<noteq> None \<and> w' = w1) \<or> (Init cl s w1 as ts = (w', r) \<and> (\<forall>k\<in>set (keys s a). view w1 k \<noteq> None))"
proof -
  note oc = redis_contractD(1) [OF assms(1)]
  let ?ck = "CounterKey (s_host s) a" and ?hk = "HeartbeatKey (s_host s) a"
  obtain w1 r1 where x1: "rdb_do cl w (SetNX ?ck ''0'' (s_ttl s)) = (w1, r1)" by fastforce
  note k1 = SetNX_keeps [OF oc [OF x1]]
  obtain w2 r2 where x2: "rdb_do cl w1 (Get ?ck) = (w2, r2)" by fastforce
  note k2 = Get_keeps [OF oc [OF x2]]
  consider "reply_err r1 \<noteq> None" | "reply_err r1 = None" "\<not> s_heartbeat s"
    | "reply_err r1 = None" "s_heartbeat s" "\<exists>e. reply_parse_int r2 = Inl e"
    | n where "reply_err r1 = None" "s_heartbeat s" "reply_parse_int r2 = Inr n"
    by (cases "reply_parse_int r2") auto
  then show ?thesis
  proof cases
    case 1
    with k1 assms(2) x1 show ?thesis by (intro that [of w1]) (auto simp: keys_def)
  next
    case 2
    with k1 assms(2) x1 show ?thesis
      by (intro that [of w1]) (auto simp: keys_def reply_err_None)
  next
    case 3
    with k1 k2 assms(2) x1 x2 show ?thesis
      by (intro that [of w2]) (auto simp: keys_def)
  next
    case (4 n)
    obtain w3 r3 where x3: "rdb_do cl w2 (SetNX ?hk (FormatHeartbeat (s_host s) ts a n) (s_ttl s)) = (w3, r3)"
      by fastforce
    note k3 = SetNX_keeps [OF oc [OF x3]]
    have le: "view w \<subseteq>\<^sub>m view w3" using k1 k2 k3 map_le_trans by metis
    have ck: "view w3 ?ck = view w1 ?ck" using k2 k3 by simp
    have e: "(w', r) = (case reply_err r3 of
        Some err \<Rightarrow> (w3, Some (Errorf ''init heartbeat for %q: %w'' [AS a] (Some err)))
      | None \<Rightarrow> Init cl s w3 as ts)"
      using assms(2) 4 x1 x2 x3 by simp
    have fr: "\<forall>k. k \<notin> set (keys s a) \<longrightarrow> view w3 k = view w k"
      using k1 k2 k3 4(2) by (simp add: keys_def)
    have nn: "\<forall>k\<in>set (keys s a). view w3 k \<noteq> None" if "reply_err r3 = None"
      using that 4(1,2) k1 k3 ck by (auto simp: keys_def reply_err_None)
    show ?thesis
    proof (rule that [OF le fr])
      show "view w3 ?ck \<in> {view w ?ck, Some (set_entry ''0'' (s_ttl s))}" using k1 ck by simp
      show "(r \<noteq> None \<and> w' = w3) \<or> (Init cl s w3 as ts = (w', r) \<and> (\<forall>k\<in>set (keys s a). view w3 k \<noteq> None))"
        using e nn by (cases "reply_err r3") auto
    qed
  qed
qed

lemma Init_keeps:
  assumes "redis_contract cl view" "Init cl s w as ts = (w', r)"
  shows "view w \<subseteq>\<^sub>m view w' \<and> (\<forall>k. k \<notin> (\<Union>a\<in>set as. set (keys s a)) \<longrightarrow> view w' k = view w k) \<and>
    (\<forall>a. view w' (CounterKey (s_host s) a) \<in> {view w (CounterKey (s_host s) a), Some (set_entry ''0'' (s_ttl s))}) \<and>
    (r = None \<longrightarrow> (\<forall>a\<in>set as. \<forall>k\<in>set (keys s a). view w' k \<noteq> None))"
  using assms(2)
proof (induction as arbitrary: w)
  case (Cons a as)
  let ?P = "\<lambda>w w' b. view w' (CounterKey (s_host s) b) \<in> {view w (CounterKey (s_host s) b), Some (set_entry ''0'' (s_ttl s))}"
  obtain w1 where le: "view w \<subseteq>\<^sub>m view w1" and fr: "\<forall>k. k \<notin> set (keys s a) \<longrightarrow> view w1 k = view w k"
    and ck: "?P w w1 a"
    and r: "(r \<noteq> None \<and> w' = w1) \<or> (Init cl s w1 as ts = (w', r) \<and> (\<forall>k\<in>set (keys s a). view w1 k \<noteq> None))"
    using Init_step [OF assms(1) Cons.prems] by blast
  have ck1: "?P w w1 b" for b
    using ck fr by (cases "b = a") (auto simp: keys_def)
  from r show ?case
  proof
    assume "r \<noteq> None \<and> w' = w1"
    then show ?thesis using le fr ck1 by auto
  next
    assume i: "Init cl s w1 as ts = (w', r) \<and> (\<forall>k\<in>set (keys s a). view w1 k \<noteq> None)"
    note IH = Cons.IH [OF conjunct1 [OF i]]
    have "view w \<subseteq>\<^sub>m view w'" using le IH map_le_trans by blast
    moreover have "\<forall>k\<in>set (keys s a). view w' k \<noteq> None"
      using i IH by (metis domIff map_le_def)
    moreover have "?P w w' b" for b
    proof -
      from IH have "?P w1 w' b" by blast
      with ck1 [of b] show ?thesis by (simp only: insert_iff empty_iff) metis
    qed
    ultimately show ?thesis using IH fr by auto
  qed
qed simp

text \<open>
  C31. A restart never resets what was counted. Whatever the outcome of \<open>Init\<close>, every key that existed
  keeps its value and expiry, keys of other words and hosts are not touched, a counter is created only
  at zero with the configured expiry, and after a success every maintained key exists.
\<close>

theorem Init_creates_missing_keys_only:
  assumes "redis_contract cl view" "Init cl s w as ts = (w', r)"
  shows "(\<forall>k e. view w k = Some e \<longrightarrow> view w' k = Some e) \<and>
    (\<forall>k. k \<notin> (\<Union>a\<in>set as. set (keys s a)) \<longrightarrow> view w' k = view w k) \<and>
    (\<forall>a. view w (CounterKey (s_host s) a) = None \<longrightarrow>
       view w' (CounterKey (s_host s) a) \<in> {None, Some (set_entry ''0'' (s_ttl s))}) \<and>
    (r = None \<longrightarrow> (\<forall>a\<in>set as. \<forall>k\<in>set (keys s a). view w' k \<noteq> None))"
  using Init_keeps [OF assms] by (auto simp: map_le_def dom_def) metis+

definition noon :: gotime where
  "noon = \<lparr>t_ns = 1787140800 * 10 ^ 9, t_offset = 10800, t_zone = ''MSK''\<rparr>"

definition web_store :: store where
  "web_store = Store_New (cfg_redis Default) ''web01'' True"

lemma Init_creates_missing_keys_only_witness:
  "\<exists>w'. Init server_client web_store \<lparr>sv_db = Map.empty, sv_faults = []\<rparr> [''a''] noon = (w', None) \<and>
     sv_db w' (CounterKey ''web01'' ''a'') = Some (set_entry ''0'' (s_ttl web_store))"
proof -
  let ?w = "\<lparr>sv_db = Map.empty, sv_faults = []\<rparr>"
  obtain w' r where i: "Init server_client web_store ?w [''a''] noon = (w', r)" by fastforce
  have "snd (Init server_client web_store ?w [''a''] noon) = None" by code_simp
  with i have r: "r = None" by simp
  have h: "s_host web_store = ''web01''" by code_simp
  have k: "CounterKey ''web01'' ''a'' \<in> set (keys web_store ''a'')" using h by (simp add: keys_def)
  note P = Init_creates_missing_keys_only [OF server_contract i, unfolded h r]
  from P have "sv_db w' (CounterKey ''web01'' ''a'') \<in> {None, Some (set_entry ''0'' (s_ttl web_store))}"
    by (simp only: server.select_convs)
  moreover from P k have "sv_db w' (CounterKey ''web01'' ''a'') \<noteq> None" by auto
  ultimately show ?thesis using i r by blast
qed


subsection \<open>Refreshing the expiry\<close>

definition with_expiry :: "int64 \<Rightarrow> string set \<Rightarrow> db \<Rightarrow> db" where
  "with_expiry ttl ks d = (\<lambda>k. if k \<in> ks then map_option (\<lambda>e. e\<lparr>e_exp := expiry ttl\<rparr>) (d k) else d k)"

lemma with_expiry_again: "ks' \<subseteq> ks \<Longrightarrow> with_expiry ttl ks (with_expiry ttl ks' d) = with_expiry ttl ks d"
  by (auto simp: with_expiry_def fun_eq_iff option.map_comp comp_def)

lemma touch_effect:
  "redis_effect (touch_cmd s k) d = Some (d', x) \<Longrightarrow> d' = with_expiry (s_ttl s) {k} d"
  by (auto simp: with_expiry_def touch_cmd_def expiry_def fun_eq_iff split: if_split_asm option.split_asm)

lemma pipe_pass_touch:
  "pipe_pass (map (touch_cmd s) ks) rs d d' \<Longrightarrow> first_error rs = None \<Longrightarrow> d' = with_expiry (s_ttl s) (set ks) d"
proof (induction ks arbitrary: rs d)
  case Nil
  then show ?case by (simp add: pipe_pass_Nil with_expiry_def)
next
  case (Cons k ks)
  then obtain r rs' d1 where rs: "rs = r # rs'" and o: "cmd_pass (touch_cmd s k) r d d1"
    and p: "pipe_pass (map (touch_cmd s) ks) rs' d1 d'" by (auto simp: pipe_pass_Cons)
  from rs Cons.prems(2) obtain x where r: "r = Inr x" and f: "first_error rs' = None" by (cases r) auto
  from o r have "d1 = with_expiry (s_ttl s) {k} d" by (simp add: cmd_pass_def touch_effect)
  with Cons.IH [OF p f] show ?case
    by (auto simp: with_expiry_def fun_eq_iff option.map_comp comp_def)
qed

lemma pipe_outcome_touch:
  assumes "pipe_outcome (map (touch_cmd s) ks) rs d d'" "first_error rs = None"
  shows "d' = with_expiry (s_ttl s) (set ks) d"
proof -
  let ?P = "\<lambda>x y. with_expiry (s_ttl s) (set ks) y = with_expiry (s_ttl s) (set ks) x"
  have "\<exists>d1. ?P d d1 \<and> pipe_pass (map (touch_cmd s) ks) rs d1 d'"
    using assms(1)
  proof (rule pipe_outcome_last [where P = ?P])
    fix c x y assume "c \<in> set (map (touch_cmd s) ks)" "applied c x y"
    then obtain k where "k \<in> set ks" "y = with_expiry (s_ttl s) {k} x" by (auto simp: applied_def dest: touch_effect)
    then show "?P x y" by (simp add: with_expiry_again)
  qed auto
  then obtain d1 where d1: "?P d d1" "pipe_pass (map (touch_cmd s) ks) rs d1 d'" by blast
  from pipe_pass_touch [OF d1(2) assms(2)] d1(1) show ?thesis by simp
qed

lemma concat_map_map: "concat (map (\<lambda>a. map f (g a)) as) = map f (concat (map g as))"
  by (induction as) auto

text \<open>
  C34. A successful \<open>Touch\<close> gives every existing key of every listed word the configured expiry, removing
  any expiry when none is configured, and changes nothing else: no value, no other key, and a key that
  does not exist is not created.
\<close>

theorem Touch_sets_every_expiry:
  assumes "redis_contract cl view" "Touch cl s w as = (w', None)"
  shows "view w' k = (if k \<in> (\<Union>a\<in>set as. set (keys s a))
      then map_option (\<lambda>e. e\<lparr>e_exp := expiry (s_ttl s)\<rparr>) (view w k) else view w k)"
proof (cases "as = []")
  case False
  let ?p = "concat (map (\<lambda>a. map (touch_cmd s) (keys s a)) as)"
  obtain w1 err rs where x: "rdb_exec cl w ?p = (w1, err, rs)" by (cases "rdb_exec cl w ?p") auto
  with False assms(2) have w1: "w1 = w'" and e: "err = None" by (auto simp: Touch_def split: option.split_asm)
  have o: "pipe_outcome (map (touch_cmd s) (concat (map (keys s) as))) rs (view w) (view w')"
    using redis_contractD(2) [OF assms(1) x] by (simp add: w1 concat_map_map)
  have "first_error rs = None" using redis_contractD(3) [OF assms(1) x] e by simp
  from pipe_outcome_touch [OF o this] show ?thesis by (simp add: with_expiry_def)
qed (use assms(2) in \<open>simp add: Touch_def\<close>)

definition stored :: "int \<Rightarrow> int64 option \<Rightarrow> entry" where
  "stored n ex = \<lparr>e_val = SVal (itoa n), e_exp = ex\<rparr>"

definition counted :: server where
  "counted = \<lparr>sv_db = [CounterKey ''web01'' ''a'' \<mapsto> stored 5 None], sv_faults = []\<rparr>"

lemma Touch_sets_every_expiry_witness:
  "sv_db (fst (Touch server_client web_store counted [''a''])) (CounterKey ''web01'' ''a'') =
     Some (stored 5 (Some (s_ttl web_store)))"
proof -
  obtain w' r where t: "Touch server_client web_store counted [''a''] = (w', r)" by fastforce
  have "snd (Touch server_client web_store counted [''a'']) = None" by code_simp
  with t have t': "Touch server_client web_store counted [''a''] = (w', None)" by simp
  have h: "s_host web_store = ''web01''" "expiry (s_ttl web_store) = Some (s_ttl web_store)" by code_simp+
  then have k: "CounterKey ''web01'' ''a'' \<in> set (keys web_store ''a'')" by (simp add: keys_def)
  show ?thesis
    using Touch_sets_every_expiry [OF server_contract t', of "CounterKey ''web01'' ''a''"] k h(2) t
    by (simp add: counted_def stored_def)
qed

subsection \<open>Adding to a counter\<close>

text \<open>The entry of a counter after \<open>n\<close> was added to it, before its expiry is renewed.\<close>

definition entry_exp :: "entry option \<Rightarrow> int64 option" where
  "entry_exp e = (case e of None \<Rightarrow> None | Some e \<Rightarrow> e_exp e)"

lemma IncrBy_entry:
  assumes "redis_effect (IncrBy (CounterKey h a) n) d = Some (d', x)"
  shows "d' = d(CounterKey h a \<mapsto> stored (counter_value h d' a) (entry_exp (d (CounterKey h a))))"
proof -
  have "d' = d(CounterKey h a \<mapsto> stored (counter_value h d a + sint n) (entry_exp (d (CounterKey h a))))"
  proof (cases "d (CounterKey h a)")
    case None
    with assms show ?thesis by (simp add: counter_value_def stored_def entry_exp_def)
  next
    case (Some e)
    with assms show ?thesis
      by (cases e) (auto simp: counter_value_def stored_def entry_exp_def Let_def
          split: option.split_asm if_split_asm)
  qed
  then show ?thesis unfolding IncrBy_value(1) [OF assms] .
qed

lemma sle_zero_iff: "(x :: int64) \<le>s 0 \<longleftrightarrow> \<not> 0 <s x"
  by (simp add: word_sle_eq word_sless_alt not_less)

lemma cmd_outcome_IncrBy_entry:
  assumes "cmd_outcome (IncrBy (CounterKey h a) n) (Inr x) d d'"
  shows "d' = d(CounterKey h a \<mapsto> stored (counter_value h d' a) (entry_exp (d (CounterKey h a))))"
proof -
  let ?k = "CounterKey h a"
  let ?P = "\<lambda>x y. (\<forall>k. k \<noteq> ?k \<longrightarrow> y k = x k) \<and> entry_exp (y ?k) = entry_exp (x ?k)"
  from assms obtain d1 where d1: "(applied (IncrBy ?k n))\<^sup>*\<^sup>* d d1" "redis_effect (IncrBy ?k n) d1 = Some (d', x)"
    by (auto simp: cmd_outcome_def simp del: redis_effect.simps)
  have "?P d d1"
  proof (rule star_keeps [OF d1(1), of ?P])
    fix x y assume "applied (IncrBy ?k n) x y"
    then obtain z where "redis_effect (IncrBy ?k n) x = Some (y, z)" by (auto simp: applied_def)
    from IncrBy_entry [OF this] obtain m where "y = x(?k \<mapsto> stored m (entry_exp (x ?k)))" by blast
    then show "?P x y" by (simp add: stored_def entry_exp_def)
  qed auto
  then show ?thesis by (subst IncrBy_entry [OF d1(2)]) (auto simp: fun_eq_iff)
qed

lemma incr_pipe_pass_entry:
  assumes "cmd_pass (IncrBy (CounterKey h a) n) (Inr x) d d1" "cmd_pass (Expire (CounterKey h a) ttl) (Inr y) d1 d'"
  shows "d' = d(CounterKey h a \<mapsto> stored (counter_value h d' a) (Some ttl))"
proof -
  from assms(1) have e: "redis_effect (IncrBy (CounterKey h a) n) d = Some (d1, x)" by (simp add: cmd_pass_def)
  have "d' = d(CounterKey h a \<mapsto> stored (counter_value h d1 a) (Some ttl))"
    using assms(2) by (subst (asm) IncrBy_entry [OF e]) (simp add: cmd_pass_def stored_def)
  then show ?thesis unfolding Expire_counter_value [OF assms(2)] .
qed

text \<open>
  C32. A successful \<open>Incr\<close> adds the increment at least once, exactly once under clean failures, returns the
  count it leaves, and renews the expiry in the same round trip when one is configured. It changes no
  other key.
\<close>

theorem Incr_adds_and_renews:
  assumes "redis_contract cl view" "Incr cl s w a d = (w', Inr n)"
  shows "(\<exists>k. 1 \<le> k \<and> added k d (counter_value (s_host s) (view w) a) (sint n) \<and>
      (clean_failures cl view \<longrightarrow> k = 1)) \<and>
    view w' = (view w)(CounterKey (s_host s) a \<mapsto>
      stored (sint n) (if 0 <s s_ttl s then Some (s_ttl s) else entry_exp (view w (CounterKey (s_host s) a))))"
proof -
  let ?k = "CounterKey (s_host s) a"
  from Incr_val [OF assms] obtain k where
    k: "added k d (counter_value (s_host s) (view w) a) (counter_value (s_host s) (view w') a)"
    and k1: "\<forall>m. Inr n = (Inr m :: goerr + int64) \<longrightarrow> 1 \<le> k \<and> sint m = counter_value (s_host s) (view w') a"
    by blast
  from k1 have "1 \<le> k" and n: "counter_value (s_host s) (view w') a = sint n" by simp_all
  moreover from k n have "added k d (counter_value (s_host s) (view w) a) (sint n)" by simp
  moreover have "added 1 d (counter_value (s_host s) (view w) a) (sint n)" if "clean_failures cl view"
    using Incr_clean [OF assms(1) that assms(2)] n by simp
  ultimately have v: "\<exists>k. 1 \<le> k \<and> added k d (counter_value (s_host s) (view w) a) (sint n) \<and>
      (clean_failures cl view \<longrightarrow> k = 1)"
    by (cases "clean_failures cl view") (auto intro: exI [of _ 1])
  show ?thesis
  proof (cases "s_ttl s \<le>s 0")
    case True
    obtain rr where x: "rdb_do cl w (IncrBy ?k d) = (w', rr)" and "rr = Inr (RInt n)"
      by (rule Incr_single [OF assms(1) True assms(2)]) auto
    with redis_contractD(1) [OF assms(1) x] have "cmd_outcome (IncrBy ?k d) (Inr (RInt n)) (view w) (view w')" by simp
    from cmd_outcome_IncrBy_entry [OF this] True n v show ?thesis by (simp add: sle_zero_iff)
  next
    case False
    from Incr_pipe [OF assms(1) False assms(2)] obtain ri re d0 d1 x where
      s: "(some_pass (incr_pipe s a d))\<^sup>*\<^sup>* (view w) d0"
      and o: "cmd_pass (IncrBy ?k d) (Inr (RInt n)) d0 d1" "cmd_pass (Expire ?k (s_ttl s)) (Inr x) d1 (view w')"
      by (metis Inl_Inr_False Inr_inject)
    have fr: "view w' j = view w j" if "j \<noteq> ?k" for j using Incr_frame [OF assms that] .
    have "view w' ?k = Some (stored (sint n) (Some (s_ttl s)))"
      using incr_pipe_pass_entry [OF o] n by (metis fun_upd_same)
    with fr have "view w' = (view w)(?k \<mapsto> stored (sint n) (Some (s_ttl s)))" by (auto simp: fun_eq_iff)
    with False v show ?thesis by (simp add: sle_zero_iff)
  qed
qed

lemma Incr_adds_and_renews_witness:
  "sv_db (fst (Incr server_client web_store counted ''a'' 2)) (CounterKey ''web01'' ''a'') =
     Some (stored 7 (Some (s_ttl web_store)))"
proof -
  obtain w' r where t: "Incr server_client web_store counted ''a'' 2 = (w', r)" by fastforce
  have "snd (Incr server_client web_store counted ''a'' 2) = Inr 7" by code_simp
  with t have t': "Incr server_client web_store counted ''a'' 2 = (w', Inr 7)" by simp
  have h: "s_host web_store = ''web01''" "0 <s s_ttl web_store" by code_simp+
  have "sv_db w' (CounterKey ''web01'' ''a'') = Some (stored (sint (7 :: int64)) (Some (s_ttl web_store)))"
    using Incr_adds_and_renews [OF server_contract t'] h by simp
  with t show ?thesis by simp
qed


subsection \<open>Zeroing a counter\<close>

lemma cmd_outcome_SetKey:
  assumes "cmd_outcome (SetKey k v ttl) r d d'"
  shows "case r of Inr x \<Rightarrow> d' = d(k \<mapsto> set_entry v ttl) | Inl e \<Rightarrow> d' = d \<or> d' = d(k \<mapsto> set_entry v ttl)"
  using cmd_outcome_once [OF assms] by (cases r) (auto simp: applied_def)

lemma SetHeartbeat_sets:
  assumes "redis_contract cl view" "SetHeartbeat cl s w a n ts = (w', r)"
  shows "r = None \<Longrightarrow> view w' = (if s_heartbeat s
      then (view w)(HeartbeatKey (s_host s) a \<mapsto> set_entry (FormatHeartbeat (s_host s) ts a n) (s_ttl s)) else view w)"
    and "k \<noteq> HeartbeatKey (s_host s) a \<Longrightarrow> view w' k = view w k"
    and "\<not> s_heartbeat s \<Longrightarrow> r = None"
proof -
  let ?c = "SetKey (HeartbeatKey (s_host s) a) (FormatHeartbeat (s_host s) ts a n) (s_ttl s)"
  obtain w1 r1 where x: "rdb_do cl w ?c = (w1, r1)" by fastforce
  from cmd_outcome_SetKey [OF redis_contractD(1) [OF assms(1) x]] x assms(2)
  show "r = None \<Longrightarrow> view w' = (if s_heartbeat s
      then (view w)(HeartbeatKey (s_host s) a \<mapsto> set_entry (FormatHeartbeat (s_host s) ts a n) (s_ttl s)) else view w)"
    and "k \<noteq> HeartbeatKey (s_host s) a \<Longrightarrow> view w' k = view w k" and "\<not> s_heartbeat s \<Longrightarrow> r = None"
    by (auto simp: SetHeartbeat_def reply_err_def split: if_split_asm sum.split_asm)
qed

text \<open>
  C33. A successful reset leaves the counter at zero and, when heartbeats are kept, a heartbeat of zero
  lines, both with the configured expiry and nothing else changed; after a failed one the counter holds
  its old entry or zero, and no key of another word was touched.
\<close>

theorem Reset_zeroes_exactly:
  assumes "redis_contract cl view" "Store_Reset cl s w a ts = (w', r)"
  shows "case r of
      None \<Rightarrow> view w' = (let d = (view w)(CounterKey (s_host s) a \<mapsto> set_entry ''0'' (s_ttl s)) in
        if s_heartbeat s
        then d(HeartbeatKey (s_host s) a \<mapsto> set_entry (FormatHeartbeat (s_host s) ts a 0) (s_ttl s)) else d)
    | Some e \<Rightarrow>
        view w' (CounterKey (s_host s) a) \<in> {view w (CounterKey (s_host s) a), Some (set_entry ''0'' (s_ttl s))} \<and>
        (\<forall>k. k \<notin> set (keys s a) \<longrightarrow> view w' k = view w k)"
proof -
  let ?c = "CounterKey (s_host s) a" and ?h = "HeartbeatKey (s_host s) a"
  obtain w1 r1 where x1: "rdb_do cl w (SetKey ?c ''0'' (s_ttl s)) = (w1, r1)" by fastforce
  note z = cmd_outcome_SetKey [OF redis_contractD(1) [OF assms(1) x1]]
  show ?thesis
  proof (cases r1)
    case (Inl e)
    with x1 assms(2) have "w' = w1" "r \<noteq> None" by (auto simp: Store_Reset_def reply_err_def)
    with z Inl show ?thesis by (auto simp: keys_def)
  next
    case (Inr y)
    with z have w1: "view w1 = (view w)(?c \<mapsto> set_entry ''0'' (s_ttl s))" by simp
    from Inr x1 assms(2) have "SetHeartbeat cl s w1 a 0 ts = (w', r)" by (simp add: Store_Reset_def reply_err_def)
    note H = SetHeartbeat_sets [OF assms(1) this]
    show ?thesis
    proof (cases r)
      case None
      with H(1) w1 show ?thesis by (simp add: Let_def)
    next
      case (Some e)
      with H(2,3) w1 show ?thesis by (auto simp: keys_def)
    qed
  qed
qed

lemma Reset_zeroes_exactly_witness:
  "sv_db (fst (Store_Reset server_client web_store counted ''a'' noon)) =
     (sv_db counted)(CounterKey ''web01'' ''a'' \<mapsto> set_entry ''0'' (s_ttl web_store),
       HeartbeatKey ''web01'' ''a'' \<mapsto> set_entry (FormatHeartbeat ''web01'' noon ''a'' 0) (s_ttl web_store))"
proof -
  obtain w' r where t: "Store_Reset server_client web_store counted ''a'' noon = (w', r)" by fastforce
  have "snd (Store_Reset server_client web_store counted ''a'' noon) = None" by code_simp
  with t have r: "r = None" by simp
  have h: "s_host web_store = ''web01''" "s_heartbeat web_store" by code_simp+
  show ?thesis using Reset_zeroes_exactly [OF server_contract t] r t h by (simp add: Let_def)
qed

subsection \<open>Every operation stays within its keys\<close>

lemma Touch_frame:
  assumes "redis_contract cl view" "Touch cl s w as = (w', r)" "k \<notin> (\<Union>a\<in>set as. set (keys s a))"
  shows "view w' k = view w k"
proof (cases "as = []")
  case False
  let ?p = "concat (map (\<lambda>a. map (touch_cmd s) (keys s a)) as)"
  obtain w1 err rs where x: "rdb_exec cl w ?p = (w1, err, rs)" by (cases "rdb_exec cl w ?p") auto
  with False assms(2) have "w1 = w'" by (auto simp: Touch_def split: option.split_asm)
  moreover have "k \<notin> (\<Union>c\<in>set ?p. cmd_keys c)" using assms(3) by (auto simp: touch_cmd_facts)
  ultimately show ?thesis using pipe_outcome_frame [OF redis_contractD(2) [OF assms(1) x]] by simp
qed (use assms(2) in \<open>simp add: Touch_def\<close>)

lemma SetHeartbeat_frame:
  assumes "redis_contract cl view" "SetHeartbeat cl s w a n ts = (w', r)" "k \<notin> set (keys s a)"
  shows "view w' k = view w k"
proof (cases "s_heartbeat s")
  case True
  with assms(3) show ?thesis by (intro SetHeartbeat_sets(2) [OF assms(1,2)]) (simp add: keys_def)
qed (use assms(2) in \<open>simp add: SetHeartbeat_def\<close>)

lemma Store_Reset_frame:
  assumes "redis_contract cl view" "Store_Reset cl s w a ts = (w', r)" "k \<notin> set (keys s a)"
  shows "view w' k = view w k"
proof -
  from Store_Reset_cases [OF assms(2)] obtain w1 rr where
    x: "rdb_do cl w (SetKey (CounterKey (s_host s) a) ''0'' (s_ttl s)) = (w1, rr)"
    and r: "(\<exists>e err. rr = Inl e \<and> w' = w1 \<and> r = Some err) \<or>
            (\<exists>x. rr = Inr x \<and> SetHeartbeat cl s w1 a 0 ts = (w', r))" .
  have "k \<noteq> CounterKey (s_host s) a" using assms(3) by (auto simp: keys_def split: if_split_asm)
  then have "view w1 k = view w k"
    using cmd_outcome_frame [OF redis_contractD(1) [OF assms(1) x], of k] by simp
  with r show ?thesis using SetHeartbeat_frame [OF assms(1) _ assms(3)] by auto
qed

text \<open>
  No operation of the store writes a key that it does not maintain, whatever its outcome: a key outside
  \<open>keys\<close> of the words it is called with keeps its entry. With \<open>heartbeat_key: no\<close> that is every
  heartbeat key.
\<close>

theorem operations_stay_within_their_keys:
  assumes "redis_contract cl view" "k \<notin> (\<Union>a\<in>set as. set (keys s a))" "a \<in> set as"
  shows "view (fst (Init cl s w as ts)) k = view w k \<and> view (fst (Touch cl s w as)) k = view w k \<and>
    view (fst (Incr cl s w a d)) k = view w k \<and> view (fst (SetHeartbeat cl s w a n ts)) k = view w k \<and>
    view (fst (Store_Reset cl s w a ts)) k = view w k"
proof -
  have ka: "k \<notin> set (keys s a)" and kc: "k \<noteq> CounterKey (s_host s) a"
    using assms(2,3) by (auto simp: keys_def split: if_split_asm)
  have "view (fst (Init cl s w as ts)) k = view w k"
    using Init_keeps [OF assms(1), of s w as ts] assms(2) by (metis prod.collapse)
  moreover have "view (fst (Touch cl s w as)) k = view w k"
    using Touch_frame [OF assms(1) _ assms(2)] by (metis prod.collapse)
  moreover have "view (fst (Incr cl s w a d)) k = view w k"
    using Incr_frame [OF assms(1) _ kc] by (metis prod.collapse)
  moreover have "view (fst (SetHeartbeat cl s w a n ts)) k = view w k"
    using SetHeartbeat_frame [OF assms(1) _ ka] by (metis prod.collapse)
  moreover have "view (fst (Store_Reset cl s w a ts)) k = view w k"
    using Store_Reset_frame [OF assms(1) _ ka] by (metis prod.collapse)
  ultimately show ?thesis by blast
qed

definition quiet_store :: store where
  "quiet_store = \<lparr>s_host = ''web01'', s_heartbeat = False, s_ttl = 0\<rparr>"

lemma operations_stay_within_their_keys_witness:
  "sv_db (fst (SetHeartbeat server_client quiet_store counted ''a'' 3 noon)) (HeartbeatKey ''web01'' ''a'') = None"
proof -
  have "HeartbeatKey ''web01'' ''a'' \<notin> (\<Union>a\<in>set [''a'']. set (keys quiet_store a))" by code_simp
  from operations_stay_within_their_keys [OF server_contract this, of "''a''" counted noon 0 3]
  show ?thesis by (simp add: counted_def)
qed


subsection \<open>Reading the counters\<close>

text \<open>
  \<open>Counters\<close> changes nothing. If the server answers, the result has exactly the readable words (a
  missing key is absent, never an invented zero), an error names an unreadable key and is not an outage;
  without an answer the result is empty with an error.
\<close>

theorem Counters_reads_every_word:
  assumes "redis_contract cl view" "Counters cl s w as = (w', out, err)"
  shows "view w' = view w \<and>
    (if redis_answers (cl, view) s w as
     then (\<forall>a. map_of out a = (if a \<in> set as then readable (s_host s) (view w) a else None)) \<and>
       (err = None \<longleftrightarrow> (\<forall>a\<in>set as. \<not> malformed (s_host s) (view w) a)) \<and> \<not> IsUnavailable err
     else out = [] \<and> err \<noteq> None)"
  using assms(1)
  by (rule Counters_cases [OF _ assms(2)]) (auto simp add: redis_answers_def malformed_not_unavailable)

definition mixed :: server where
  "mixed = \<lparr>sv_db = [CounterKey ''web01'' ''a'' \<mapsto> stored 5 None,
      CounterKey ''web01'' ''b'' \<mapsto> \<lparr>e_val = SVal ''five'', e_exp = None\<rparr>], sv_faults = []\<rparr>"

lemma Counters_reads_every_word_witness:
  "\<exists>w' out err. Counters server_client web_store mixed [''a'', ''b'', ''c''] = (w', out, err) \<and>
     map_of out ''a'' = Some 5 \<and> map_of out ''b'' = None \<and> map_of out ''c'' = None \<and> err \<noteq> None \<and> \<not> IsUnavailable err"
proof -
  obtain w' out err where c: "Counters server_client web_store mixed [''a'', ''b'', ''c''] = (w', out, err)"
    by (metis prod_cases3)
  have "redis_answers (server_client, sv_db) web_store mixed [''a'', ''b'', ''c'']" by code_simp
  note P = Counters_reads_every_word [OF server_contract c, unfolded if_P [OF this]]
  have v: "readable (s_host web_store) (sv_db mixed) ''a'' = Some 5"
    "readable (s_host web_store) (sv_db mixed) ''b'' = None"
    "readable (s_host web_store) (sv_db mixed) ''c'' = None"
    "malformed (s_host web_store) (sv_db mixed) ''b''" by code_simp+
  from P have m: "\<forall>a. map_of out a = (if a \<in> set [''a'', ''b'', ''c''] then readable (s_host web_store) (sv_db mixed) a else None)"
    and e: "err \<noteq> None" "\<not> IsUnavailable err" using v(4) by auto
  from m have "map_of out ''a'' = Some 5" "map_of out ''b'' = None" "map_of out ''c'' = None"
    using v(1-3) by auto
  with c e show ?thesis by blast
qed



end
