(* ===== verification/Logging.thy ===== *)
theory Logging
  imports Config Go_Time
begin

section \<open>The logger (internal/logging)\<close>

text \<open>
  Levels are the integers of log/slog with their order. An attribute value is one of the kinds the
  program logs, \<open>Value.Resolve\<close> being the identity on them. \<open>handler\<close> is the struct \<open>handler\<close> without
  its output, which is the separate record \<open>log_output\<close>: the struct \<open>output\<close>, with \<open>writer\<close> for the
  \<open>io.Writer\<close> it writes to. The mutex makes each operation on it one step.
\<close>

subsection \<open>Levels\<close>

datatype level = Level (level_int: int)

instantiation level :: linorder
begin

definition less_eq_level :: "level \<Rightarrow> level \<Rightarrow> bool" where
  "less_eq_level a b = (level_int a \<le> level_int b)"

definition less_level :: "level \<Rightarrow> level \<Rightarrow> bool" where
  "less_level a b = (level_int a < level_int b)"

instance
  by standard (auto simp: less_eq_level_def less_level_def level.expand)

end

abbreviation "LevelDebug \<equiv> Level (- 4)"
abbreviation "LevelInfo \<equiv> Level 0"
abbreviation "LevelWarn \<equiv> Level 4"
abbreviation "LevelError \<equiv> Level 8"

definition ParseLevel :: "unicode \<Rightarrow> string \<Rightarrow> goerr + level" where
  "ParseLevel uc name =
     (let l = ToLower uc (TrimSpace name) in
      if l = ''debug'' then Inr LevelDebug
      else if l = ''info'' then Inr LevelInfo
      else if l = ''warn'' \<or> l = ''warning'' then Inr LevelWarn
      else if l = ''error'' then Inr LevelError
      else Inl (Errorf ''logging.level must be one of %s, got %q'' [AS (join ''/'' Levels), AS name] None))"

definition levelName :: "level \<Rightarrow> string" where
  "levelName l =
     (if l < LevelInfo then ''DEBUG''
      else if l < LevelWarn then ''INFO''
      else if l < LevelError then ''WARN''
      else ''ERROR'')"

subsection \<open>Attributes\<close>

datatype attr_value =
    VNone
  | VString string
  | VInt int64
  | VBool bool
  | VDuration int64
  | VError goerr
  | VStrings "string list"
  | VGroup "(string \<times> attr_value) list"

type_synonym attr = "string \<times> attr_value"

text \<open>A call of a logger: the level, the message and the attributes.\<close>

type_synonym log_call = "level \<times> string \<times> attr list"

text \<open>\<open>Value.String\<close>\<close>

fun value_string :: "unicode \<Rightarrow> attr_value \<Rightarrow> string" where
  "value_string uc VNone = ''<nil>''"
| "value_string uc (VString s) = s"
| "value_string uc (VInt n) = itoa (sint n)"
| "value_string uc (VBool b) = (if b then ''true'' else ''false'')"
| "value_string uc (VDuration d) = Duration_String d"
| "value_string uc (VError e) = err_msg uc e"
| "value_string uc (VStrings ss) = ''['' @ join '' '' ss @ '']''"
| "value_string uc (VGroup as) = []"

definition quote :: "unicode \<Rightarrow> string \<Rightarrow> string" where
  "quote uc s =
     (if s = [] then [CHR 0x22, CHR 0x22]
      else if ContainsAny s [CHR '' '', CHR 0x09, CHR 0x0A, CHR 0x22, CHR ''=''] then Quote uc s
      else s)"

fun appendAttr :: "unicode \<Rightarrow> string list \<Rightarrow> string \<Rightarrow> attr_value \<Rightarrow> string" where
  "appendAttr uc groups k (VGroup attrs) =
     (let sub = (if k \<noteq> [] then groups @ [k] else groups) in
      concat (map (\<lambda>(k', v). appendAttr uc sub k' v) attrs))"
| "appendAttr uc groups k v =
     (if k = [] \<and> v = VNone then []
      else '' '' @ concat (map (\<lambda>g. g @ ''.'') groups) @ k @ ''='' @ quote uc (value_string uc v))"

subsection \<open>The handler\<close>

record handler =
  h_level :: level
  h_attrs :: "attr list"
  h_groups :: "string list"

record log_record =
  lr_time :: gotime
  lr_level :: level
  lr_msg :: string
  lr_attrs :: "attr list"

definition Enabled :: "handler \<Rightarrow> level \<Rightarrow> bool" where
  "Enabled h l \<longleftrightarrow> h_level h \<le> l"

definition WithAttrs :: "attr list \<Rightarrow> handler \<Rightarrow> handler" where
  "WithAttrs attrs h = (if attrs = [] then h else h\<lparr>h_attrs := h_attrs h @ attrs\<rparr>)"

definition WithGroup :: "string \<Rightarrow> handler \<Rightarrow> handler" where
  "WithGroup name h = (if name = [] then h else h\<lparr>h_groups := h_groups h @ [name]\<rparr>)"

text \<open>\<open>fmt.Fprintf(&b, "%-5s", s)\<close> of an ASCII string\<close>

definition pad_right :: "nat \<Rightarrow> string \<Rightarrow> string" where
  "pad_right n s = s @ replicate (n - length s) CHR '' ''"

text \<open>The text that \<open>Handle\<close> builds; \<open>now\<close> is read only for a record without a time.\<close>

definition render :: "unicode \<Rightarrow> gotime \<Rightarrow> handler \<Rightarrow> log_record \<Rightarrow> string" where
  "render uc now h r =
     RFC3339 (if IsZero (lr_time r) then now else lr_time r) @ '' '' @
     pad_right 5 (levelName (lr_level r)) @ '' '' @ lr_msg r @
     concat (map (\<lambda>(k, v). appendAttr uc (h_groups h) k v) (h_attrs h)) @
     concat (map (\<lambda>(k, v). appendAttr uc (h_groups h) k v) (lr_attrs r)) @ [CHR 0x0A]"

subsection \<open>The output\<close>

datatype writer = Fd fd | Discard

record log_output =
  o_w :: writer
  o_f :: "fd option"
  o_path :: string

definition Stderr :: writer where "Stderr = Fd 2"

definition output_open :: "'w os \<Rightarrow> 'w \<Rightarrow> log_output \<Rightarrow> 'w \<times> log_output \<times> goerr option" where
  "output_open os w out =
     (case os_open_append os w (o_path out) of
        (w', Inl err) \<Rightarrow> (w', out, Some (Errorf ''open log file %s: %w'' [AS (o_path out)] (Some err)))
      | (w', Inr f) \<Rightarrow> (w', out\<lparr>o_f := Some f, o_w := Fd f\<rparr>, None))"

definition output_write :: "'w os \<Rightarrow> 'w \<Rightarrow> log_output \<Rightarrow> string \<Rightarrow> 'w \<times> goerr option" where
  "output_write os w out p = (case o_w out of Fd f \<Rightarrow> os_write os w f p | Discard \<Rightarrow> (w, None))"

definition output_reopen :: "'w os \<Rightarrow> 'w \<Rightarrow> log_output \<Rightarrow> 'w \<times> log_output \<times> goerr option" where
  "output_reopen os w out =
     (if o_path out = [] then (w, out, None)
      else (case output_open os w out of
              (w', o', Some err) \<Rightarrow> (w', o', Some err)
            | (w', o', None) \<Rightarrow>
                (case o_f out of
                   Some old \<Rightarrow> (case os_close os w' old of (w'', e) \<Rightarrow> (w'', o', e))
                 | None \<Rightarrow> (w', o', None))))"

definition output_close :: "'w os \<Rightarrow> 'w \<Rightarrow> log_output \<Rightarrow> 'w \<times> log_output \<times> goerr option" where
  "output_close os w out =
     (case o_f out of
        None \<Rightarrow> (w, out, None)
      | Some f \<Rightarrow> (case os_close os w f of (w', e) \<Rightarrow> (w', out\<lparr>o_f := None, o_w := Discard\<rparr>, e)))"

subsection \<open>The logger\<close>

record logger =
  lg_handler :: handler
  lg_out :: log_output

definition Logging_New :: "unicode \<Rightarrow> 'w os \<Rightarrow> 'w \<Rightarrow> logging_config \<Rightarrow> 'w \<times> (goerr + logger)" where
  "Logging_New uc os w cfg =
     (case ParseLevel uc (l_level cfg) of
        Inl err \<Rightarrow> (w, Inl err)
      | Inr level \<Rightarrow>
          (let h = \<lparr>h_level = level, h_attrs = [], h_groups = []\<rparr> in
           if l_output cfg = OutputFile then
             (case output_open os w \<lparr>o_w = Discard, o_f = None, o_path = l_file cfg\<rparr> of
                (w', _, Some err) \<Rightarrow> (w', Inl err)
              | (w', out, None) \<Rightarrow> (w', Inr \<lparr>lg_handler = h, lg_out = out\<rparr>))
           else (w, Inr \<lparr>lg_handler = h, lg_out = \<lparr>o_w = Stderr, o_f = None, o_path = []\<rparr>\<rparr>)))"

definition NewWriter :: "fd \<Rightarrow> level \<Rightarrow> logger" where
  "NewWriter f level =
     \<lparr>lg_handler = \<lparr>h_level = level, h_attrs = [], h_groups = []\<rparr>,
      lg_out = \<lparr>o_w = Fd f, o_f = None, o_path = []\<rparr>\<rparr>"

definition Handle :: "unicode \<Rightarrow> gotime \<Rightarrow> 'w os \<Rightarrow> 'w \<Rightarrow> logger \<Rightarrow> log_record \<Rightarrow> 'w \<times> goerr option" where
  "Handle uc now os w lg r = output_write os w (lg_out lg) (render uc now (lg_handler lg) r)"

text \<open>\<open>slog.Logger.Log\<close>: the handler is asked first, its error is dropped.\<close>

definition Log :: "unicode \<Rightarrow> gotime \<Rightarrow> 'w os \<Rightarrow> 'w \<Rightarrow> logger \<Rightarrow> level \<Rightarrow> string \<Rightarrow> attr list \<Rightarrow> 'w" where
  "Log uc now os w lg l msg attrs =
     (if Enabled (lg_handler lg) l
      then fst (Handle uc now os w lg \<lparr>lr_time = now, lr_level = l, lr_msg = msg, lr_attrs = attrs\<rparr>)
      else w)"

definition Reopen :: "'w os \<Rightarrow> 'w \<Rightarrow> logger \<Rightarrow> 'w \<times> logger \<times> goerr option" where
  "Reopen os w lg = (case output_reopen os w (lg_out lg) of (w', out, e) \<Rightarrow> (w', lg\<lparr>lg_out := out\<rparr>, e))"

definition Close :: "'w os \<Rightarrow> 'w \<Rightarrow> logger \<Rightarrow> 'w \<times> logger \<times> goerr option" where
  "Close os w lg = (case output_close os w (lg_out lg) of (w', out, e) \<Rightarrow> (w', lg\<lparr>lg_out := out\<rparr>, e))"

end
