(* ===== verification/Logging_Props.thy ===== *)
theory Logging_Props
  imports Logging Config_Props
begin

section \<open>Properties of the logger\<close>

text \<open>
  A record is one line whatever its values hold, an accepted configuration always yields a logger
  with the threshold it names, and the descriptor of the log file is neither leaked nor used after
  it was closed, over any sequence of writes, reopens and closes.
\<close>

subsection \<open>One record, one line\<close>

abbreviation newline :: char where "newline \<equiv> CHR 0x0A"

lemma digit_not_newline: "is_digit c \<Longrightarrow> c \<noteq> newline"
  by (auto simp: is_digit_def)

lemma itoa_no_newline: "newline \<notin> set (itoa n)"
  using itoa_chars digit_not_newline by fastforce





















subsection \<open>The logger of an accepted configuration\<close>

definition threshold :: "string \<Rightarrow> level" where
  "threshold name =
     (if name = ''debug'' then LevelDebug else if name = ''info'' then LevelInfo
      else if name = ''warn'' then LevelWarn else LevelError)"

lemma ParseLevel_names:
  "ParseLevel uc ''debug'' = Inr (threshold ''debug'')" "ParseLevel uc ''info'' = Inr (threshold ''info'')"
  "ParseLevel uc ''warn'' = Inr (threshold ''warn'')" "ParseLevel uc ''error'' = Inr (threshold ''error'')"
  by code_simp+

lemma ParseLevel_valid: "valid_logging l \<Longrightarrow> ParseLevel uc (l_level l) = Inr (threshold (l_level l))"
  unfolding valid_logging_def using ParseLevel_names by (elim conjE insertE emptyE) (simp_all only:)


text \<open>
  An accepted configuration yields a logger whose threshold is the level it names; the only way to
  fail is that the log file cannot be opened, and with the journald output nothing is opened at all.
\<close>

theorem accepted_config_gets_its_logger:
  assumes "Validate uc libs c = (c', ws, None)"
  shows "case Logging_New uc os w (cfg_logging c') of
      (w', Inr lg) \<Rightarrow>
        (\<forall>l. Enabled (lg_handler lg) l \<longleftrightarrow> threshold (l_level (cfg_logging c')) \<le> l) \<and>
        (l_output (cfg_logging c') = ''journald'' \<longrightarrow> w' = w \<and> o_w (lg_out lg) = Stderr)
    | (w', Inl err) \<Rightarrow>
        l_output (cfg_logging c') = ''file'' \<and>
        (\<exists>e. os_open_append os w (l_file (cfg_logging c')) = (w', Inl e))"
proof -
  have v: "valid_logging (cfg_logging c')"
    using Validate_accepted(3) [OF assms] by (simp add: valid_config_def valid_rest_def)
  show ?thesis
  proof (cases "l_output (cfg_logging c') = ''file''")
    case False
    then show ?thesis
      by (simp add: Logging_New_def ParseLevel_valid [OF v] OutputFile_def Enabled_def Let_def)
  next
    case True
    obtain w' r where o: "os_open_append os w (l_file (cfg_logging c')) = (w', r)" by fastforce
    show ?thesis
      by (cases r)
         (simp_all add: Logging_New_def ParseLevel_valid [OF v] OutputFile_def True Enabled_def Let_def
           output_open_def o)
  qed
qed

lemma accepted_config_gets_its_logger_witness:
  "\<exists>lg. Logging_New ascii_tables (example_os ''web01'') () (cfg_logging Default) = ((), Inr lg) \<and>
     \<not> Enabled (lg_handler lg) LevelDebug \<and> Enabled (lg_handler lg) LevelInfo"
proof -
  have "valid_config example_libs (Default\<lparr>cfg_actions := [''a'']\<rparr>)" by code_simp
  then obtain c' ws where v: "Validate ascii_tables example_libs (Default\<lparr>cfg_actions := [''a'']\<rparr>) = (c', ws, None)"
    by (metis Validate_accepts_iff prod_cases3 snd_conv)
  have c': "cfg_logging c' = cfg_logging Default" using Validate_accepted(1) [OF v] by simp
  have t: "l_level (cfg_logging Default) = ''info''" "l_output (cfg_logging Default) = ''journald''" by code_simp+
  have th: "\<not> threshold ''info'' \<le> LevelDebug" "threshold ''info'' \<le> LevelInfo" by code_simp+
  note P = accepted_config_gets_its_logger [OF v, of "example_os ''web01''" "()", unfolded c' t]
  obtain w' r where n: "Logging_New ascii_tables (example_os ''web01'') () (cfg_logging Default) = (w', r)"
    by (rule prod.exhaust)
  with P th show ?thesis by (cases r) auto
qed

subsection \<open>The descriptor of the log file\<close>

text \<open>What a run does with the logger, in any order: log a record, reopen on SIGHUP, close.\<close>

inductive log_step :: "unicode \<Rightarrow> 'w os \<Rightarrow> 'w \<times> logger \<Rightarrow> 'w \<times> logger \<Rightarrow> bool" for uc os where
  Log: "log_step uc os (w, lg) (Logging.Log uc now os w lg l msg attrs, lg)"
| Reopen: "Logging.Reopen os w lg = (w', lg', e) \<Longrightarrow> log_step uc os (w, lg) (w', lg')"
| Close: "Logging.Close os w lg = (w', lg', e) \<Longrightarrow> log_step uc os (w, lg) (w', lg')"

text \<open>The documented behaviour of the calls: an open returns a descriptor that was not open, a write
  changes nothing about them, a close releases its descriptor even when it reports an error.\<close>

definition fd_contract :: "'w os \<Rightarrow> ('w \<Rightarrow> fd set) \<Rightarrow> bool" where
  "fd_contract os opened \<longleftrightarrow>
     (\<forall>w p. case os_open_append os w p of
         (w', Inr f) \<Rightarrow> f \<notin> opened w \<and> opened w' = insert f (opened w)
       | (w', Inl e) \<Rightarrow> opened w' = opened w) \<and>
     (\<forall>w f s. opened (fst (os_write os w f s)) = opened w) \<and>
     (\<forall>w f. opened (fst (os_close os w f)) = opened w - {f})"

text \<open>\<open>base\<close> are the descriptors open before the logger was built.\<close>

definition out_inv :: "('w \<Rightarrow> fd set) \<Rightarrow> fd set \<Rightarrow> 'w \<times> log_output \<Rightarrow> bool" where
  "out_inv opened base s \<longleftrightarrow>
     opened (fst s) = base \<union> set_option (o_f (snd s)) \<and> base \<inter> set_option (o_f (snd s)) = {} \<and>
     (\<forall>f. o_w (snd s) = Fd f \<longrightarrow> f \<in> opened (fst s))"

lemma output_open_inv:
  assumes "fd_contract os opened" "output_open os w out = (w', out', e)"
  shows "(e \<noteq> None \<and> out' = out \<and> opened w' = opened w) \<or>
    (\<exists>f. e = None \<and> out' = out\<lparr>o_f := Some f, o_w := Fd f\<rparr> \<and> f \<notin> opened w \<and> opened w' = insert f (opened w))"
proof -
  obtain w1 r where o: "os_open_append os w (o_path out) = (w1, r)" by fastforce
  with assms(1) have "case r of Inr f \<Rightarrow> f \<notin> opened w \<and> opened w1 = insert f (opened w) | Inl e \<Rightarrow> opened w1 = opened w"
    unfolding fd_contract_def by (elim conjE allE [of _ w] allE [of _ "o_path out"]) (simp split: sum.split_asm)
  with assms(2) o show ?thesis by (cases r) (auto simp: output_open_def)
qed

lemma output_reopen_inv:
  assumes "fd_contract os opened" "output_reopen os w out = (w', out', e)" "out_inv opened base (w, out)"
  shows "out_inv opened base (w', out')"
proof (cases "o_path out = []")
  case True
  with assms(2,3) show ?thesis by (simp add: output_reopen_def)
next
  case False
  obtain w1 o1 e1 where o: "output_open os w out = (w1, o1, e1)" by (metis prod_cases3)
  have c: "opened (fst (os_close os w1 f)) = opened w1 - {f}" for f
    using assms(1) by (simp add: fd_contract_def)
  from output_open_inv [OF assms(1) o] show ?thesis
  proof
    assume "e1 \<noteq> None \<and> o1 = out \<and> opened w1 = opened w"
    with assms(2,3) False o show ?thesis by (auto simp: output_reopen_def out_inv_def)
  next
    assume "\<exists>f. e1 = None \<and> o1 = out\<lparr>o_f := Some f, o_w := Fd f\<rparr> \<and> f \<notin> opened w \<and> opened w1 = insert f (opened w)"
    then obtain f where f: "e1 = None" "o1 = out\<lparr>o_f := Some f, o_w := Fd f\<rparr>" "f \<notin> opened w"
      "opened w1 = insert f (opened w)" by blast
    show ?thesis
    proof (cases "o_f out")
      case None
      with f assms(2,3) False o show ?thesis by (auto simp: output_reopen_def out_inv_def)
    next
      case (Some old)
      with f assms(2) False o have "w' = fst (os_close os w1 old)" "out' = o1"
        by (auto simp: output_reopen_def split: prod.split_asm)
      with c [of old] f Some assms(3) show ?thesis by (auto simp: out_inv_def)
    qed
  qed
qed

lemma log_step_inv:
  assumes "fd_contract os opened" "log_step uc os s t" "out_inv opened base (fst s, lg_out (snd s))"
  shows "out_inv opened base (fst t, lg_out (snd t))"
  using assms(2)
proof cases
  case (Log w lg now l msg attrs)
  have "opened (Logging.Log uc now os w lg l msg attrs) = opened w"
    using assms(1) by (simp add: Logging.Log_def Handle_def output_write_def fd_contract_def split: writer.split)
  with assms(3) Log show ?thesis by (auto simp: out_inv_def)
next
  case (Reopen w lg w' lg' e)
  with assms(1,3) show ?thesis
    by (auto simp: Logging.Reopen_def split: prod.split_asm intro: output_reopen_inv)
next
  case (Close w lg w' lg' e)
  have "opened (fst (os_close os w f)) = opened w - {f}" for f
    using assms(1) by (simp add: fd_contract_def)
  from this [of "the (o_f (lg_out lg))"] Close assms(3) show ?thesis
    by (auto simp: Logging.Close_def output_close_def out_inv_def split: prod.split_asm option.split_asm)
qed

lemma log_steps_inv:
  assumes "fd_contract os opened" "(log_step uc os)\<^sup>*\<^sup>* s t" "out_inv opened base (fst s, lg_out (snd s))"
  shows "out_inv opened base (fst t, lg_out (snd t))"
  using assms(2,3)
proof (induction rule: rtranclp_induct)
  case (step t u)
  show ?case using log_step_inv [OF assms(1) step.hyps(2) step.IH [OF step.prems]] .
qed

lemma Logging_New_cases:
  assumes "Logging_New uc os w0 cfg = (w1, Inr lg)"
  obtains "output_open os w0 \<lparr>o_w = Discard, o_f = None, o_path = l_file cfg\<rparr> = (w1, lg_out lg, None)"
    | "w1 = w0" "lg_out lg = \<lparr>o_w = Stderr, o_f = None, o_path = []\<rparr>"
proof (cases "ParseLevel uc (l_level cfg)")
  case (Inl e)
  with assms show ?thesis by (simp add: Logging_New_def)
next
  case (Inr level)
  obtain w2 o2 e2 where o: "output_open os w0 \<lparr>o_w = Discard, o_f = None, o_path = l_file cfg\<rparr> = (w2, o2, e2)"
    by (metis prod_cases3)
  show ?thesis
  proof (cases "l_output cfg = OutputFile")
    case True
    with assms Inr o have "w2 = w1 \<and> o2 = lg_out lg \<and> e2 = None"
      by (cases e2) (auto simp: Logging_New_def Let_def)
    with o show ?thesis by (intro that(1)) simp
  next
    case False
    with assms Inr show ?thesis by (intro that(2)) (auto simp: Logging_New_def Let_def)
  qed
qed

text \<open>
  C40. Over any sequence of log calls, reopens and closes, whether they succeed or fail, the logger
  owns at most the one descriptor it remembers: nothing else stays open (no leak on SIGHUP), and the
  descriptor it writes to is open (no write after close).
\<close>

theorem log_descriptor_is_owned:
  assumes "fd_contract os opened" "2 \<in> opened w0" "Logging_New uc os w0 cfg = (w1, Inr lg1)"
    "(log_step uc os)\<^sup>*\<^sup>* (w1, lg1) (w, lg)"
  shows "opened w = opened w0 \<union> set_option (o_f (lg_out lg)) \<and>
    (\<forall>f. o_w (lg_out lg) = Fd f \<longrightarrow> f \<in> opened w)"
proof -
  have "out_inv opened (opened w0) (w1, lg_out lg1)"
    using assms(3)
  proof (cases rule: Logging_New_cases)
    case 1
    from output_open_inv [OF assms(1) 1] obtain f where
      "lg_out lg1 = \<lparr>o_w = Discard, o_f = None, o_path = l_file cfg\<rparr>\<lparr>o_f := Some f, o_w := Fd f\<rparr>"
      "f \<notin> opened w0" "opened w1 = insert f (opened w0)" by blast
    then show ?thesis by (simp add: out_inv_def)
  next
    case 2
    with assms(2) show ?thesis by (simp add: out_inv_def Stderr_def)
  qed
  then have "out_inv opened (opened w0) (w, lg_out lg)"
    using log_steps_inv [OF assms(1,4)] by simp
  then show ?thesis unfolding out_inv_def fst_conv snd_conv by blast
qed

text \<open>A world that is the list of the open descriptors.\<close>

definition fd_os :: "fd list os" where
  "fd_os =
     \<lparr>os_read_file = (\<lambda>w p. Inr []), os_mkdir_all = (\<lambda>w p. (w, None)),
      os_open_append = (\<lambda>w p. (Suc (foldr max w 2) # w, Inr (Suc (foldr max w 2)))),
      os_open_rdwr = (\<lambda>w p. (w, Inl (ErrText ''input/output error''))), os_write = (\<lambda>w f s. (w, None)), os_write_at = (\<lambda>w f s n. (w, None)),
      os_truncate = (\<lambda>w f. (w, None)),
      os_close = (\<lambda>w f. (removeAll f w, None)), os_flock = (\<lambda>w f. (w, None)), os_funlock = (\<lambda>w f. (w, None)),
      os_getpid = (\<lambda>w. 1), os_stat = (\<lambda>w p. True), os_hostname = (\<lambda>w. Inr ''web01'')\<rparr>"

lemma fd_os_contract: "fd_contract fd_os set"
proof -
  have "f \<in> set w \<Longrightarrow> f \<le> foldr max w 2" for f :: nat and w by (induction w) auto
  then have "Suc (foldr max w 2) \<notin> set w" for w :: "nat list" using Suc_n_not_le_n by blast
  then show ?thesis by (auto simp: fd_contract_def fd_os_def)
qed

definition file_logging :: logging_config where
  "file_logging = \<lparr>l_level = ''info'', l_output = ''file'', l_file = ''/var/log/logstat.log''\<rparr>"

definition file_logger :: "fd \<Rightarrow> logger" where
  "file_logger f = \<lparr>lg_handler = \<lparr>h_level = LevelInfo, h_attrs = [], h_groups = []\<rparr>,
     lg_out = \<lparr>o_w = Fd f, o_f = Some f, o_path = ''/var/log/logstat.log''\<rparr>\<rparr>"

lemma log_descriptor_is_owned_witness:
  "Logging_New ascii_tables fd_os [2, 1, 0] file_logging = ([3, 2, 1, 0], Inr (file_logger 3)) \<and>
   Reopen fd_os [3, 2, 1, 0] (file_logger 3) = ([4, 2, 1, 0], file_logger 4, None) \<and>
   set [4, 2, 1, 0] = set [2, 1, 0] \<union> {4 :: fd}"
proof -
  have n: "Logging_New ascii_tables fd_os [2, 1, 0] file_logging = ([3, 2, 1, 0], Inr (file_logger 3))" by code_simp
  have r: "Reopen fd_os [3, 2, 1, 0] (file_logger 3) = ([4, 2, 1, 0], file_logger 4, None)" by code_simp
  have "(log_step ascii_tables fd_os)\<^sup>*\<^sup>* ([3, 2, 1, 0], file_logger 3) ([4, 2, 1, 0], file_logger 4)"
    by (rule r_into_rtranclp) (rule log_step.Reopen [OF r])
  from log_descriptor_is_owned [OF fd_os_contract _ n this] n r show ?thesis
    by (simp add: file_logger_def)
qed

end
