(* ===== verification/Daemon.thy ===== *)
theory Daemon
  imports Counter Store Logging
begin

section \<open>The daemon: flushing, resetting, consuming (internal/daemon)\<close>

text \<open>
  \<open>daemon\<close> is the struct \<open>Daemon\<close> without its channel, which belongs to the theory Run; \<open>d_log\<close> is
  the sequence of calls of the logger. An operation takes the environment (the Redis client, the clock
  as a function of the world, the Unicode tables), the world and the daemon, and returns the world and
  the daemon. Every Redis call runs on a context without the daemon's cancellation, so the context is
  not a parameter.

  The consumer goroutine shares only the counter, under its mutex. Between the \<open>Drain\<close> and the
  \<open>Restore\<close> of a flush nothing else touches the counter, so the lines consumed meanwhile are an
  argument of \<open>Flush\<close> (\<open>arrivals\<close>), consumed before the \<open>Restore\<close>; \<open>restore_process_commute\<close> of the
  buffer's contract is why their exact moment does not matter.
\<close>

record daemon =
  d_cfg :: config
  d_store :: store
  d_cnt :: counter
  d_initialized :: bool
  d_pendingHeartbeats :: "int64 gomap"
  d_pendingResets :: "bool gomap"
  d_redisDown :: bool
  d_started :: gotime
  d_version :: string
  d_metricsAddr :: "string option"
  d_log :: "log_call list"

record 'w denv =
  ev_client :: "'w client"
  ev_now :: "'w \<Rightarrow> gotime"
  ev_uc :: unicode

text \<open>\<open>WithVersion\<close>; \<open>WithCronOptions\<close> only reaches the cron library.\<close>

definition WithVersion :: "string \<Rightarrow> daemon \<Rightarrow> daemon" where
  "WithVersion v d = d\<lparr>d_version := v\<rparr>"

definition Daemon_New :: "'w denv \<Rightarrow> 'w \<Rightarrow> config \<Rightarrow> store \<Rightarrow> (daemon \<Rightarrow> daemon) list \<Rightarrow> daemon" where
  "Daemon_New ev w cfg st opts =
     fold (\<lambda>g d. g d) opts
       \<lparr>d_cfg = cfg, d_store = st,
        d_cnt = Counter_New (ev_uc ev) (cfg_actions cfg) (cfg_case_sensitive cfg),
        d_initialized = False, d_pendingHeartbeats = [], d_pendingResets = [], d_redisDown = False,
        d_started = ev_now ev w, d_version = [], d_metricsAddr = None, d_log = []\<rparr>"

definition MetricsAddr :: "daemon \<Rightarrow> string" where
  "MetricsAddr d = (case d_metricsAddr d of Some addr \<Rightarrow> addr | None \<Rightarrow> [])"

abbreviation d_actions :: "daemon \<Rightarrow> string list" where
  "d_actions d \<equiv> cfg_actions (d_cfg d)"

subsection \<open>Logging\<close>

definition emit :: "level \<Rightarrow> string \<Rightarrow> attr list \<Rightarrow> daemon \<Rightarrow> daemon" where
  "emit l msg attrs d = d\<lparr>d_log := d_log d @ [(l, msg, attrs)]\<rparr>"

definition vlen :: "'a list \<Rightarrow> attr_value" where
  "vlen xs = VInt (of_nat (length xs))"

definition noteRedisError :: "string \<Rightarrow> goerr \<Rightarrow> daemon \<Rightarrow> daemon" where
  "noteRedisError op err d =
     (if errors_Is err ContextCanceled then d
      else if d_redisDown d then
        emit LevelDebug ''redis still unavailable'' [(''op'', VString op), (''error'', VError err)] d
      else
        emit LevelWarn ''redis unavailable, buffering in memory'' [(''op'', VString op), (''error'', VError err)]
          (d\<lparr>d_redisDown := True\<rparr>))"

definition noteRedisOK :: "daemon \<Rightarrow> daemon" where
  "noteRedisOK d =
     (if d_redisDown d then
        emit LevelInfo ''redis is back, buffered increments flushed'' [] (d\<lparr>d_redisDown := False\<rparr>)
      else d)"

subsection \<open>Bootstrap and expiry\<close>

definition ensureInit :: "'w denv \<Rightarrow> 'w \<Rightarrow> daemon \<Rightarrow> 'w \<times> daemon \<times> bool" where
  "ensureInit ev w d =
     (if d_initialized d then (w, d, True)
      else
        (case Init (ev_client ev) (d_store d) w (d_actions d) (ev_now ev w) of
           (w1, Some err) \<Rightarrow> (w1, noteRedisError ''init keys'' err d, False)
         | (w1, None) \<Rightarrow>
             (let d1 = noteRedisOK (d\<lparr>d_initialized := True\<rparr>);
                  d2 = emit LevelInfo ''redis keys initialised''
                         [(''actions'', vlen (d_actions d)),
                          (''ttl'', VDuration (TTLDuration (cfg_redis (d_cfg d))))] d1
              in case Touch (ev_client ev) (d_store d) w1 (d_actions d) of
                   (w2, Some err) \<Rightarrow> (w2, noteRedisError ''refresh ttl'' err d2, True)
                 | (w2, None) \<Rightarrow> (w2, d2, True))))"

definition refreshTTL :: "'w denv \<Rightarrow> 'w \<Rightarrow> daemon \<Rightarrow> 'w \<times> daemon \<times> bool" where
  "refreshTTL ev w d =
     (if s_ttl (d_store d) \<le>s 0 \<or> \<not> d_initialized d then (w, d, False)
      else
        (case Touch (ev_client ev) (d_store d) w (d_actions d) of
           (w1, Some err) \<Rightarrow> (w1, noteRedisError ''refresh ttl'' err d, False)
         | (w1, None) \<Rightarrow> (w1, d, True)))"

subsection \<open>Flushing one word\<close>

text \<open>The result is \<open>written\<close>, \<open>retryDelta\<close> and the error.\<close>

type_synonym flush_result = "bool \<times> bool \<times> goerr option"

text \<open>From the pending heartbeat on: the increment and the heartbeat value.\<close>

definition flush_delta ::
  "'w denv \<Rightarrow> string \<Rightarrow> int64 \<Rightarrow> gotime \<Rightarrow> 'w \<Rightarrow> daemon \<Rightarrow> 'w \<times> daemon \<times> flush_result" where
  "flush_delta ev action delta now w d =
     (let total = mget 0 (d_pendingHeartbeats d) action;
          hasPending = (map_of (d_pendingHeartbeats d) action \<noteq> None) in
      if delta = 0 \<and> \<not> hasPending then (w, d, False, False, None)
      else
        (case (if 0 <s delta then Incr (ev_client ev) (d_store d) w action delta else (w, Inr total)) of
           (w1, Inl err) \<Rightarrow> (w1, d, False, True, Some err)
         | (w1, Inr total) \<Rightarrow>
             (case SetHeartbeat (ev_client ev) (d_store d) w1 action total now of
                (w2, Some err) \<Rightarrow>
                  (w2, d\<lparr>d_pendingHeartbeats := AList.update action total (d_pendingHeartbeats d)\<rparr>,
                   False, False, Some err)
              | (w2, None) \<Rightarrow>
                  (w2, d\<lparr>d_pendingHeartbeats := AList.delete action (d_pendingHeartbeats d)\<rparr>,
                   True, False, None))))"

definition flushAction ::
  "'w denv \<Rightarrow> string \<Rightarrow> int64 \<Rightarrow> gotime \<Rightarrow> 'w \<Rightarrow> daemon \<Rightarrow> 'w \<times> daemon \<times> flush_result" where
  "flushAction ev action delta now w d =
     (if mget False (d_pendingResets d) action then
        (case Store_Reset (ev_client ev) (d_store d) w action now of
           (w1, Some err) \<Rightarrow> (w1, d, False, True, Some err)
         | (w1, None) \<Rightarrow>
             flush_delta ev action delta now w1
               (d\<lparr>d_pendingResets := AList.delete action (d_pendingResets d),
                  d_pendingHeartbeats := AList.delete action (d_pendingHeartbeats d)\<rparr>))
      else flush_delta ev action delta now w d)"

subsection \<open>Flush\<close>

text \<open>The local variables of the loop of \<open>Flush\<close>.\<close>

record flush_vars =
  fv_unwritten :: "int64 gomap"
  fv_written :: nat
  fv_errs :: nat
  fv_unreachable :: bool

definition flush_start :: flush_vars where
  "flush_start = \<lparr>fv_unwritten = [], fv_written = 0, fv_errs = 0, fv_unreachable = False\<rparr>"

text \<open>One iteration of the loop.\<close>

definition flush_one ::
  "'w denv \<Rightarrow> int64 gomap \<Rightarrow> gotime \<Rightarrow> string \<Rightarrow> 'w \<times> daemon \<times> flush_vars \<Rightarrow> 'w \<times> daemon \<times> flush_vars" where
  "flush_one ev deltas now action s =
     (case s of (w, d, v) \<Rightarrow>
      let delta = mget 0 deltas action in
      if fv_unreachable v then
        (w, d, if 0 <s delta then v\<lparr>fv_unwritten := AList.update action delta (fv_unwritten v)\<rparr> else v)
      else
        (case flushAction ev action delta now w d of
           (w1, d1, ok, retryDelta, Some err) \<Rightarrow>
             (let v1 = v\<lparr>fv_errs := fv_errs v + 1\<rparr>;
                  v2 = (if retryDelta \<and> 0 <s delta
                        then v1\<lparr>fv_unwritten := AList.update action delta (fv_unwritten v1)\<rparr> else v1);
                  d2 = noteRedisError ''flush'' err d1
              in if IsUnavailable (Some err) then
                   (w1, emit LevelDebug ''flush stopped early, redis is unreachable'' [(''action'', VString action)] d2,
                    v2\<lparr>fv_unreachable := True\<rparr>)
                 else (w1, d2, v2))
         | (w1, d1, ok, retryDelta, None) \<Rightarrow>
             (w1, d1, if ok then v\<lparr>fv_written := fv_written v + 1\<rparr> else v)))"

definition flush_loop ::
  "'w denv \<Rightarrow> int64 gomap \<Rightarrow> gotime \<Rightarrow> string list \<Rightarrow> 'w \<times> daemon \<times> flush_vars \<Rightarrow> 'w \<times> daemon \<times> flush_vars" where
  "flush_loop ev deltas now actions s = fold (flush_one ev deltas now) actions s"

text \<open>A line, or an error, from the tailer's channel; \<open>consume\<close> is the body of its loop.\<close>

datatype tail_line = Text string | TailErr goerr

definition consume :: "unicode \<Rightarrow> tail_line \<Rightarrow> daemon \<Rightarrow> daemon" where
  "consume uc line d =
     (case line of
        TailErr err \<Rightarrow> emit LevelWarn ''tail error'' [(''error'', VError err)] d
      | Text text \<Rightarrow>
          (case ProcessLine uc text (d_cnt d) of (cnt, ms) \<Rightarrow>
             (let d1 = d\<lparr>d_cnt := cnt\<rparr> in
              if ms \<noteq> [] then
                emit LevelDebug ''line matched'' [(''actions'', VStrings ms), (''line'', VString text)] d1
              else d1)))"

definition consume_all :: "unicode \<Rightarrow> tail_line list \<Rightarrow> daemon \<Rightarrow> daemon" where
  "consume_all uc ls d = fold (consume uc) ls d"

text \<open>The part of \<open>Flush\<close> that has something to write: the loop, the return of what could not be written,
  the refresh of the expiry.\<close>

definition flush_work :: "'w denv \<Rightarrow> tail_line list \<Rightarrow> int64 gomap \<Rightarrow> 'w \<Rightarrow> daemon \<Rightarrow> 'w \<times> daemon" where
  "flush_work ev arrivals deltas w d =
     (case flush_loop ev deltas (ev_now ev w) (d_actions d) (w, d, flush_start) of (w1, d1, v) \<Rightarrow>
      let d2 = consume_all (ev_uc ev) arrivals d1;
          d3 = (if fv_unwritten v \<noteq> [] then d2\<lparr>d_cnt := Restore (fv_unwritten v) (d_cnt d2)\<rparr> else d2)
      in case (if \<not> fv_unreachable v then (case refreshTTL ev w1 d3 of (w2, d4, _) \<Rightarrow> (w2, d4)) else (w1, d3)) of
           (w2, d4) \<Rightarrow>
             (let d5 = (if fv_errs v = 0 then noteRedisOK d4 else d4) in
              (w2, emit LevelDebug ''flush done''
                     [(''actions_written'', VInt (of_nat (fv_written v))), (''errors'', VInt (of_nat (fv_errs v))),
                      (''buffered'', VInt (Pending (d_cnt d5)))] d5)))"

definition Flush :: "'w denv \<Rightarrow> tail_line list \<Rightarrow> 'w \<Rightarrow> daemon \<Rightarrow> 'w \<times> daemon" where
  "Flush ev arrivals w d0 =
     (case ensureInit ev w d0 of
        (w1, d, False) \<Rightarrow>
          (w1, consume_all (ev_uc ev) arrivals
                 (emit LevelDebug ''flush deferred, redis is not reachable'' [(''buffered'', VInt (Pending (d_cnt d)))] d))
      | (w1, d, True) \<Rightarrow>
          (case Drain (d_cnt d) of (cnt, deltas) \<Rightarrow>
           let d1 = d\<lparr>d_cnt := cnt\<rparr> in
           if deltas = [] \<and> d_pendingHeartbeats d1 = [] \<and> d_pendingResets d1 = [] then
             (case refreshTTL ev w1 d1 of (w2, d2, reached) \<Rightarrow>
                (w2, consume_all (ev_uc ev) arrivals
                       (emit LevelDebug ''flush: nothing to do'' [] (if reached then noteRedisOK d2 else d2))))
           else flush_work ev arrivals deltas w1 d1))"

subsection \<open>Reset\<close>

record reset_vars =
  rv_errs :: nat
  rv_unreachable :: bool

text \<open>One iteration of the loop of \<open>Reset\<close>.\<close>

definition reset_one :: "'w denv \<Rightarrow> gotime \<Rightarrow> string \<Rightarrow> 'w \<times> daemon \<times> reset_vars \<Rightarrow> 'w \<times> daemon \<times> reset_vars" where
  "reset_one ev now action s =
     (case s of (w, d, v) \<Rightarrow>
      if rv_unreachable v then
        (w, d\<lparr>d_pendingResets := AList.update action True (d_pendingResets d)\<rparr>, v\<lparr>rv_errs := rv_errs v + 1\<rparr>)
      else
        (case Store_Reset (ev_client ev) (d_store d) w action now of
           (w1, Some err) \<Rightarrow>
             (w1, noteRedisError ''reset'' err (d\<lparr>d_pendingResets := AList.update action True (d_pendingResets d)\<rparr>),
              v\<lparr>rv_errs := rv_errs v + 1, rv_unreachable := IsUnavailable (Some err)\<rparr>)
         | (w1, None) \<Rightarrow>
             (w1, d\<lparr>d_pendingHeartbeats := AList.delete action (d_pendingHeartbeats d),
                    d_pendingResets := AList.delete action (d_pendingResets d)\<rparr>, v)))"

definition reset_loop :: "'w denv \<Rightarrow> gotime \<Rightarrow> string list \<Rightarrow> 'w \<times> daemon \<times> reset_vars \<Rightarrow> 'w \<times> daemon \<times> reset_vars" where
  "reset_loop ev now actions s = fold (reset_one ev now) actions s"

definition Reset :: "'w denv \<Rightarrow> tail_line list \<Rightarrow> 'w \<Rightarrow> daemon \<Rightarrow> 'w \<times> daemon" where
  "Reset ev arrivals w d =
     (case Flush ev arrivals w d of (w1, d1) \<Rightarrow>
      (case reset_loop ev (ev_now ev w1) (d_actions d1) (w1, d1, \<lparr>rv_errs = 0, rv_unreachable = False\<rparr>) of
         (w2, d2, v) \<Rightarrow>
           if rv_errs v = 0 then
             (w2, emit LevelInfo ''counters reset'' [(''actions'', vlen (d_actions d2))] (noteRedisOK d2))
           else
             (w2, emit LevelError ''counters reset incomplete, will retry on next flush''
                    [(''failed'', VInt (of_nat (rv_errs v)))] d2)))"

subsection \<open>Shutdown\<close>

text \<open>
  \<open>drain\<close>: \<open>stopped\<close> is the error of \<open>t.Stop()\<close>, \<open>rest\<close> the lines the consumer still takes before
  its channel is closed and \<open>wg.Wait()\<close> returns. After that no line arrives.
\<close>

definition drain :: "'w denv \<Rightarrow> goerr option \<Rightarrow> tail_line list \<Rightarrow> 'w \<Rightarrow> daemon \<Rightarrow> 'w \<times> daemon" where
  "drain ev stopped rest w d =
     (let d1 = (case stopped of Some err \<Rightarrow> emit LevelWarn ''tail stopped with error'' [(''error'', VError err)] d
                              | None \<Rightarrow> d);
          d2 = consume_all (ev_uc ev) rest d1
      in Flush ev [] w d2)"

subsection \<open>The tailer's own messages\<close>

text \<open>\<open>tailLogger\<close>: \<open>fmt.Sprint\<close> and \<open>fmt.Sprintf\<close> are done by the caller, \<open>Sprintln\<close> adds a newline.\<close>

definition tail_msg :: "level \<Rightarrow> string \<Rightarrow> daemon \<Rightarrow> daemon" where
  "tail_msg l s d = emit l s [(''component'', VString ''tail'')] d"

definition tail_Fatal :: "string \<Rightarrow> daemon \<Rightarrow> daemon" where "tail_Fatal s = tail_msg LevelError s"
definition tail_Fatalln :: "string \<Rightarrow> daemon \<Rightarrow> daemon" where "tail_Fatalln s = tail_msg LevelError (s @ [CHR 0x0A])"
definition tail_Panic :: "string \<Rightarrow> daemon \<Rightarrow> daemon" where "tail_Panic s = tail_msg LevelError s"
definition tail_Panicln :: "string \<Rightarrow> daemon \<Rightarrow> daemon" where "tail_Panicln s = tail_msg LevelError (s @ [CHR 0x0A])"
definition tail_Print :: "string \<Rightarrow> daemon \<Rightarrow> daemon" where "tail_Print s = tail_msg LevelInfo s"
definition tail_Println :: "string \<Rightarrow> daemon \<Rightarrow> daemon" where "tail_Println s = tail_msg LevelInfo (s @ [CHR 0x0A])"

end
