(* ===== verification/Ledger.thy ===== *)
theory Ledger
  imports Daemon
begin

section \<open>The ledger of increments\<close>

text \<open>
  What the operations of the daemon do to the increments: \<open>shown\<close> is what the database counts for a
  word (zero while a reset of the word is still owed) and \<open>held\<close> what is buffered for it. The lemmas
  on one word, on the loop and on the whole flush lead to \<open>Flush_moves\<close>: a flush moves the buffered
  increments of some of the words to the database and leaves the other words as they are.
\<close>

subsection \<open>Frames\<close>

definition fixed :: "daemon \<Rightarrow> config \<times> store \<times> counter \<times> bool \<times> gotime \<times> string \<times> string option" where
  "fixed d = (d_cfg d, d_store d, d_cnt d, d_initialized d, d_started d, d_version d, d_metricsAddr d)"

lemma emit_fields [simp]:
  "fixed (emit l m as d) = fixed d" "d_cfg (emit l m as d) = d_cfg d" "d_store (emit l m as d) = d_store d"
  "d_cnt (emit l m as d) = d_cnt d" "d_initialized (emit l m as d) = d_initialized d"
  "d_pendingHeartbeats (emit l m as d) = d_pendingHeartbeats d"
  "d_pendingResets (emit l m as d) = d_pendingResets d" "d_redisDown (emit l m as d) = d_redisDown d"
  by (simp_all add: emit_def fixed_def)

lemma noteRedisError_fields [simp]:
  "fixed (noteRedisError op e d) = fixed d" "d_cfg (noteRedisError op e d) = d_cfg d"
  "d_store (noteRedisError op e d) = d_store d" "d_cnt (noteRedisError op e d) = d_cnt d"
  "d_initialized (noteRedisError op e d) = d_initialized d"
  "d_pendingHeartbeats (noteRedisError op e d) = d_pendingHeartbeats d"
  "d_pendingResets (noteRedisError op e d) = d_pendingResets d"
  by (simp_all add: noteRedisError_def) (simp add: fixed_def)

lemma noteRedisOK_fields [simp]:
  "fixed (noteRedisOK d) = fixed d" "d_cfg (noteRedisOK d) = d_cfg d" "d_store (noteRedisOK d) = d_store d"
  "d_cnt (noteRedisOK d) = d_cnt d" "d_initialized (noteRedisOK d) = d_initialized d"
  "d_pendingHeartbeats (noteRedisOK d) = d_pendingHeartbeats d"
  "d_pendingResets (noteRedisOK d) = d_pendingResets d"
  by (simp_all add: noteRedisOK_def) (simp add: fixed_def)

lemma fixedD:
  assumes "fixed d' = fixed d"
  shows "d_cfg d' = d_cfg d" "d_store d' = d_store d" "d_cnt d' = d_cnt d" "d_initialized d' = d_initialized d"
  using assms by (simp_all add: fixed_def)

primrec texts :: "tail_line list \<Rightarrow> string list" where
  "texts [] = []"
| "texts (l # ls) = (case l of Text s \<Rightarrow> s # texts ls | TailErr e \<Rightarrow> texts ls)"

lemma consume_fields [simp]:
  "d_cfg (consume uc l d) = d_cfg d" "d_store (consume uc l d) = d_store d"
  "d_initialized (consume uc l d) = d_initialized d"
  "d_pendingHeartbeats (consume uc l d) = d_pendingHeartbeats d"
  "d_pendingResets (consume uc l d) = d_pendingResets d" "d_redisDown (consume uc l d) = d_redisDown d"
  "d_cnt (consume uc l d) = (case l of Text s \<Rightarrow> fst (ProcessLine uc s (d_cnt d)) | TailErr e \<Rightarrow> d_cnt d)"
  by (simp_all add: consume_def Let_def split: tail_line.split prod.split)

lemma consume_all_fields [simp]:
  "d_cfg (consume_all uc ls d) = d_cfg d" "d_store (consume_all uc ls d) = d_store d"
  "d_initialized (consume_all uc ls d) = d_initialized d"
  "d_pendingHeartbeats (consume_all uc ls d) = d_pendingHeartbeats d"
  "d_pendingResets (consume_all uc ls d) = d_pendingResets d" "d_redisDown (consume_all uc ls d) = d_redisDown d"
  "d_cnt (consume_all uc ls d) = ProcessLines uc (texts ls) (d_cnt d)"
  unfolding consume_all_def by (induction ls arbitrary: d) (auto split: tail_line.split)

subsection \<open>The two sides of the ledger\<close>

definition env_of :: "'w denv \<Rightarrow> ('w \<Rightarrow> db) \<Rightarrow> 'w redis_env" where
  "env_of ev view = (ev_client ev, view)"

definition shown :: "('w \<Rightarrow> db) \<Rightarrow> 'w \<Rightarrow> daemon \<Rightarrow> string \<Rightarrow> int" where
  "shown view w d a =
     (if mget False (d_pendingResets d) a then 0 else counter_value (s_host (d_store d)) (view w) a)"

definition held :: "daemon \<Rightarrow> string \<Rightarrow> int" where
  "held d a = sint (buffered (d_cnt d) a)"

lemma env_facts: "fst (env_of ev view) = ev_client ev" "snd (env_of ev view) = view"
  "env_val (env_of ev view) s w a = counter_value (s_host s) (view w) a"
  by (simp_all add: env_of_def env_val_def)

text \<open>
  What writing \<open>dl\<close> for a word may leave: all of it is counted, or the word keeps \<open>dl\<close> to retry
  (\<open>keep\<close>). It may have been counted several times in the first case, and nevertheless in the second,
  unless failures are clean.
\<close>

definition moved :: "bool \<Rightarrow> int \<Rightarrow> bool \<Rightarrow> int \<Rightarrow> int \<Rightarrow> bool" where
  "moved clean dl keep x y \<longleftrightarrow>
     (\<exists>k. y = x + int k * dl \<and> (if clean then k = (if keep then 0 else 1) else keep \<or> 1 \<le> k))"

lemma moved_zero [simp]: "moved clean 0 keep x y \<longleftrightarrow> y = x"
  by (auto simp: moved_def)

lemma moved_none [simp]: "moved clean dl True x x"
  unfolding moved_def by (rule exI [of _ 0]) simp

lemma moved_once [simp]: "moved clean dl False x (x + dl)"
  unfolding moved_def by (rule exI [of _ 1]) simp

lemma moved_clean: "moved True h k x y \<longleftrightarrow> y = (if k then x else x + h)"
  by (simp add: moved_def)

lemma moved_le:
  assumes "moved clean h keep x y" "0 \<le> h"
  shows "x + (if keep then 0 else h) \<le> y"
proof -
  from assms(1) obtain k where k: "y = x + int k * h" "keep \<or> 1 \<le> k" by (auto simp: moved_def split: if_split_asm)
  show ?thesis
  proof (cases keep)
    case False
    with k(2) assms(2) have "1 * h \<le> int k * h" by (intro mult_right_mono) simp_all
    with False k(1) show ?thesis by simp
  qed (use k(1) assms(2) in simp)
qed

text \<open>The laws of the store's contract, for the client and the view of the daemon's environment.\<close>

lemma Incr_moved:
  assumes "env_good (env_of ev view)" "Incr (ev_client ev) s w a dl = (w', r)"
  shows "moved (env_clean (env_of ev view)) (sint dl) (\<exists>e. r = Inl e)
    (counter_value (s_host s) (view w) a) (counter_value (s_host s) (view w') a)"
proof (cases "env_clean (env_of ev view)")
  case True
  from cs.incr_clean [OF assms(1) this, unfolded env_facts, OF assms(2)] True show ?thesis
    by (cases r) (simp_all add: moved_clean)
next
  case False
  show ?thesis
  proof (cases r)
    case (Inl e)
    with cs.incr_err [OF assms(1), unfolded env_facts] assms(2) False show ?thesis
      by (fastforce simp: moved_def added_def)
  next
    case (Inr n)
    with cs.incr_ok [OF assms(1), unfolded env_facts] assms(2) False show ?thesis
      by (fastforce simp: moved_def added_def)
  qed
qed

lemma store_laws:
  assumes "env_good (env_of ev view)"
  shows "Init (ev_client ev) s w as ts = (w', r) \<Longrightarrow> counter_value (s_host s) (view w') b = counter_value (s_host s) (view w) b"
    and "Touch (ev_client ev) s w as = (w', r) \<Longrightarrow> counter_value (s_host s) (view w') b = counter_value (s_host s) (view w) b"
    and "SetHeartbeat (ev_client ev) s w a n ts = (w', r) \<Longrightarrow>
      counter_value (s_host s) (view w') b = counter_value (s_host s) (view w) b"
    and "Incr (ev_client ev) s w a dl = (w', Inr n) \<Longrightarrow>
      (\<exists>k. 1 \<le> k \<and> added k dl (counter_value (s_host s) (view w) a) (counter_value (s_host s) (view w') a)) \<and>
      sint n = counter_value (s_host s) (view w') a"
    and "Incr (ev_client ev) s w a dl = (w', ri) \<Longrightarrow> b \<noteq> a \<Longrightarrow>
      counter_value (s_host s) (view w') b = counter_value (s_host s) (view w) b"
    and "Store_Reset (ev_client ev) s w a ts = (w', None) \<Longrightarrow> counter_value (s_host s) (view w') a = 0"
    and "Store_Reset (ev_client ev) s w a ts = (w', r) \<Longrightarrow> b \<noteq> a \<Longrightarrow>
      counter_value (s_host s) (view w') b = counter_value (s_host s) (view w) b"
  by (rule cs.init_val [OF assms, unfolded env_facts], assumption+,
      rule cs.touch_val [OF assms, unfolded env_facts], assumption+,
      rule cs.heartbeat_val [OF assms, unfolded env_facts], assumption+,
      rule cs.incr_ok [OF assms, unfolded env_facts], assumption+,
      rule cs.incr_other [OF assms, unfolded env_facts], assumption+,
      rule cs.reset_ok [OF assms, unfolded env_facts], assumption+,
      rule cs.reset_other [OF assms, unfolded env_facts], assumption+)

subsection \<open>One word\<close>

lemma flush_delta_moves:
  assumes "env_good (env_of ev view)" "0 \<le> sint dl"
    "flush_delta ev a dl now w d = (w', d', ok, retry, err)"
  shows "fixed d' = fixed d" "d_pendingResets d' = d_pendingResets d" "d_redisDown d' = d_redisDown d"
    "b \<noteq> a \<Longrightarrow> counter_value (s_host (d_store d)) (view w') b = counter_value (s_host (d_store d)) (view w) b"
    "b \<noteq> a \<Longrightarrow> map_of (d_pendingHeartbeats d') b = map_of (d_pendingHeartbeats d) b"
    "moved (env_clean (env_of ev view)) (sint dl) (err \<noteq> None \<and> retry)
       (counter_value (s_host (d_store d)) (view w) a) (counter_value (s_host (d_store d)) (view w') a)"
    "retry \<Longrightarrow> err \<noteq> None"
proof -
  note L = store_laws [OF assms(1)]
  let ?s = "d_store d" and ?V = "\<lambda>w. counter_value (s_host (d_store d)) (view w)"
  let ?t = "mget 0 (d_pendingHeartbeats d) a"
  have *: "fixed d' = fixed d \<and> d_pendingResets d' = d_pendingResets d \<and> d_redisDown d' = d_redisDown d \<and>
    (b \<noteq> a \<longrightarrow> ?V w' b = ?V w b) \<and>
    (b \<noteq> a \<longrightarrow> map_of (d_pendingHeartbeats d') b = map_of (d_pendingHeartbeats d) b) \<and>
    moved (env_clean (env_of ev view)) (sint dl) (err \<noteq> None \<and> retry) (?V w a) (?V w' a) \<and>
    (retry \<longrightarrow> err \<noteq> None)" for b
  proof (cases "dl = 0 \<and> map_of (d_pendingHeartbeats d) a = None")
    case True
    with assms(3) show ?thesis by (auto simp: flush_delta_def)
  next
    case False
    obtain w1 r where i: "(if 0 <s dl then Incr (ev_client ev) ?s w a dl else (w, Inr ?t)) = (w1, r)"
      by fastforce
    show ?thesis
    proof (cases r)
      case (Inl e)
      with i have x: "Incr (ev_client ev) ?s w a dl = (w1, Inl e)" by (simp split: if_split_asm)
      have "w' = w1" "d' = d" "retry" "err = Some e"
        using assms(3) False i Inl by (simp_all add: flush_delta_def Let_def)
      with Incr_moved [OF assms(1) x] L(5) [OF x] show ?thesis by auto
    next
      case (Inr n)
      have v1: "moved (env_clean (env_of ev view)) (sint dl) False (?V w a) (?V w1 a)" "b \<noteq> a \<Longrightarrow> ?V w1 b = ?V w b" for b
      proof -
        have "moved (env_clean (env_of ev view)) (sint dl) False (?V w a) (?V w1 a) \<and> (b \<noteq> a \<longrightarrow> ?V w1 b = ?V w b)" for b
        proof (cases "0 <s dl")
          case True
          with i Inr have x: "Incr (ev_client ev) ?s w a dl = (w1, Inr n)" by simp
          show ?thesis using Incr_moved [OF assms(1) x] L(5) [OF x] by simp
        next
          case False
          with assms(2) have "sint dl = 0" by (simp add: sless_zero)
          moreover have "w1 = w" using i False by simp
          ultimately show ?thesis by simp
        qed
        then show "moved (env_clean (env_of ev view)) (sint dl) False (?V w a) (?V w1 a)" "b \<noteq> a \<Longrightarrow> ?V w1 b = ?V w b" for b by blast+
      qed
      obtain w2 e2 where h: "SetHeartbeat (ev_client ev) ?s w1 a n now = (w2, e2)" by fastforce
      have "w' = w2" "\<not> retry" "fixed d' = fixed d" "d_pendingResets d' = d_pendingResets d"
        "d_redisDown d' = d_redisDown d"
        "b \<noteq> a \<longrightarrow> map_of (d_pendingHeartbeats d') b = map_of (d_pendingHeartbeats d) b" for b
        using assms(3) False i Inr h
        by (cases e2; auto simp: flush_delta_def Let_def fixed_def AList.delete_conv')+
      then show ?thesis using v1 L(3) [OF h] by simp
    qed
  qed
  show "fixed d' = fixed d" "d_pendingResets d' = d_pendingResets d" "d_redisDown d' = d_redisDown d"
    "b \<noteq> a \<Longrightarrow> ?V w' b = ?V w b"
    "b \<noteq> a \<Longrightarrow> map_of (d_pendingHeartbeats d') b = map_of (d_pendingHeartbeats d) b"
    "moved (env_clean (env_of ev view)) (sint dl) (err \<noteq> None \<and> retry) (?V w a) (?V w' a)"
    "retry \<Longrightarrow> err \<noteq> None"
    using * by blast+
qed


lemma flushAction_moves:
  assumes "env_good (env_of ev view)" "0 \<le> sint dl"
    "flushAction ev a dl now w d = (w', d', ok, retry, err)"
  shows "fixed d' = fixed d" "d_redisDown d' = d_redisDown d"
    "b \<noteq> a \<Longrightarrow> shown view w' d' b = shown view w d b"
    "moved (env_clean (env_of ev view)) (sint dl) (err \<noteq> None \<and> retry) (shown view w d a) (shown view w' d' a)"
proof -
  have "fixed d' = fixed d \<and> d_redisDown d' = d_redisDown d \<and> (b \<noteq> a \<longrightarrow> shown view w' d' b = shown view w d b) \<and>
    moved (env_clean (env_of ev view)) (sint dl) (err \<noteq> None \<and> retry) (shown view w d a) (shown view w' d' a)" for b
  proof (cases "mget False (d_pendingResets d) a")
    case False
    with assms(3) have f: "flush_delta ev a dl now w d = (w', d', ok, retry, err)" by (simp add: flushAction_def)
    note F = flush_delta_moves [OF assms(1,2) f]
    from F(1-4,6) fixedD(2) [OF F(1)] False show ?thesis by (auto simp: shown_def)
  next
    case True
    obtain w1 e1 where r: "Store_Reset (ev_client ev) (d_store d) w a now = (w1, e1)" by fastforce
    show ?thesis
    proof (cases e1)
      case (Some e)
      with assms(3) True r have "w' = w1" "d' = d" "retry" "err = Some e" by (simp_all add: flushAction_def)
      with True store_laws(7) [OF assms(1) r] show ?thesis by (auto simp: shown_def)
    next
      case None
      let ?d = "d\<lparr>d_pendingResets := AList.delete a (d_pendingResets d),
        d_pendingHeartbeats := AList.delete a (d_pendingHeartbeats d)\<rparr>"
      from None assms(3) True r have f: "flush_delta ev a dl now w1 ?d = (w', d', ok, retry, err)"
        by (simp add: flushAction_def)
      note F = flush_delta_moves [OF assms(1,2) f]
      have z: "counter_value (s_host (d_store d)) (view w1) a = 0" using store_laws(6) [OF assms(1)] r None by blast
      have "fixed ?d = fixed d" by (simp add: fixed_def)
      then have fx: "fixed d' = fixed d" using F(1) by simp
      from F(2,3,4,6) fx fixedD(2) [OF fx] z True store_laws(7) [OF assms(1) r] show ?thesis
        by (auto simp: shown_def)
    qed
  qed
  then show "fixed d' = fixed d" "d_redisDown d' = d_redisDown d"
    "b \<noteq> a \<Longrightarrow> shown view w' d' b = shown view w d b"
    "moved (env_clean (env_of ev view)) (sint dl) (err \<noteq> None \<and> retry) (shown view w d a) (shown view w' d' a)"
    by blast+
qed

subsection \<open>The loop\<close>

lemma shown_cong:
  "d_pendingResets d' = d_pendingResets d \<Longrightarrow> d_store d' = d_store d \<Longrightarrow> shown view w d' a = shown view w d a"
  by (simp add: shown_def)

text \<open>One iteration: the word's increment is counted or kept, everything else stays.\<close>

lemma flush_one_moves:
  assumes "env_good (env_of ev view)" "0 \<le> sint (mget 0 ds a)" "mget 0 (fv_unwritten v) a = 0"
    "flush_one ev ds now a (w, d, v) = (w', d', v')"
  shows "fixed d' = fixed d"
    "b \<noteq> a \<Longrightarrow> shown view w' d' b = shown view w d b"
    "b \<noteq> a \<Longrightarrow> mget 0 (fv_unwritten v') b = mget 0 (fv_unwritten v) b"
    "mget 0 (fv_unwritten v') a = 0 \<or> mget 0 (fv_unwritten v') a = mget 0 ds a"
    "moved (env_clean (env_of ev view)) (sint (mget 0 ds a)) (mget 0 (fv_unwritten v') a \<noteq> 0)
       (shown view w d a) (shown view w' d' a)"
    "gomap_ok (fv_unwritten v) \<Longrightarrow> gomap_ok (fv_unwritten v')"
    "fst ` set (fv_unwritten v') \<subseteq> insert a (fst ` set (fv_unwritten v))"
proof -
  let ?dl = "mget 0 ds a"
  have z: "0 <s ?dl \<longleftrightarrow> ?dl \<noteq> 0" using assms(2) sint_eq_0 [of ?dl] by (auto simp: sless_zero)
  have *: "fixed d' = fixed d \<and> (b \<noteq> a \<longrightarrow> shown view w' d' b = shown view w d b) \<and>
    (b \<noteq> a \<longrightarrow> mget 0 (fv_unwritten v') b = mget 0 (fv_unwritten v) b) \<and>
    (mget 0 (fv_unwritten v') a = 0 \<or> mget 0 (fv_unwritten v') a = ?dl) \<and>
    moved (env_clean (env_of ev view)) (sint ?dl) (mget 0 (fv_unwritten v') a \<noteq> 0)
       (shown view w d a) (shown view w' d' a) \<and>
    (gomap_ok (fv_unwritten v) \<longrightarrow> gomap_ok (fv_unwritten v')) \<and>
    fst ` set (fv_unwritten v') \<subseteq> insert a (fst ` set (fv_unwritten v))" for b
  proof (cases "fv_unreachable v")
    case True
    with assms(4) have "w' = w" "d' = d"
      "fv_unwritten v' = (if 0 <s ?dl then AList.update a ?dl (fv_unwritten v) else fv_unwritten v)"
      by (auto simp: flush_one_def Let_def split: if_split_asm)
    with assms(3) z show ?thesis by (cases "?dl = 0") (simp_all add: subset_insertI)
  next
    case False
    obtain w1 d1 ok retry e where f: "flushAction ev a ?dl now w d = (w1, d1, ok, retry, e)" by (metis prod_cases5)
    note F = flushAction_moves [OF assms(1,2) f]
    show ?thesis
    proof (cases e)
      case None
      with assms(4) False f have "w' = w1" "d' = d1" "fv_unwritten v' = fv_unwritten v"
        by (auto simp: flush_one_def Let_def split: if_split_asm)
      with F None assms(3) show ?thesis by auto
    next
      case (Some err)
      with assms(4) False f have w': "w' = w1" and d': "fixed d' = fixed d1" "d_pendingResets d' = d_pendingResets d1"
        and u: "fv_unwritten v' = (if retry \<and> 0 <s ?dl then AList.update a ?dl (fv_unwritten v) else fv_unwritten v)"
        by (auto simp: flush_one_def Let_def split: if_split_asm)
      have s: "shown view w' d' b = shown view w1 d1 b" for b
        using w' d' fixedD(2) [OF d'(1)] by (simp add: shown_def)
      show ?thesis
        using F d'(1) u z assms(3) Some by (cases "retry \<and> ?dl \<noteq> 0") (auto simp: s subset_insertI split: if_split_asm)
    qed
  qed
  show "fixed d' = fixed d"
    "b \<noteq> a \<Longrightarrow> shown view w' d' b = shown view w d b"
    "b \<noteq> a \<Longrightarrow> mget 0 (fv_unwritten v') b = mget 0 (fv_unwritten v) b"
    "mget 0 (fv_unwritten v') a = 0 \<or> mget 0 (fv_unwritten v') a = mget 0 ds a"
    "moved (env_clean (env_of ev view)) (sint (mget 0 ds a)) (mget 0 (fv_unwritten v') a \<noteq> 0)
       (shown view w d a) (shown view w' d' a)"
    "gomap_ok (fv_unwritten v) \<Longrightarrow> gomap_ok (fv_unwritten v')"
    "fst ` set (fv_unwritten v') \<subseteq> insert a (fst ` set (fv_unwritten v))"
    using * by blast+
qed

lemma flush_loop_Cons: "flush_loop ev ds now (a # as) s = flush_loop ev ds now as (flush_one ev ds now a s)"
  by (simp add: flush_loop_def)

lemma flush_loop_moves:
  assumes "env_good (env_of ev view)" "distinct as" "\<forall>a\<in>set as. 0 \<le> sint (mget 0 ds a)"
    "\<forall>a\<in>set as. mget 0 (fv_unwritten v) a = 0" "gomap_ok (fv_unwritten v)"
    "flush_loop ev ds now as (w, d, v) = (w', d', v')"
  shows "fixed d' = fixed d \<and> gomap_ok (fv_unwritten v') \<and>
    fst ` set (fv_unwritten v') \<subseteq> set as \<union> fst ` set (fv_unwritten v) \<and>
    (\<forall>b. b \<notin> set as \<longrightarrow> shown view w' d' b = shown view w d b \<and>
       mget 0 (fv_unwritten v') b = mget 0 (fv_unwritten v) b) \<and>
    (\<forall>a\<in>set as. (mget 0 (fv_unwritten v') a = 0 \<or> mget 0 (fv_unwritten v') a = mget 0 ds a) \<and>
       moved (env_clean (env_of ev view)) (sint (mget 0 ds a)) (mget 0 (fv_unwritten v') a \<noteq> 0)
         (shown view w d a) (shown view w' d' a))"
  using assms(2-6)
proof (induction as arbitrary: w d v)
  case Nil
  then show ?case by (simp add: flush_loop_def)
next
  case (Cons a as)
  obtain w1 d1 v1 where o: "flush_one ev ds now a (w, d, v) = (w1, d1, v1)" by (metis prod_cases3)
  have a: "0 \<le> sint (mget 0 ds a)" "mget 0 (fv_unwritten v) a = 0" "a \<notin> set as" using Cons.prems by auto
  note F = flush_one_moves [OF assms(1) a(1,2) o]
  have ih: "distinct as" "\<forall>a\<in>set as. 0 \<le> sint (mget 0 ds a)" "\<forall>b\<in>set as. mget 0 (fv_unwritten v1) b = 0"
    "gomap_ok (fv_unwritten v1)" "flush_loop ev ds now as (w1, d1, v1) = (w', d', v')"
    using Cons.prems F(3,6) a(3) o by (auto simp: flush_loop_Cons) metis
  note IH = Cons.IH [OF ih]
  have rest: "shown view w1 d1 b = shown view w d b" "mget 0 (fv_unwritten v1) b = mget 0 (fv_unwritten v) b"
    if "b \<in> set as" for b using F(2,3) that a(3) by metis+
  show ?case
  proof (intro conjI allI ballI impI)
    show "fixed d' = fixed d" "gomap_ok (fv_unwritten v')" using IH F(1) by simp_all
    show "fst ` set (fv_unwritten v') \<subseteq> set (a # as) \<union> fst ` set (fv_unwritten v)"
      using conjunct1 [OF conjunct2 [OF conjunct2 [OF IH]]] F(7) by (simp only: set_simps) blast
  next
    fix b assume "b \<notin> set (a # as)"
    then show "shown view w' d' b = shown view w d b" "mget 0 (fv_unwritten v') b = mget 0 (fv_unwritten v) b"
      using IH F(2,3) by simp_all
  next
    fix b assume "b \<in> set (a # as)"
    then consider "b = a" | "b \<in> set as" by auto
    then have "(mget 0 (fv_unwritten v') b = 0 \<or> mget 0 (fv_unwritten v') b = mget 0 ds b) \<and>
      moved (env_clean (env_of ev view)) (sint (mget 0 ds b)) (mget 0 (fv_unwritten v') b \<noteq> 0)
         (shown view w d b) (shown view w' d' b)"
    proof cases
      case 1
      then show ?thesis using IH F(4,5) a(3) by simp
    next
      case 2
      then show ?thesis using IH rest(1) by fastforce
    qed
    then show "mget 0 (fv_unwritten v') b = 0 \<or> mget 0 (fv_unwritten v') b = mget 0 ds b"
      "moved (env_clean (env_of ev view)) (sint (mget 0 ds b)) (mget 0 (fv_unwritten v') b \<noteq> 0)
         (shown view w d b) (shown view w' d' b)" by blast+
  qed
qed


subsection \<open>Bootstrap and expiry leave the ledger alone\<close>

lemma ensureInit_facts:
  assumes "ensureInit ev w d = (w', d', b)"
  shows "d_cfg d' = d_cfg d" "d_store d' = d_store d" "d_cnt d' = d_cnt d"
    "d_pendingHeartbeats d' = d_pendingHeartbeats d" "d_pendingResets d' = d_pendingResets d"
    "b \<longleftrightarrow> d_initialized d'" "d_initialized d \<Longrightarrow> w' = w \<and> d' = d"
    "env_good (env_of ev view) \<Longrightarrow> counter_value (s_host (d_store d)) (view w') a = counter_value (s_host (d_store d)) (view w) a"
proof -
  obtain w1 e1 where 1: "Init (ev_client ev) (d_store d) w (d_actions d) (ev_now ev w) = (w1, e1)" by fastforce
  obtain w2 e2 where 2: "Touch (ev_client ev) (d_store d) w1 (d_actions d) = (w2, e2)" by fastforce
  have "(d_initialized d \<longrightarrow> w' = w \<and> d' = d) \<and> w' \<in> {w, w1, w2} \<and> d_cfg d' = d_cfg d \<and> d_store d' = d_store d \<and> d_cnt d' = d_cnt d \<and>
    d_pendingHeartbeats d' = d_pendingHeartbeats d \<and> d_pendingResets d' = d_pendingResets d \<and> (b \<longleftrightarrow> d_initialized d')"
    using assms 1 2 by (cases "d_initialized d"; cases e1; cases e2; auto simp: ensureInit_def Let_def)
  then show "d_cfg d' = d_cfg d" "d_store d' = d_store d" "d_cnt d' = d_cnt d"
    "d_pendingHeartbeats d' = d_pendingHeartbeats d" "d_pendingResets d' = d_pendingResets d"
    "b \<longleftrightarrow> d_initialized d'" "d_initialized d \<Longrightarrow> w' = w \<and> d' = d"
    "env_good (env_of ev view) \<Longrightarrow> counter_value (s_host (d_store d)) (view w') a = counter_value (s_host (d_store d)) (view w) a"
    using store_laws(1) [OF _ 1, of view a] store_laws(2) [OF _ 2, of view a] by auto
qed

lemma refreshTTL_facts:
  assumes "refreshTTL ev w d = (w', d', b)"
  shows "fixed d' = fixed d" "d_pendingHeartbeats d' = d_pendingHeartbeats d" "d_pendingResets d' = d_pendingResets d"
    "env_good (env_of ev view) \<Longrightarrow> counter_value (s_host (d_store d)) (view w') a = counter_value (s_host (d_store d)) (view w) a"
proof -
  obtain w1 e1 where 1: "Touch (ev_client ev) (d_store d) w (d_actions d) = (w1, e1)" by fastforce
  have "w' \<in> {w, w1} \<and> fixed d' = fixed d \<and> d_pendingHeartbeats d' = d_pendingHeartbeats d \<and>
    d_pendingResets d' = d_pendingResets d"
    using assms 1 by (cases e1; auto simp: refreshTTL_def split: if_split_asm)
  then show "fixed d' = fixed d" "d_pendingHeartbeats d' = d_pendingHeartbeats d" "d_pendingResets d' = d_pendingResets d"
    "env_good (env_of ev view) \<Longrightarrow> counter_value (s_host (d_store d)) (view w') a = counter_value (s_host (d_store d)) (view w) a"
    using store_laws(2) [OF _ 1, of view a] by auto
qed

subsection \<open>The three ways a flush can go\<close>

lemma flush_work_steps:
  assumes "flush_work ev arr ds w1 d1 = (w', d')"
  obtains w2 d2 v d4 d5 d6 where
    "flush_loop ev ds (ev_now ev w1) (d_actions d1) (w1, d1, flush_start) = (w2, d2, v)"
    "d4 = (consume_all (ev_uc ev) arr d2)\<lparr>d_cnt := Restore (fv_unwritten v) (ProcessLines (ev_uc ev) (texts arr) (d_cnt d2))\<rparr>"
    "if fv_unreachable v then w' = w2 \<and> d5 = d4 else (\<exists>b. refreshTTL ev w2 d4 = (w', d5, b))"
    "d6 = (if fv_errs v = 0 then noteRedisOK d5 else d5)"
    "d' = emit LevelDebug ''flush done''
            [(''actions_written'', VInt (of_nat (fv_written v))), (''errors'', VInt (of_nat (fv_errs v))),
             (''buffered'', VInt (Pending (d_cnt d6)))] d6"
proof -
  obtain w2 d2 v where l: "flush_loop ev ds (ev_now ev w1) (d_actions d1) (w1, d1, flush_start) = (w2, d2, v)"
    by (metis prod_cases3)
  define d3 where "d3 = consume_all (ev_uc ev) arr d2"
  define d4 where "d4 = (if fv_unwritten v \<noteq> [] then d3\<lparr>d_cnt := Restore (fv_unwritten v) (d_cnt d3)\<rparr> else d3)"
  have d4: "d4 = d3\<lparr>d_cnt := Restore (fv_unwritten v) (ProcessLines (ev_uc ev) (texts arr) (d_cnt d2))\<rparr>"
  proof (cases "fv_unwritten v = []")
    case True
    then have "d4 = d3\<lparr>d_cnt := d_cnt d3\<rparr>" by (simp add: d4_def)
    with True show ?thesis by (simp add: Restore_def d3_def)
  qed (simp add: d4_def d3_def)
  obtain w3 d5 where t: "(if \<not> fv_unreachable v then (case refreshTTL ev w2 d4 of (w3, d5, _) \<Rightarrow> (w3, d5)) else (w2, d4)) = (w3, d5)"
    by fastforce
  define d6 where "d6 = (if fv_errs v = 0 then noteRedisOK d5 else d5)"
  have "flush_work ev arr ds w1 d1 = (w3, emit LevelDebug ''flush done''
            [(''actions_written'', VInt (of_nat (fv_written v))), (''errors'', VInt (of_nat (fv_errs v))),
             (''buffered'', VInt (Pending (d_cnt d6)))] d6)"
    unfolding flush_work_def l prod.case Let_def d3_def [symmetric] d4_def [symmetric] t d6_def [symmetric] ..
  with assms have w': "w' = w3" and d': "d' = emit LevelDebug ''flush done''
            [(''actions_written'', VInt (of_nat (fv_written v))), (''errors'', VInt (of_nat (fv_errs v))),
             (''buffered'', VInt (Pending (d_cnt d6)))] d6" by simp_all
  have "if fv_unreachable v then w' = w2 \<and> d5 = d4 else (\<exists>b. refreshTTL ev w2 d4 = (w', d5, b))"
    using t w' by (auto split: prod.split_asm)
  then show ?thesis using that [OF l d4 [unfolded d3_def] _ d6_def d'] by blast
qed

lemma Flush_cases:
  assumes "Flush ev arr w d0 = (w', d')"
  obtains
    (deferred) d where "ensureInit ev w d0 = (w', d, False)"
      "d' = consume_all (ev_uc ev) arr
              (emit LevelDebug ''flush deferred, redis is not reachable'' [(''buffered'', VInt (Pending (d_cnt d)))] d)"
  | (idle) w1 d d2 reached where "ensureInit ev w d0 = (w1, d, True)" "pending (d_cnt d) = []"
      "d_pendingHeartbeats d = []" "d_pendingResets d = []" "refreshTTL ev w1 d = (w', d2, reached)"
      "d' = consume_all (ev_uc ev) arr
              (emit LevelDebug ''flush: nothing to do'' [] (if reached then noteRedisOK d2 else d2))"
  | (work) w1 d where "ensureInit ev w d0 = (w1, d, True)"
      "pending (d_cnt d) \<noteq> [] \<or> d_pendingHeartbeats d \<noteq> [] \<or> d_pendingResets d \<noteq> []"
      "flush_work ev arr (pending (d_cnt d)) w1 (d\<lparr>d_cnt := fst (Drain (d_cnt d))\<rparr>) = (w', d')"
proof -
  obtain w1 d b where i: "ensureInit ev w d0 = (w1, d, b)" by (metis prod_cases3)
  obtain c1 where dr: "Drain (d_cnt d) = (c1, pending (d_cnt d))" by (metis Drain_deltas(1) prod.collapse)
  show ?thesis
  proof (cases b)
    case False
    with assms i show ?thesis by (intro deferred [of d]) (auto simp: Flush_def)
  next
    case True
    show ?thesis
    proof (cases "pending (d_cnt d) = [] \<and> d_pendingHeartbeats d = [] \<and> d_pendingResets d = []")
      case idle': True
      then have d: "d\<lparr>d_cnt := c1\<rparr> = d" using dr by (simp add: Drain_def)
      obtain w2 d2 reached where r: "refreshTTL ev w1 d = (w2, d2, reached)" by (metis prod_cases3)
      have "Flush ev arr w d0 = (w2, consume_all (ev_uc ev) arr
              (emit LevelDebug ''flush: nothing to do'' [] (if reached then noteRedisOK d2 else d2)))"
        unfolding Flush_def i prod.case dr Let_def using True idle' by (simp add: d r)
      with assms i True idle' r show ?thesis by (intro idle [of w1 d d2 reached]) auto
    next
      case False
      have "Flush ev arr w d0 = flush_work ev arr (pending (d_cnt d)) w1 (d\<lparr>d_cnt := c1\<rparr>)"
        unfolding Flush_def i prod.case dr Let_def using True False by auto
      with assms i True False dr show ?thesis by (intro work [of w1 d]) auto
    qed
  qed
qed


subsection \<open>A whole flush\<close>

text \<open>The daemon counts the words of its configuration; they are distinct after \<open>Validate\<close>.\<close>

definition daemon_ok :: "unicode \<Rightarrow> daemon \<Rightarrow> bool" where
  "daemon_ok uc d \<longleftrightarrow> counter_ok uc (d_cnt d) \<and> c_actions (d_cnt d) = d_actions d \<and> distinct (d_actions d) \<and>
     caseSensitive (d_cnt d) = cfg_case_sensitive (d_cfg d)"

lemma daemon_ok_cong:
  "d_cnt d' = d_cnt d \<Longrightarrow> d_cfg d' = d_cfg d \<Longrightarrow> daemon_ok uc d' \<longleftrightarrow> daemon_ok uc d"
  by (simp add: daemon_ok_def)

lemma daemon_ok_consume: "daemon_ok uc d \<Longrightarrow> daemon_ok uc (consume uc l d)"
  by (auto simp: daemon_ok_def counter_ok_ProcessLine split: tail_line.split)

lemma daemon_ok_consume_all: "daemon_ok uc d \<Longrightarrow> daemon_ok uc (consume_all uc ls d)"
  unfolding consume_all_def by (induction ls arbitrary: d) (auto intro: daemon_ok_consume)

text \<open>The number of the arriving lines that match a word.\<close>

definition arrived :: "unicode \<Rightarrow> daemon \<Rightarrow> tail_line list \<Rightarrow> string \<Rightarrow> nat" where
  "arrived uc d ls a = hits uc (d_cnt d) (texts ls) a"

lemma hits_cong: "c_actions c' = c_actions c \<Longrightarrow> caseSensitive c' = caseSensitive c \<Longrightarrow> hits uc c' ls a = hits uc c ls a"
  by (simp add: hits_def)

definition unsigned_buffer :: "daemon \<Rightarrow> bool" where
  "unsigned_buffer d \<longleftrightarrow> (\<forall>a\<in>set (d_actions d). 0 \<le> held d a)"

text \<open>What the flush does to the counter of the daemon and to the ledger; \<open>S\<close> are the written words.\<close>

definition flush_effect ::
  "unicode \<Rightarrow> bool \<Rightarrow> ('w \<Rightarrow> db) \<Rightarrow> tail_line list \<Rightarrow> string set \<Rightarrow> 'w \<Rightarrow> daemon \<Rightarrow> 'w \<Rightarrow> daemon \<Rightarrow> bool" where
  "flush_effect uc clean view arr S w d w' d' \<longleftrightarrow>
     (\<forall>a\<in>set (d_actions d).
        buffered (d_cnt d') a = (if a \<in> S then 0 else buffered (d_cnt d) a) + of_nat (arrived uc d arr a) \<and>
        total_matched (d_cnt d') a = total_matched (d_cnt d) a + of_nat (arrived uc d arr a) \<and>
        moved clean (held d a) (a \<notin> S) (shown view w d a) (shown view w' d' a))"

lemma flush_effect_none:
  assumes "daemon_ok uc d" "d_cnt d' = ProcessLines uc (texts arr) (d_cnt d)"
    "\<And>a. shown view w' d' a = shown view w d a"
  shows "flush_effect uc clean view arr {} w d w' d'"
  using assms ProcessLines_totals [of uc "d_cnt d" "texts arr"]
  by (simp add: flush_effect_def daemon_ok_def arrived_def)

lemma flush_work_moves:
  assumes g: "env_good (env_of ev view)" and ok: "daemon_ok (ev_uc ev) d" and nn: "unsigned_buffer d"
    and f: "flush_work ev arr (pending (d_cnt d)) w (d\<lparr>d_cnt := fst (Drain (d_cnt d))\<rparr>) = (w', d')"
  shows "d_cfg d' = d_cfg d \<and> d_store d' = d_store d \<and> daemon_ok (ev_uc ev) d' \<and>
    (\<exists>S. flush_effect (ev_uc ev) (env_clean (env_of ev view)) view arr S w d w' d')"
proof -
  let ?uc = "ev_uc ev" and ?c = "fst (Drain (d_cnt d))"
  let ?d1 = "d\<lparr>d_cnt := ?c\<rparr>"
  from f obtain w2 d2 v d4 d5 d6 where
    l: "flush_loop ev (pending (d_cnt d)) (ev_now ev w) (d_actions d) (w, ?d1, flush_start) = (w2, d2, v)"
    and d4: "d4 = (consume_all ?uc arr d2)\<lparr>d_cnt := Restore (fv_unwritten v) (ProcessLines ?uc (texts arr) (d_cnt d2))\<rparr>"
    and t: "if fv_unreachable v then w' = w2 \<and> d5 = d4 else (\<exists>b. refreshTTL ev w2 d4 = (w', d5, b))"
    and d6: "d6 = (if fv_errs v = 0 then noteRedisOK d5 else d5)"
    and d': "d' = emit LevelDebug ''flush done''
            [(''actions_written'', VInt (of_nat (fv_written v))), (''errors'', VInt (of_nat (fv_errs v))),
             (''buffered'', VInt (Pending (d_cnt d6)))] d6"
    by (rule flush_work_steps) simp
  have dist: "distinct (d_actions d)" and ck: "counter_ok ?uc (d_cnt d)" and ca: "c_actions (d_cnt d) = d_actions d"
    using ok by (simp_all add: daemon_ok_def)
  have del: "mget 0 (pending (d_cnt d)) a = buffered (d_cnt d) a" for a by (simp add: buffered_def)
  have "\<forall>a\<in>set (d_actions d). 0 \<le> sint (mget 0 (pending (d_cnt d)) a)"
    using nn by (simp add: unsigned_buffer_def held_def del)
  from flush_loop_moves [OF g dist this _ _ l]
  have fx: "fixed d2 = fixed ?d1" and gm: "gomap_ok (fv_unwritten v)"
    and sub: "fst ` set (fv_unwritten v) \<subseteq> set (d_actions d)"
    and mv: "a \<in> set (d_actions d) \<Longrightarrow> (mget 0 (fv_unwritten v) a = 0 \<or> mget 0 (fv_unwritten v) a = buffered (d_cnt d) a) \<and>
       moved (env_clean (env_of ev view)) (held d a) (mget 0 (fv_unwritten v) a \<noteq> 0)
         (shown view w ?d1 a) (shown view w2 d2 a)" for a
    by (simp_all add: flush_start_def del held_def)
  note fd = fixedD [OF fx]
  have same5: "fixed d5 = fixed d4 \<and> d_pendingResets d5 = d_pendingResets d4 \<and>
    (\<forall>a. counter_value (s_host (d_store d4)) (view w') a = counter_value (s_host (d_store d4)) (view w2) a)"
  proof (cases "fv_unreachable v")
    case True
    with t show ?thesis by simp
  next
    case False
    with t obtain b where "refreshTTL ev w2 d4 = (w', d5, b)" by auto
    from refreshTTL_facts [OF this] g show ?thesis by blast
  qed
  then have same: "fixed d' = fixed d4" "d_pendingResets d' = d_pendingResets d2"
    "counter_value (s_host (d_store d4)) (view w') a = counter_value (s_host (d_store d4)) (view w2) a" for a
    using d4 by (auto simp: d' d6)
  have st: "d_store d' = d_store d" "d_cfg d' = d_cfg d" "d_store d2 = d_store d"
    using fixedD [OF same(1)] fd d4 by simp_all
  have sh: "shown view w' d' a = shown view w2 d2 a" for a
    using same(2) same(3) [of a] st d4 by (simp add: shown_def)
  have sh1: "shown view w ?d1 a = shown view w d a" for a by (simp add: shown_def)
  let ?c' = "ProcessLines ?uc (texts arr) ?c"
  have cnt: "d_cnt d' = Restore (fv_unwritten v) ?c'" using fixedD(3) [OF same(1)] fd d4 by simp
  have cok: "counter_ok ?uc ?c" "counter_ok ?uc ?c'" by (simp_all add: ck counter_ok_Drain counter_ok_ProcessLines)
  have dok: "daemon_ok ?uc d'"
    using ok cok sub st by (simp add: daemon_ok_def cnt counter_ok_Restore)
  have b: "buffered (d_cnt d') a = of_nat (arrived ?uc d arr a) + mget 0 (fv_unwritten v) a"
    "total_matched (d_cnt d') a = total_matched (d_cnt d) a + of_nat (arrived ?uc d arr a)" for a
  proof -
    have "buffered ?c' a = of_nat (arrived ?uc d arr a)"
      "total_matched ?c' a = total_matched (d_cnt d) a + of_nat (arrived ?uc d arr a)"
      using ProcessLines_totals [OF cok(1), of "texts arr" a] dist ca cb.drain_empties [OF ck] cb.drain_total [OF ck]
      by (simp_all add: arrived_def hits_cong [of ?c "d_cnt d"])
    then show "buffered (d_cnt d') a = of_nat (arrived ?uc d arr a) + mget 0 (fv_unwritten v) a"
      "total_matched (d_cnt d') a = total_matched (d_cnt d) a + of_nat (arrived ?uc d arr a)"
      using cb.restore_buffered [OF cok(2) gm] cb.restore_total [OF cok(2)] by (simp_all add: cnt)
  qed
  have "flush_effect ?uc (env_clean (env_of ev view)) view arr {a. mget 0 (fv_unwritten v) a = 0} w d w' d'"
    using mv b by (auto simp: flush_effect_def sh sh1)
  with dok st show ?thesis by blast
qed

lemma Flush_moves:
  assumes g: "env_good (env_of ev view)" and ok: "daemon_ok (ev_uc ev) d0" and nn: "unsigned_buffer d0"
    and f: "Flush ev arr w d0 = (w', d')"
  shows "d_cfg d' = d_cfg d0 \<and> d_store d' = d_store d0 \<and> daemon_ok (ev_uc ev) d' \<and>
    (\<exists>S. flush_effect (ev_uc ev) (env_clean (env_of ev view)) view arr S w d0 w' d')"
proof -
  have init: "d_cfg d = d_cfg d0 \<and> d_store d = d_store d0 \<and> d_cnt d = d_cnt d0 \<and> daemon_ok (ev_uc ev) d \<and>
    unsigned_buffer d \<and> (\<forall>a. shown view w1 d a = shown view w d0 a)"
    if "ensureInit ev w d0 = (w1, d, b)" for w1 d b
    using ensureInit_facts [OF that] ok nn g
    by (simp add: daemon_ok_cong [of d d0] unsigned_buffer_def held_def shown_def)
  show ?thesis
    using f
  proof (cases rule: Flush_cases)
    case (deferred d)
    note i = init [OF deferred(1)]
    have "flush_effect (ev_uc ev) (env_clean (env_of ev view)) view arr {} w d0 w' d'"
      using i ok by (intro flush_effect_none) (simp_all add: deferred(2) shown_cong [of "consume_all uc ls x" d for uc ls x])
    moreover have "daemon_ok (ev_uc ev) d'"
      using i ok unfolding deferred(2) by (intro daemon_ok_consume_all) (simp add: daemon_ok_def)
    ultimately show ?thesis using i deferred(2) by auto
  next
    case (idle w1 d d2 reached)
    note i = init [OF idle(1)] and r = refreshTTL_facts [OF idle(5)]
    let ?d = "emit LevelDebug ''flush: nothing to do'' [] (if reached then noteRedisOK d2 else d2)"
    have s: "d_cnt ?d = d_cnt d0" "d_cfg ?d = d_cfg d0" "d_store ?d = d_store d0" "d_pendingResets ?d = d_pendingResets d"
      using i r fixedD [OF r(1)] by simp_all
    have "shown view w' ?d a = shown view w1 d a" for a
      using s(3,4) r(4) [OF g, of a] conjunct1 [OF conjunct2 [OF i]] by (simp add: shown_def)
    then have "shown view w' d' a = shown view w d0 a" for a
      using i shown_cong [of d' ?d view w' a] by (simp add: idle(6))
    then have "flush_effect (ev_uc ev) (env_clean (env_of ev view)) view arr {} w d0 w' d'"
      using ok s(1) by (intro flush_effect_none) (simp_all add: idle(6))
    moreover have "daemon_ok (ev_uc ev) d'"
      using ok s(1,2) unfolding idle(6) by (intro daemon_ok_consume_all) (simp only: daemon_ok_def)
    moreover have "d_cfg d' = d_cfg d0" "d_store d' = d_store d0" using s(2,3) by (simp_all add: idle(6))
    ultimately show ?thesis by (intro conjI exI)
  next
    case (work w1 d)
    note i = init [OF work(1)]
    from flush_work_moves [OF g _ _ work(3)] i obtain S where
      "d_cfg d' = d_cfg d" "d_store d' = d_store d" "daemon_ok (ev_uc ev) d'"
      "flush_effect (ev_uc ev) (env_clean (env_of ev view)) view arr S w1 d w' d'" by blast
    with i show ?thesis
      by (intro conjI exI [of _ S]) (simp_all add: flush_effect_def held_def arrived_def)
  qed
qed


subsection \<open>Resetting\<close>

lemma reset_one_facts:
  assumes "env_good (env_of ev view)" "reset_one ev now a (w, d, v) = (w', d', v')"
  shows "fixed d' = fixed d" "b \<noteq> a \<Longrightarrow> shown view w' d' b = shown view w d b" "shown view w' d' a = 0"
    "rv_errs v \<le> rv_errs v'" "rv_errs v' = rv_errs v \<longleftrightarrow> \<not> mget False (d_pendingResets d') a"
    "b \<noteq> a \<Longrightarrow> mget False (d_pendingResets d') b = mget False (d_pendingResets d) b"
proof -
  have "fixed d' = fixed d \<and> (b \<noteq> a \<longrightarrow> shown view w' d' b = shown view w d b) \<and> shown view w' d' a = 0 \<and>
    rv_errs v \<le> rv_errs v' \<and> (rv_errs v' = rv_errs v \<longleftrightarrow> \<not> mget False (d_pendingResets d') a) \<and>
    (b \<noteq> a \<longrightarrow> mget False (d_pendingResets d') b = mget False (d_pendingResets d) b)" for b
  proof (cases "rv_unreachable v")
    case True
    with assms(2) show ?thesis by (auto simp: reset_one_def fixed_def shown_def split: if_split_asm)
  next
    case False
    obtain w1 e where r: "Store_Reset (ev_client ev) (d_store d) w a now = (w1, e)" by fastforce
    show ?thesis
    proof (cases e)
      case None
      then have z: "counter_value (s_host (d_store d)) (view w1) a = 0"
        using store_laws(6) [OF assms(1)] r by blast
      from None False r assms(2) have w': "w' = w1" "v' = v"
        "d' = d\<lparr>d_pendingHeartbeats := AList.delete a (d_pendingHeartbeats d),
                d_pendingResets := AList.delete a (d_pendingResets d)\<rparr>"
        by (auto simp: reset_one_def)
      with z store_laws(7) [OF assms(1) r] show ?thesis by (auto simp: fixed_def shown_def)
    next
      case (Some err)
      with False r assms(2) have w': "w' = w1" "rv_errs v' = rv_errs v + 1"
        "d' = noteRedisError ''reset'' err (d\<lparr>d_pendingResets := AList.update a True (d_pendingResets d)\<rparr>)"
        by (auto simp: reset_one_def)
      with store_laws(7) [OF assms(1) r] show ?thesis
        by (auto simp: shown_def) (simp add: fixed_def)
    qed
  qed
  then show "fixed d' = fixed d" "b \<noteq> a \<Longrightarrow> shown view w' d' b = shown view w d b" "shown view w' d' a = 0"
    "rv_errs v \<le> rv_errs v'" "rv_errs v' = rv_errs v \<longleftrightarrow> \<not> mget False (d_pendingResets d') a"
    "b \<noteq> a \<Longrightarrow> mget False (d_pendingResets d') b = mget False (d_pendingResets d) b"
    by blast+
qed

lemma reset_loop_Cons: "reset_loop ev now (a # as) s = reset_loop ev now as (reset_one ev now a s)"
  by (simp add: reset_loop_def)

lemma reset_loop_facts:
  assumes "env_good (env_of ev view)" "distinct as" "reset_loop ev now as (w, d, v) = (w', d', v')"
  shows "fixed d' = fixed d \<and> (\<forall>a\<in>set as. shown view w' d' a = 0) \<and>
    (\<forall>b. b \<notin> set as \<longrightarrow> shown view w' d' b = shown view w d b \<and>
       mget False (d_pendingResets d') b = mget False (d_pendingResets d) b) \<and>
    rv_errs v \<le> rv_errs v' \<and>
    (rv_errs v' = rv_errs v \<longrightarrow> (\<forall>a\<in>set as. \<not> mget False (d_pendingResets d') a))"
  using assms(2,3)
proof (induction as arbitrary: w d v)
  case Nil
  then show ?case by (simp add: reset_loop_def)
next
  case (Cons a as)
  obtain w1 d1 v1 where o: "reset_one ev now a (w, d, v) = (w1, d1, v1)" by (metis prod_cases3)
  note F = reset_one_facts [OF assms(1) o]
  have l: "reset_loop ev now as (w1, d1, v1) = (w', d', v')" and dist: "distinct as" and na: "a \<notin> set as"
    using Cons.prems o by (simp_all add: reset_loop_Cons)
  note IH = Cons.IH [OF dist l]
  show ?case
  proof (intro conjI ballI allI impI)
    show "fixed d' = fixed d" "rv_errs v \<le> rv_errs v'" using IH F(1,4) by auto
  next
    fix b assume "b \<in> set (a # as)"
    then show "shown view w' d' b = 0" using IH F(3) na by auto
  next
    fix b assume "b \<notin> set (a # as)"
    then show "shown view w' d' b = shown view w d b" "mget False (d_pendingResets d') b = mget False (d_pendingResets d) b"
      using IH F(2,6) by auto
  next
    fix b assume e: "rv_errs v' = rv_errs v" and b: "b \<in> set (a # as)"
    from e IH F(4) have "rv_errs v1 = rv_errs v" "rv_errs v' = rv_errs v1" by auto
    with IH F(5) na b show "\<not> mget False (d_pendingResets d') b" by auto
  qed
qed

text \<open>A reset is a flush, after which every word shows zero.\<close>

lemma Reset_moves:
  assumes g: "env_good (env_of ev view)" and ok: "daemon_ok (ev_uc ev) d" and nn: "unsigned_buffer d"
    and r: "Reset ev arr w d = (w', d')"
  shows "d_cfg d' = d_cfg d \<and> d_store d' = d_store d \<and> daemon_ok (ev_uc ev) d' \<and>
    (\<forall>a\<in>set (d_actions d). shown view w' d' a = 0) \<and>
    (\<exists>w1 d1. Flush ev arr w d = (w1, d1) \<and> d_cnt d' = d_cnt d1)"
proof -
  obtain w1 d1 where f: "Flush ev arr w d = (w1, d1)" by fastforce
  obtain w2 d2 v where l: "reset_loop ev (ev_now ev w1) (d_actions d1) (w1, d1, \<lparr>rv_errs = 0, rv_unreachable = False\<rparr>) = (w2, d2, v)"
    by (metis prod_cases3)
  note F = Flush_moves [OF g ok nn f]
  have "distinct (d_actions d1)" using F by (auto simp: daemon_ok_def)
  note L = reset_loop_facts [OF g this l]
  have x: "w' = w2 \<and> (\<exists>lv msg as. d' = emit lv msg as (if rv_errs v = 0 then noteRedisOK d2 else d2))"
    using r f l by (auto simp: Reset_def split: if_split_asm)
  then obtain lv msg as where d': "d' = emit lv msg as (if rv_errs v = 0 then noteRedisOK d2 else d2)" by blast
  have fx: "fixed d' = fixed d1" and pr: "d_pendingResets d' = d_pendingResets d2" using L by (simp_all add: d')
  have "shown view w' d' a = shown view w2 d2 a" for a
    using x pr fixedD(2) [OF fx] L fixedD(2) [of d2 d1] by (simp add: shown_def)
  moreover have "daemon_ok (ev_uc ev) d'" using F fixedD(1,3) [OF fx] daemon_ok_cong [of d' d1] by blast
  ultimately show ?thesis using F L f fixedD [OF fx] by auto
qed

end
