(* ===== verification/Go_Http.thy ===== *)
theory Go_Http
  imports Os
begin

section \<open>What the exporter uses of net/http and html/template\<close>

text \<open>
  The escaping functions \<open>html/template\<close> puts around the actions of the status page, and the
  \<open>ServeMux\<close> for the patterns the program registers. The lemmas are the two facts the exporter relies
  on: escaped data holds no markup, and a request without percent signs reaches a literal pattern only
  if it is that pattern.
\<close>

subsection \<open>Escaping\<close>

text \<open>
  \<open>htmlReplacementTable\<close>, which serves text, the body of \<open>title\<close> and quoted attributes. Bytes outside
  ASCII are copied, valid UTF-8 or not.
\<close>

definition html_repl :: "char \<Rightarrow> string" where
  "html_repl c =
     (if c = CHR 0x00 then [CHR 0xEF, CHR 0xBF, CHR 0xBD]
      else if c = CHR 0x22 then ''&#34;''
      else if c = CHR ''&'' then ''&amp;''
      else if c = CHR 0x27 then ''&#39;''
      else if c = CHR ''+'' then ''&#43;''
      else if c = CHR ''<'' then ''&lt;''
      else if c = CHR ''>'' then ''&gt;''
      else [c])"

definition html_escape :: "string \<Rightarrow> string" where
  "html_escape s = concat (map html_repl s)"

definition is_alnum :: "char \<Rightarrow> bool" where
  "is_alnum c \<longleftrightarrow> (48 \<le> byte c \<and> byte c \<le> 57) \<or> (65 \<le> byte c \<and> byte c \<le> 90) \<or> (97 \<le> byte c \<and> byte c \<le> 122)"

definition is_hex :: "char \<Rightarrow> bool" where
  "is_hex c \<longleftrightarrow> (48 \<le> byte c \<and> byte c \<le> 57) \<or> (97 \<le> byte c \<and> byte c \<le> 102) \<or> (65 \<le> byte c \<and> byte c \<le> 70)"

definition unhex :: "char \<Rightarrow> nat" where
  "unhex c = (if byte c \<le> 57 then byte c - 48 else if byte c \<le> 70 then byte c - 55 else byte c - 87)"

text \<open>The normalizer of a URL in an attribute: what RFC 3986 does not reserve or allow is percent-encoded.\<close>

fun url_normalize :: "string \<Rightarrow> string" where
  "url_normalize [] = []"
| "url_normalize (c # s) =
     (if is_alnum c \<or> c \<in> set ''!#$&*+,/:;=?@[]-._~'' then [c]
      else if c = CHR ''%'' \<and> 2 \<le> length s \<and> is_hex (s ! 0) \<and> is_hex (s ! 1) then [c]
      else CHR ''%'' # hex 2 (byte c)) @ url_normalize s"

text \<open>
  The filter against unsafe schemes; it compares letter cases by ASCII only. A path, which begins with
  a slash, always passes.
\<close>

definition url_filter :: "string \<Rightarrow> string" where
  "url_filter s =
     (case IndexByte s (CHR '':'') of
        None \<Rightarrow> s
      | Some i \<Rightarrow>
          (let protocol = take i s in
           if CHR ''/'' \<notin> set protocol \<and> map ascii_lower protocol \<notin> {''http'', ''https'', ''mailto''}
           then ''#ZgotmplZ'' else s))"

text \<open>What is written for an action in a quoted \<open>href\<close>.\<close>

definition url_attr :: "string \<Rightarrow> string" where
  "url_attr s = html_escape (url_normalize (url_filter s))"

text \<open>The characters that end a text, open or close a tag, or end a quoted attribute.\<close>

definition markup :: "char set" where
  "markup = {CHR ''<'', CHR ''>'', CHR 0x22, CHR 0x27}"

lemma html_repl_markup: "c \<in> set (html_repl a) \<Longrightarrow> c \<notin> markup"
  by (auto simp: html_repl_def markup_def split: if_split_asm)

lemma html_escape_markup: "set (html_escape s) \<inter> markup = {}"
  using html_repl_markup by (auto simp: html_escape_def)

lemma url_attr_markup: "set (url_attr s) \<inter> markup = {}"
  by (simp add: url_attr_def html_escape_markup)

lemma filter_markup_escaped [simp]:
  "filter (\<lambda>c. c \<in> markup) (html_escape s) = []" "filter (\<lambda>c. c \<in> markup) (url_attr s) = []"
  using html_escape_markup [of s] url_attr_markup [of s] by (auto simp: filter_empty_conv)

lemma url_attr_example: "url_attr ''/a b?\"<%41%zz'' = ''/a%20b?%22%3c%41%25zz''"
  by code_simp

subsection \<open>Paths\<close>

text \<open>\<open>cleanPath\<close> of net/http: \<open>path.Clean\<close> with the trailing slash kept.\<close>

definition CleanPath :: "string \<Rightarrow> string" where
  "CleanPath p =
     (if p = [] then ''/''
      else (let q = (if hd p \<noteq> CHR ''/'' then CHR ''/'' # p else p); np = Clean q
            in if last q = CHR ''/'' \<and> np \<noteq> ''/'' then np @ ''/'' else np))"

text \<open>\<open>url.PathUnescape\<close>; the multiplexer keeps a segment it cannot decode.\<close>

fun PathUnescape :: "string \<Rightarrow> string option" where
  "PathUnescape [] = Some []"
| "PathUnescape (c # s) =
     (if c = CHR ''%'' then
        (case s of
           a # b # r \<Rightarrow>
             if is_hex a \<and> is_hex b then map_option ((#) (char_of (unhex a * 16 + unhex b))) (PathUnescape r) else None
         | _ \<Rightarrow> None)
      else map_option ((#) c) (PathUnescape s))"

definition segment :: "string \<Rightarrow> string" where
  "segment s = (case PathUnescape s of Some t \<Rightarrow> t | None \<Rightarrow> s)"

text \<open>The keys under which the routing tree looks a path up; a trailing slash is the key \<open>/\<close>.\<close>

definition path_keys :: "string \<Rightarrow> string list" where
  "path_keys p = (let es = split_slash (tl p) in
     if last es = [] then map segment (butlast es) @ [''/''] else map segment es)"

subsection \<open>ServeMux\<close>

text \<open>
  A pattern of the program is the root, which matches every path, the root alone (\<open>/{$}\<close>), or a literal
  path without braces or a trailing slash. Registering a pattern equal to one already there panics, for
  which the result is \<open>None\<close>.
\<close>

datatype mux_pattern = Subtree | Exact "string list"

definition parse_pattern :: "string \<Rightarrow> mux_pattern" where
  "parse_pattern pat =
     (if pat = ''/'' then Subtree
      else if pat = ''/{$}'' then Exact [''/'']
      else Exact (map segment (split_slash (tl pat))))"

type_synonym 'h mux = "(mux_pattern \<times> 'h) list"

definition mux_Handle :: "string \<Rightarrow> 'h \<Rightarrow> 'h mux \<Rightarrow> 'h mux option" where
  "mux_Handle pat h mux =
     (if map_of mux (parse_pattern pat) \<noteq> None then None else Some ((parse_pattern pat, h) # mux))"

datatype 'h reply = Redirect string | Handled 'h | NotFound

text \<open>\<open>ServeMux.ServeHTTP\<close>: the handler of a request for the escaped path \<open>p\<close>.\<close>

definition dispatch :: "'h mux \<Rightarrow> string \<Rightarrow> 'h reply" where
  "dispatch mux p =
     (if CleanPath p \<noteq> p then Redirect (CleanPath p)
      else (case map_of mux (Exact (path_keys p)) of
              Some h \<Rightarrow> Handled h
            | None \<Rightarrow> (case map_of mux Subtree of Some h \<Rightarrow> Handled h | None \<Rightarrow> NotFound)))"

subsection \<open>Literal paths\<close>

lemma split_slash_nonempty [simp]: "split_slash s \<noteq> []"
  by (induction s) (auto split: list.split)

lemma split_slash_Cons:
  "c \<noteq> CHR ''/'' \<Longrightarrow> split_slash (c # s) = (c # hd (split_slash s)) # tl (split_slash s)"
  by (simp split: list.split)

lemma split_slash_slash: "split_slash (CHR ''/'' # s) = [] # split_slash s"
  by simp

declare split_slash.simps(2) [simp del]

lemma join_step: "xs \<noteq> [] \<Longrightarrow> join sep (x # xs) = x @ sep @ join sep xs"
  by (cases xs) auto

lemma join_Cons_chars: "xs \<noteq> [] \<Longrightarrow> join sep ((c # hd xs) # tl xs) = c # join sep xs"
  by (cases xs) (auto split: list.split)

lemma join_split_slash: "join ''/'' (split_slash s) = s"
proof (induction s)
  case (Cons c s)
  then show ?case
    by (cases "c = CHR ''/''") (simp_all add: split_slash_slash split_slash_Cons join_Cons_chars join_step del: join.simps)
qed simp

lemma split_slash_no_slash: "\<forall>e\<in>set (split_slash s). CHR ''/'' \<notin> set e"
proof (induction s)
  case (Cons c s)
  then show ?case
    using hd_in_set [OF split_slash_nonempty [of s]]
    by (cases "c = CHR ''/''") (auto simp: split_slash_slash split_slash_Cons dest!: list.set_sel(2) [OF split_slash_nonempty])
qed simp

lemma split_slash_chars: "\<forall>e\<in>set (split_slash s). set e \<subseteq> set s"
proof (induction s)
  case (Cons c s)
  then show ?case
    using hd_in_set [OF split_slash_nonempty [of s]]
    by (cases "c = CHR ''/''") (auto simp: split_slash_slash split_slash_Cons dest!: list.set_sel(2) [OF split_slash_nonempty])
qed simp

lemma PathUnescape_plain: "CHR ''%'' \<notin> set s \<Longrightarrow> PathUnescape s = Some s"
  by (induction s) auto

lemma segment_plain: "CHR ''%'' \<notin> set s \<Longrightarrow> segment s = s"
  by (simp add: segment_def PathUnescape_plain)

lemma map_segment_plain: "CHR ''%'' \<notin> set s \<Longrightarrow> map segment (split_slash s) = split_slash s"
  using split_slash_chars [of s] by (auto intro!: map_idI segment_plain)

text \<open>A path that does not end in a slash, other than by being the root, has its elements as keys.\<close>

lemma split_slash_Nil: "split_slash s = [[]] \<longleftrightarrow> s = []"
  using join_split_slash [of s] by auto

lemma last_split_slash: "last (split_slash s) = [] \<longleftrightarrow> s = [] \<or> last s = CHR ''/''"
proof (induction s)
  case (Cons c s)
  show ?case
  proof (cases "c = CHR ''/''")
    case True
    then show ?thesis using Cons by (simp add: split_slash_slash)
  next
    case False
    have "last (split_slash (c # s)) = [] \<longleftrightarrow> s \<noteq> [] \<and> last (split_slash s) = []"
    proof (cases "tl (split_slash s) = []")
      case True
      then obtain e where e: "split_slash s = [e]" by (metis list.exhaust_sel split_slash_nonempty)
      then show ?thesis using False split_slash_Nil [of s] by (auto simp: split_slash_Cons)
    next
      case tl: False
      then have "last (split_slash (c # s)) = last (split_slash s)"
        using False by (simp add: split_slash_Cons last_tl)
      then show ?thesis using tl by (cases s) auto
    qed
    then show ?thesis using Cons False by auto
  qed
qed simp

lemma path_keys_plain:
  assumes "CHR ''%'' \<notin> set s"
  shows "path_keys (CHR ''/'' # s) =
    (if s = [] \<or> last s = CHR ''/'' then butlast (split_slash s) @ [''/''] else split_slash s)"
proof -
  have "map segment (butlast (split_slash s)) = butlast (split_slash s)"
    using map_segment_plain [OF assms] by (simp add: map_butlast)
  then show ?thesis
    using assms by (simp add: path_keys_def Let_def map_segment_plain last_split_slash)
qed

text \<open>A literal pattern is reached by exactly one path without percent signs.\<close>

lemma literal_pattern:
  assumes "CHR ''%'' \<notin> set s" "CHR ''%'' \<notin> set t" "t \<noteq> []" "last t \<noteq> CHR ''/''"
  shows "path_keys (CHR ''/'' # s) = map segment (split_slash t) \<longleftrightarrow> s = t"
proof
  assume eq: "path_keys (CHR ''/'' # s) = map segment (split_slash t)"
  then have eq: "path_keys (CHR ''/'' # s) = split_slash t" by (simp add: map_segment_plain [OF assms(2)])
  have "\<not> (s = [] \<or> last s = CHR ''/'')"
  proof
    assume "s = [] \<or> last s = CHR ''/''"
    with eq have "''/'' \<in> set (split_slash t)" by (simp add: path_keys_plain [OF assms(1)]) (metis in_set_conv_decomp)
    with split_slash_no_slash [of t] show False by auto
  qed
  with eq have "split_slash s = split_slash t" by (simp add: path_keys_plain [OF assms(1)])
  then show "s = t" by (metis join_split_slash)
next
  assume "s = t"
  then show "path_keys (CHR ''/'' # s) = map segment (split_slash t)"
    using assms by (simp add: path_keys_plain map_segment_plain)
qed

lemma root_keys:
  assumes "CHR ''%'' \<notin> set s"
  shows "path_keys (CHR ''/'' # s) = [''/''] \<longleftrightarrow> s = []"
proof (cases "s = [] \<or> last s = CHR ''/''")
  case True
  then have "path_keys (CHR ''/'' # s) = [''/''] \<longleftrightarrow> butlast (split_slash s) = []"
    by (simp add: path_keys_plain [OF assms])
  also have "\<dots> \<longleftrightarrow> s = []"
  proof
    assume "butlast (split_slash s) = []"
    then obtain e where e: "split_slash s = [e]" by (metis append_butlast_last_id append_Nil split_slash_nonempty)
    with True last_split_slash [of s] have "e = []" by simp
    with e show "s = []" by (simp add: split_slash_Nil)
  qed simp
  finally show ?thesis .
next
  case False
  then show ?thesis
    using split_slash_no_slash [of s] by (auto simp: path_keys_plain [OF assms])
qed

lemma CleanPath_rooted: "\<exists>q. CleanPath p = CHR ''/'' # q"
  by (auto simp: CleanPath_def Clean_def Let_def)

lemma CleanPath_examples:
  "CleanPath ''/a//b'' = ''/a/b''" "CleanPath ''/a/./b/'' = ''/a/b/''" "CleanPath ''/../metrics'' = ''/metrics''"
  by code_simp+

end
