(* ===== verification/Server.thy ===== *)
theory Server
  imports Logging Go_Http
begin

section \<open>The HTTP endpoint (internal/metrics/server.go)\<close>

text \<open>
  \<open>NewServer\<close> with its listener and its multiplexer, and what \<open>Serve\<close> and \<open>Shutdown\<close> make of the
  errors of \<open>http.Server\<close>. The handlers are \<open>Collect\<close> behind the Prometheus library (theory Metrics) and
  the status page (theory Status_Page).
\<close>

definition readHeaderTimeout :: int64 where "readHeaderTimeout = 5 * Second"
definition writeTimeout :: int64 where "writeTimeout = 30 * Second"
definition idleTimeout :: int64 where "idleTimeout = 60 * Second"

datatype route = MetricsHandler | StatusHandler

text \<open>The struct \<open>Server\<close>, with the fields of its \<open>http.Server\<close>; the listener is the address it is bound to.\<close>

record http_server =
  hs_addr :: string
  hs_path :: string
  hs_mux :: "route mux"
  hs_read_header_timeout :: int64
  hs_write_timeout :: int64
  hs_idle_timeout :: int64

text \<open>
  What a call of \<open>NewServer\<close> comes to: a server, an error, or a panic of \<open>ServeMux.Handle\<close>, whose
  message names the two patterns.
\<close>

datatype new_server = Serving http_server | Refused goerr | MuxPanic string

text \<open>\<open>listen\<close> is \<open>net.Listen("tcp", addr)\<close>, which returns the address it bound.\<close>

definition NewServer ::
  "('w \<Rightarrow> string \<Rightarrow> 'w \<times> (goerr + string)) \<Rightarrow> 'w \<Rightarrow> metrics_config \<Rightarrow> 'w \<times> new_server" where
  "NewServer listen w cfg =
     (case ValidatePath cfg of
        Some err \<Rightarrow> (w, Refused (Errorf ''metrics: %w'' [] (Some err)))
      | None \<Rightarrow>
          (case listen w (m_listen cfg) of
             (w1, Inl err) \<Rightarrow> (w1, Refused (Errorf ''metrics: listen %s: %w'' [AS (m_listen cfg)] (Some err)))
           | (w1, Inr addr) \<Rightarrow>
               (w1, case Option.bind (mux_Handle (m_path cfg) MetricsHandler [])
                           (\<lambda>mux. if m_path cfg \<noteq> ''/'' then mux_Handle ''/{$}'' StatusHandler mux else Some mux) of
                      None \<Rightarrow> MuxPanic (''pattern /{$} conflicts with pattern '' @ m_path cfg)
                    | Some mux \<Rightarrow>
                        Serving \<lparr>hs_addr = addr, hs_path = m_path cfg, hs_mux = mux,
                          hs_read_header_timeout = readHeaderTimeout, hs_write_timeout = writeTimeout,
                          hs_idle_timeout = idleTimeout\<rparr>)))"

definition Server_Addr :: "http_server \<Rightarrow> string" where
  "Server_Addr s = hs_addr s"

text \<open>What \<open>Serve\<close> logs first, and what it makes of the error of \<open>http.Server.Serve\<close>.\<close>

definition Serve_log :: "http_server \<Rightarrow> log_call" where
  "Serve_log s = (LevelInfo, ''metrics exporter listening'',
     [(''addr'', VString (Server_Addr s)), (''path'', VString (hs_path s))])"

definition Serve_result :: "goerr option \<Rightarrow> goerr option" where
  "Serve_result err = (case err of
       None \<Rightarrow> None
     | Some e \<Rightarrow> if errors_Is e ErrServerClosed then None else Some (Errorf ''metrics: serve: %w'' [] (Some e)))"

definition Shutdown_result :: "goerr option \<Rightarrow> goerr option" where
  "Shutdown_result err = (case err of None \<Rightarrow> None | Some e \<Rightarrow> Some (Errorf ''metrics: shutdown: %w'' [] (Some e)))"

text \<open>The logger handed to promhttp; \<open>text\<close> is what \<open>fmt.Sprint\<close> made of the arguments.\<close>

definition slogErrorLog_Println :: "string \<Rightarrow> log_call" where
  "slogErrorLog_Println text = (LevelWarn, ''metrics endpoint error'', [(''error'', VString text)])"

end
