(* ===== verification/Run.thy ===== *)
theory Run
  imports Ledger Server
begin

section \<open>The main loop (Daemon.Run)\<close>

text \<open>
  \<open>Run_start\<close> is \<open>Run\<close> up to its loop, with every way it can return early; \<open>run_step\<close> is the loop
  and what happens around it: lines taken by the consumer goroutine, the cron goroutine, the
  cancellation of the context, the exporter dying. A step of the loop handles one ready case of the
  \<open>select\<close>; which one is left open, as in Go. A label carries the lines consumed during the step.

  \<open>run_libs\<close> are the calls into the operating system and the libraries: \<open>net.Listen\<close>,
  \<open>tail.TailFile\<close> and cron's \<open>AddFunc\<close>.
\<close>

record tail_config =
  tc_seek_end :: bool
  tc_reopen :: bool
  tc_follow :: bool
  tc_must_exist :: bool
  tc_poll :: bool
  tc_complete_lines :: bool

record 'w run_libs =
  rl_listen :: "'w \<Rightarrow> string \<Rightarrow> 'w \<times> (goerr + string)"
  rl_tail :: "'w \<Rightarrow> string \<Rightarrow> tail_config \<Rightarrow> 'w \<times> goerr option"
  rl_cron_add :: "string \<Rightarrow> goerr option"

datatype run_result = Returned "goerr option" | Panicked string

subsection \<open>The exporter's life\<close>

text \<open>
  The result is how \<open>Run\<close> ends if the exporter does not come up. The goroutine that serves, whose own
  log call is \<open>Serve_log\<close>, is the step \<open>ExporterDied\<close> below: when \<open>Serve\<close> comes back, \<open>serve_ended\<close> is
  what \<open>metricsErr\<close>, a channel of one element, holds.
\<close>

definition serve_ended :: "goerr option \<Rightarrow> goerr option \<Rightarrow> goerr option" where
  "serve_ended res ch =
     (case res of
        None \<Rightarrow> ch
      | Some err \<Rightarrow> (case ch of None \<Rightarrow> Some err | Some first \<Rightarrow> Some first))"

definition startMetrics :: "'w run_libs \<Rightarrow> 'w \<Rightarrow> daemon \<Rightarrow> 'w \<times> daemon \<times> run_result option" where
  "startMetrics rl w d =
     (if \<not> m_enabled (cfg_metrics (d_cfg d)) then (w, emit LevelDebug ''metrics exporter disabled'' [] d, None)
      else
        (case NewServer (rl_listen rl) w (cfg_metrics (d_cfg d)) of
           (w1, Refused err) \<Rightarrow> (w1, d, Some (Returned (Some err)))
         | (w1, MuxPanic msg) \<Rightarrow> (w1, d, Some (Panicked msg))
         | (w1, Serving srv) \<Rightarrow> (w1, d\<lparr>d_metricsAddr := Some (Server_Addr srv)\<rparr>, None)))"

text \<open>The function \<open>startMetrics\<close> returns; \<open>down\<close> is the error of \<open>srv.Shutdown\<close>. A no-op when disabled.\<close>

definition stopMetrics :: "goerr option \<Rightarrow> daemon \<Rightarrow> daemon" where
  "stopMetrics down d =
     (if \<not> m_enabled (cfg_metrics (d_cfg d)) then d
      else (let d1 = (case down of Some err \<Rightarrow> emit LevelWarn ''metrics exporter shutdown failed'' [(''error'', VError err)] d
                                 | None \<Rightarrow> d)
            in emit LevelDebug ''metrics exporter stopped'' [(''addr'', VString (MetricsAddr d))]
                 (d1\<lparr>d_metricsAddr := None\<rparr>)))"

subsection \<open>Starting\<close>

record 'w run =
  ru_w :: 'w
  ru_d :: daemon
  ru_resetCh :: bool
  ru_metricsErr :: "goerr option"
  ru_done :: bool
  ru_result :: "run_result option"

definition starting_attrs :: "daemon \<Rightarrow> attr list" where
  "starting_attrs d = (let c = d_cfg d in
     [(''log_path'', VString (cfg_log_path c)), (''actions'', vlen (cfg_actions c)),
      (''case_sensitive'', VBool (cfg_case_sensitive c)), (''flush_interval'', VInt (cfg_flush_interval c)),
      (''poll'', VBool (cfg_poll c)), (''redis'', VString (Addr (cfg_redis c))),
      (''redis_db'', VInt (r_db (cfg_redis c))), (''redis_ttl'', VDuration (TTLDuration (cfg_redis c))),
      (''host'', VString (s_host (d_store d))), (''heartbeat_key'', VBool (cfg_heartbeat_key c)),
      (''reset_enabled'', VBool (rs_enabled (cfg_reset c))), (''reset_schedule'', VString (rs_schedule (cfg_reset c))),
      (''metrics_enabled'', VBool (m_enabled (cfg_metrics c)))])"

definition started :: "'w \<Rightarrow> daemon \<Rightarrow> run_result option \<Rightarrow> 'w run" where
  "started w d res = \<lparr>ru_w = w, ru_d = d, ru_resetCh = False, ru_metricsErr = None, ru_done = False, ru_result = res\<rparr>"

text \<open>From the attached tailer to the loop. A non-positive interval makes \<open>time.NewTicker\<close> panic.\<close>

definition run_attached ::
  "'w denv \<Rightarrow> 'w run_libs \<Rightarrow> goerr option \<Rightarrow> tail_line list \<Rightarrow> 'w \<Rightarrow> daemon \<Rightarrow> 'w run" where
  "run_attached ev rl down ls w d =
     (case ensureInit ev w d of (w1, d1, _) \<Rightarrow>
      let d2 = consume_all (ev_uc ev) ls d1; cfg = d_cfg d in
      if seconds (cfg_flush_interval cfg) \<le>s 0 then
        started w1 d2 (Some (Panicked ''non-positive interval for NewTicker''))
      else if rs_enabled (cfg_reset cfg) then
        (case rl_cron_add rl (rs_schedule (cfg_reset cfg)) of
           Some err \<Rightarrow> started w1 (stopMetrics down d2) (Some (Returned (Some err)))
         | None \<Rightarrow> started w1 (emit LevelInfo ''reset scheduled''
                      [(''schedule'', VString (rs_schedule (cfg_reset cfg)))] d2) None)
      else started w1 (emit LevelInfo ''self-reset disabled, counters are zeroed externally'' [] d2) None)"

definition Run_start ::
  "'w denv \<Rightarrow> 'w run_libs \<Rightarrow> 'w os \<Rightarrow> goerr option \<Rightarrow> tail_line list \<Rightarrow> 'w \<Rightarrow> daemon \<Rightarrow> 'w run" where
  "Run_start ev rl os down ls w d0 =
     (let d = emit LevelInfo ''starting'' (starting_attrs d0) d0; path = cfg_log_path (d_cfg d) in
      case startMetrics rl w d of
        (w1, d1, Some result) \<Rightarrow> started w1 d1 (Some result)
      | (w1, d1, None) \<Rightarrow>
          (let found = os_stat os w1 path;
               d2 = emit LevelInfo (if found then ''log file found, tailing from its end''
                                    else ''log file does not exist yet, waiting for it'')
                      [(''log_path'', VString path)] d1;
               tc = \<lparr>tc_seek_end = found, tc_reopen = True, tc_follow = True, tc_must_exist = False,
                     tc_poll = cfg_poll (d_cfg d), tc_complete_lines = True\<rparr>
           in case rl_tail rl w1 path tc of
                (w2, Some err) \<Rightarrow> started w2 (stopMetrics down d2) (Some (Returned (Some err)))
              | (w2, None) \<Rightarrow> run_attached ev rl down ls w2 d2))"

subsection \<open>The loop\<close>

datatype run_label =
    Lines "tail_line list"
  | Fire
  | Cancel
  | ExporterDied
  | Tick "tail_line list"
  | ResetTaken "tail_line list"
  | Stop "tail_line list"
  | StopExporter "tail_line list"

text \<open>
  \<open>Fire\<close> is the cron function: the channel holds one reset, a second one is dropped. \<open>ExporterDied\<close> is
  the goroutine of \<open>startMetrics\<close> when \<open>Serve\<close> comes back: a first error stays. \<open>Stop\<close> and \<open>StopExporter\<close> are the
  two cases that end the loop, with the drain and the deferred shutdown of the exporter.
\<close>

inductive run_step :: "'w denv \<Rightarrow> 'w run \<Rightarrow> run_label \<Rightarrow> 'w run \<Rightarrow> bool" for ev where
  Lines: "ru_result s = None \<Longrightarrow>
     run_step ev s (Lines ls) (s\<lparr>ru_d := consume_all (ev_uc ev) ls (ru_d s)\<rparr>)"
| Fire: "ru_result s = None \<Longrightarrow> rs_enabled (cfg_reset (d_cfg (ru_d s))) \<Longrightarrow>
     run_step ev s Fire (s\<lparr>ru_resetCh := True\<rparr>)"
| Cancel: "ru_result s = None \<Longrightarrow> run_step ev s Cancel (s\<lparr>ru_done := True\<rparr>)"
| ExporterDied: "ru_result s = None \<Longrightarrow> d_metricsAddr (ru_d s) \<noteq> None \<Longrightarrow>
     run_step ev s ExporterDied (s\<lparr>ru_metricsErr := serve_ended (Serve_result failure) (ru_metricsErr s)\<rparr>)"
| Tick: "ru_result s = None \<Longrightarrow> Flush ev arr (ru_w s) (ru_d s) = (w', d') \<Longrightarrow>
     run_step ev s (Tick arr) (s\<lparr>ru_w := w', ru_d := d'\<rparr>)"
| ResetTaken: "ru_result s = None \<Longrightarrow> ru_resetCh s \<Longrightarrow>
     d1 = emit LevelInfo ''scheduled reset fired'' [(''schedule'', VString (rs_schedule (cfg_reset (d_cfg (ru_d s)))))] (ru_d s) \<Longrightarrow>
     Reset ev arr (ru_w s) d1 = (w', d') \<Longrightarrow>
     run_step ev s (ResetTaken arr) (s\<lparr>ru_resetCh := False, ru_w := w', ru_d := d'\<rparr>)"
| Stop: "ru_result s = None \<Longrightarrow> ru_done s \<Longrightarrow>
     drain ev stopped rest (ru_w s) (emit LevelInfo ''shutting down, flushing buffer'' [] (ru_d s)) = (w', d') \<Longrightarrow>
     run_step ev s (Stop rest)
       (s\<lparr>ru_w := w', ru_d := stopMetrics down (emit LevelInfo ''stopped'' [] d'), ru_result := Some (Returned None)\<rparr>)"
| StopExporter: "ru_result s = None \<Longrightarrow> ru_metricsErr s = Some err \<Longrightarrow>
     drain ev stopped rest (ru_w s)
       (emit LevelError ''metrics exporter failed, shutting down'' [(''error'', VError err)] (ru_d s)) = (w', d') \<Longrightarrow>
     run_step ev s (StopExporter rest)
       (s\<lparr>ru_w := w', ru_d := stopMetrics down d', ru_metricsErr := None, ru_result := Some (Returned (Some err))\<rparr>)"

inductive_cases run_step_Lines: "run_step ev s (Lines ls) t"
inductive_cases run_step_Tick: "run_step ev s (Tick arr) t"
inductive_cases run_step_ResetTaken: "run_step ev s (ResetTaken arr) t"
inductive_cases run_step_Stop: "run_step ev s (Stop rest) t"
inductive_cases run_step_StopExporter: "run_step ev s (StopExporter rest) t"

text \<open>A run: a sequence of steps with its labels.\<close>

inductive run_trace :: "'w denv \<Rightarrow> 'w run \<Rightarrow> run_label list \<Rightarrow> 'w run \<Rightarrow> bool" for ev where
  Nil: "run_trace ev s [] s"
| Cons: "run_step ev s l t \<Longrightarrow> run_trace ev t ls u \<Longrightarrow> run_trace ev s (l # ls) u"

text \<open>The lines a step consumes.\<close>

primrec label_lines :: "run_label \<Rightarrow> tail_line list" where
  "label_lines (Lines ls) = ls"
| "label_lines Fire = []"
| "label_lines Cancel = []"
| "label_lines ExporterDied = []"
| "label_lines (Tick ls) = ls"
| "label_lines (ResetTaken ls) = ls"
| "label_lines (Stop ls) = ls"
| "label_lines (StopExporter ls) = ls"

definition is_reset :: "run_label \<Rightarrow> bool" where
  "is_reset l = (case l of ResetTaken ls \<Rightarrow> True | _ \<Rightarrow> False)"

lemma texts_append [simp]: "texts (as @ bs) = texts as @ texts bs"
  by (induction as) (auto split: tail_line.split)

end
