(* ===== verification/Run_Ledger.thy ===== *)
theory Run_Ledger
  imports Run
begin

section \<open>A run against the abstract ledger\<close>

text \<open>
  The abstract ledger of a word has two numbers, what the database shows and what is held back; it
  knows three events: lines arrive, the held increments of some words are written, everything shown
  is zeroed. Each step of the loop is a short sequence of such events (with clean failures); the bound
  on the number of lines keeps the 64-bit increments from overflowing.
\<close>

subsection \<open>The abstract ledger\<close>

record ledger =
  lg_shown :: "string \<Rightarrow> int"
  lg_held :: "string \<Rightarrow> int"

datatype ledger_event = Arrive "string \<Rightarrow> nat" | Write "string set" | Zero

fun ledger_apply :: "ledger_event \<Rightarrow> ledger \<Rightarrow> ledger" where
  "ledger_apply (Arrive n) l = l\<lparr>lg_held := (\<lambda>a. lg_held l a + int (n a))\<rparr>"
| "ledger_apply (Write S) l =
     \<lparr>lg_shown = (\<lambda>a. if a \<in> S then lg_shown l a + lg_held l a else lg_shown l a),
      lg_held = (\<lambda>a. if a \<in> S then 0 else lg_held l a)\<rparr>"
| "ledger_apply Zero l = l\<lparr>lg_shown := (\<lambda>a. 0)\<rparr>"

text \<open>The events a step may stand for; \<open>n\<close> counts the lines of the step that match a word.\<close>

fun ledger_events :: "(string \<Rightarrow> nat) \<Rightarrow> run_label \<Rightarrow> ledger_event list \<Rightarrow> bool" where
  "ledger_events n (Lines ls) es \<longleftrightarrow> es = [Arrive n]"
| "ledger_events n (Tick ls) es \<longleftrightarrow> (\<exists>S. es = [Write S, Arrive n])"
| "ledger_events n (ResetTaken ls) es \<longleftrightarrow> (\<exists>S. es = [Write S, Arrive n, Zero])"
| "ledger_events n (Stop ls) es \<longleftrightarrow> (\<exists>S. es = [Arrive n, Write S])"
| "ledger_events n (StopExporter ls) es \<longleftrightarrow> (\<exists>S. es = [Arrive n, Write S])"
| "ledger_events n l es \<longleftrightarrow> es = []"

definition ledger_of :: "('w \<Rightarrow> db) \<Rightarrow> 'w run \<Rightarrow> ledger" where
  "ledger_of view s =
     (let ws = set (d_actions (ru_d s)) in
      \<lparr>lg_shown = (\<lambda>a. if a \<in> ws then shown view (ru_w s) (ru_d s) a else 0),
       lg_held = (\<lambda>a. if a \<in> ws then held (ru_d s) a else 0)\<rparr>)"

subsection \<open>Bounded buffers\<close>

definition bounded_buffer :: "nat \<Rightarrow> daemon \<Rightarrow> bool" where
  "bounded_buffer n d \<longleftrightarrow> (\<forall>a\<in>set (d_actions d). 0 \<le> held d a \<and> held d a \<le> int n)"

lemma bounded_unsigned: "bounded_buffer n d \<Longrightarrow> unsigned_buffer d"
  by (simp add: bounded_buffer_def unsigned_buffer_def)

lemma arrived_le: "arrived uc d ls a \<le> length (texts ls)"
  unfolding arrived_def by (rule hits_le)

lemma sint_add_nat:
  assumes "0 \<le> sint (x :: int64)" "sint x \<le> int n" "m \<le> k" "n + k < 2 ^ 63"
  shows "sint (x + of_nat m) = sint x + int m"
proof -
  have "sint (of_nat m :: int64) = int m" using assms by (intro sint_of_nat) simp
  then show ?thesis using assms sint_add_int64 [of x "of_nat m"] by simp
qed

text \<open>The effect of a flush, in unbounded integers.\<close>

lemma flush_effect_held:
  assumes "flush_effect uc clean view arr S w d w' d'" "bounded_buffer n d" "n + length (texts arr) < 2 ^ 63"
    "a \<in> set (d_actions d)"
  shows "held d' a = (if a \<in> S then 0 else held d a) + int (arrived uc d arr a)"
proof -
  have b: "buffered (d_cnt d') a = (if a \<in> S then 0 else buffered (d_cnt d) a) + of_nat (arrived uc d arr a)"
    using assms(1,4) by (simp add: flush_effect_def)
  have h: "0 \<le> held d a" "held d a \<le> int n" using assms(2,4) by (simp_all add: bounded_buffer_def)
  show ?thesis
  proof (cases "a \<in> S")
    case True
    have "sint (0 + of_nat (arrived uc d arr a) :: int64) = sint (0 :: int64) + int (arrived uc d arr a)"
      by (rule sint_add_nat [of 0 n, OF _ _ arrived_le assms(3)]) simp_all
    with True b show ?thesis by (simp add: held_def)
  next
    case False
    with b h sint_add_nat [OF _ _ arrived_le assms(3), of "buffered (d_cnt d) a"] show ?thesis
      by (simp add: held_def)
  qed
qed

lemma flush_effect_bounded:
  assumes "flush_effect uc clean view arr S w d w' d'" "bounded_buffer n d" "n + length (texts arr) < 2 ^ 63"
    "d_cfg d' = d_cfg d"
  shows "bounded_buffer (n + length (texts arr)) d'"
  unfolding bounded_buffer_def
proof
  fix a assume "a \<in> set (d_actions d')"
  then have a: "a \<in> set (d_actions d)" using assms(4) by simp
  have "int (arrived uc d arr a) \<le> int (length (texts arr))" using arrived_le by simp
  moreover have "0 \<le> held d a" "held d a \<le> int n" using assms(2) a by (simp_all add: bounded_buffer_def)
  ultimately show "0 \<le> held d' a \<and> held d' a \<le> int (n + length (texts arr))"
    using flush_effect_held [OF assms(1-3) a] by (cases "a \<in> S") simp_all
qed

lemma consume_effect:
  assumes "daemon_ok uc d" "bounded_buffer n d" "n + length (texts ls) < 2 ^ 63" "a \<in> set (d_actions d)"
  shows "held (consume_all uc ls d) a = held d a + int (arrived uc d ls a)"
proof -
  have "flush_effect uc True (\<lambda>_. Map.empty) ls {} () d () (consume_all uc ls d)"
    using assms(1) by (intro flush_effect_none) (simp_all add: shown_def)
  from flush_effect_held [OF this assms(2,3,4)] show ?thesis by simp
qed

lemma consume_bounded:
  assumes "daemon_ok uc d" "bounded_buffer n d" "n + length (texts ls) < 2 ^ 63"
  shows "bounded_buffer (n + length (texts ls)) (consume_all uc ls d)"
  unfolding bounded_buffer_def
proof
  fix a assume "a \<in> set (d_actions (consume_all uc ls d))"
  then have a: "a \<in> set (d_actions d)" by simp
  have "int (arrived uc d ls a) \<le> int (length (texts ls))" using arrived_le by simp
  moreover have "0 \<le> held d a" "held d a \<le> int n" using assms(2) a by (simp_all add: bounded_buffer_def)
  ultimately show "0 \<le> held (consume_all uc ls d) a \<and> held (consume_all uc ls d) a \<le> int (n + length (texts ls))"
    using consume_effect [OF assms a] by simp
qed

subsection \<open>One step\<close>

text \<open>What each step guarantees; \<open>S\<close> are the words a flush has written.\<close>

definition step_effect ::
  "unicode \<Rightarrow> bool \<Rightarrow> ('w \<Rightarrow> db) \<Rightarrow> run_label \<Rightarrow> string set \<Rightarrow> 'w run \<Rightarrow> 'w run \<Rightarrow> bool" where
  "step_effect uc clean view l S s t \<longleftrightarrow>
     (\<forall>a\<in>set (d_actions (ru_d s)).
        let n = int (arrived uc (ru_d s) (label_lines l) a); h = held (ru_d s) a;
            x = shown view (ru_w s) (ru_d s) a; y = shown view (ru_w t) (ru_d t) a; h' = held (ru_d t) a
        in case l of
             Tick _ \<Rightarrow> h' = (if a \<in> S then 0 else h) + n \<and> moved clean h (a \<notin> S) x y
           | ResetTaken _ \<Rightarrow> h' = (if a \<in> S then 0 else h) + n \<and> y = 0
           | Stop _ \<Rightarrow> h' = (if a \<in> S then 0 else h + n) \<and> moved clean (h + n) (a \<notin> S) x y
           | StopExporter _ \<Rightarrow> h' = (if a \<in> S then 0 else h + n) \<and> moved clean (h + n) (a \<notin> S) x y
           | _ \<Rightarrow> h' = h + n \<and> y = x)"

text \<open>What every step keeps: the configuration, the store, and the well-formedness of the daemon.\<close>

definition step_keeps :: "unicode \<Rightarrow> nat \<Rightarrow> 'w run \<Rightarrow> 'w run \<Rightarrow> bool" where
  "step_keeps uc n s t \<longleftrightarrow> d_cfg (ru_d t) = d_cfg (ru_d s) \<and> d_store (ru_d t) = d_store (ru_d s) \<and>
     daemon_ok uc (ru_d t) \<and> bounded_buffer n (ru_d t)"

lemma stopMetrics_fields [simp]:
  "d_cfg (stopMetrics down d) = d_cfg d" "d_store (stopMetrics down d) = d_store d" "d_cnt (stopMetrics down d) = d_cnt d"
  "d_pendingResets (stopMetrics down d) = d_pendingResets d"
  by (auto simp: stopMetrics_def Let_def split: option.split)

lemma shown_emit [simp]: "shown view w (emit l m as d) = shown view w d"
  by (simp add: shown_def fun_eq_iff)

lemma held_emit [simp]: "held (emit l m as d) = held d"
  by (simp add: held_def fun_eq_iff)

lemma ok_emit [simp]: "daemon_ok uc (emit l m as d) = daemon_ok uc d"
  "bounded_buffer n (emit l m as d) = bounded_buffer n d" "arrived uc (emit l m as d) = arrived uc d"
  by (simp_all add: daemon_ok_def bounded_buffer_def arrived_def fun_eq_iff)

lemma flush_step:
  assumes "env_good (env_of ev view)" "daemon_ok (ev_uc ev) d" "bounded_buffer n d"
    "n + length (texts arr) < 2 ^ 63" "Flush ev arr w d = (w', d')"
  obtains S where "d_cfg d' = d_cfg d" "d_store d' = d_store d" "daemon_ok (ev_uc ev) d'"
    "bounded_buffer (n + length (texts arr)) d'"
    "\<forall>a\<in>set (d_actions d). held d' a = (if a \<in> S then 0 else held d a) + int (arrived (ev_uc ev) d arr a) \<and>
       moved (env_clean (env_of ev view)) (held d a) (a \<notin> S) (shown view w d a) (shown view w' d' a)"
proof -
  from Flush_moves [OF assms(1,2) bounded_unsigned [OF assms(3)] assms(5)] obtain S where
    F: "d_cfg d' = d_cfg d" "d_store d' = d_store d" "daemon_ok (ev_uc ev) d'"
    "flush_effect (ev_uc ev) (env_clean (env_of ev view)) view arr S w d w' d'" by blast
  show ?thesis
  proof (rule that [of S])
    show "bounded_buffer (n + length (texts arr)) d'" by (rule flush_effect_bounded [OF F(4) assms(3,4) F(1)])
    show "\<forall>a\<in>set (d_actions d). held d' a = (if a \<in> S then 0 else held d a) + int (arrived (ev_uc ev) d arr a) \<and>
       moved (env_clean (env_of ev view)) (held d a) (a \<notin> S) (shown view w d a) (shown view w' d' a)"
      using flush_effect_held [OF F(4) assms(3,4)] F(4) by (simp add: flush_effect_def)
  qed (fact F)+
qed

lemma drain_step:
  assumes "env_good (env_of ev view)" "daemon_ok (ev_uc ev) d" "bounded_buffer n d"
    "n + length (texts rest) < 2 ^ 63" "drain ev stopped rest w d = (w', d')"
  obtains S where "d_cfg d' = d_cfg d" "d_store d' = d_store d" "daemon_ok (ev_uc ev) d'"
    "bounded_buffer (n + length (texts rest)) d'"
    "\<forall>a\<in>set (d_actions d). held d' a = (if a \<in> S then 0 else held d a + int (arrived (ev_uc ev) d rest a)) \<and>
       moved (env_clean (env_of ev view)) (held d a + int (arrived (ev_uc ev) d rest a)) (a \<notin> S)
         (shown view w d a) (shown view w' d' a)"
proof -
  define d1 where "d1 = (case stopped of Some err \<Rightarrow> emit LevelWarn ''tail stopped with error'' [(''error'', VError err)] d | None \<Rightarrow> d)"
  have d1: "daemon_ok (ev_uc ev) d1" "bounded_buffer n d1" "d_actions d1 = d_actions d" "d_store d1 = d_store d"
    "arrived (ev_uc ev) d1 = arrived (ev_uc ev) d" "held d1 = held d" "d_cfg d1 = d_cfg d" "shown view w d1 = shown view w d"
    using assms(2,3) by (simp_all add: d1_def split: option.split)
  let ?d2 = "consume_all (ev_uc ev) rest d1"
  have f: "Flush ev [] w ?d2 = (w', d')" using assms(5) by (simp add: drain_def Let_def d1_def)
  have c: "daemon_ok (ev_uc ev) ?d2" "bounded_buffer (n + length (texts rest)) ?d2"
    using d1 daemon_ok_consume_all consume_bounded [OF d1(1,2) assms(4)] by auto
  have h: "held ?d2 a = held d a + int (arrived (ev_uc ev) d rest a)" if "a \<in> set (d_actions d)" for a
    using consume_effect [OF d1(1,2) assms(4)] that d1 by simp
  have s: "shown view w ?d2 a = shown view w d a" for a
    using d1(8) shown_cong [of ?d2 d1 view w a] by simp
  from assms(4) have "n + length (texts rest) + length (texts []) < 2 ^ 63" by simp
  from flush_step [OF assms(1) c this f] obtain S where
    F: "d_cfg d' = d_cfg ?d2" "d_store d' = d_store ?d2" "daemon_ok (ev_uc ev) d'"
    "bounded_buffer (n + length (texts rest) + length (texts [])) d'"
    "\<forall>a\<in>set (d_actions ?d2). held d' a = (if a \<in> S then 0 else held ?d2 a) + int (arrived (ev_uc ev) ?d2 [] a) \<and>
       moved (env_clean (env_of ev view)) (held ?d2 a) (a \<notin> S) (shown view w ?d2 a) (shown view w' d' a)" .
  have "arrived (ev_uc ev) ?d2 [] a = 0" for a by (simp add: arrived_def hits_def)
  with F d1 h s show ?thesis by (intro that [of S]) simp_all
qed


lemma arrived_cong:
  assumes "daemon_ok uc d" "daemon_ok uc d'" "d_cfg d' = d_cfg d"
  shows "arrived uc d' ls a = arrived uc d ls a"
  using assms by (simp add: arrived_def daemon_ok_def hits_def)

lemma run_step_effect:
  assumes g: "env_good (env_of ev view)" and ok: "daemon_ok (ev_uc ev) (ru_d s)" and b: "bounded_buffer n (ru_d s)"
    and m: "n + length (texts (label_lines l)) < 2 ^ 63" and st: "run_step ev s l t"
  obtains S where "step_effect (ev_uc ev) (env_clean (env_of ev view)) view l S s t"
    "step_keeps (ev_uc ev) (n + length (texts (label_lines l))) s t"
proof -
  let ?uc = "ev_uc ev" and ?cl = "env_clean (env_of ev view)"
  from st show ?thesis
  proof cases
    case (Lines ls)
    have sh: "shown view w (consume_all ?uc ls (ru_d s)) a = shown view w (ru_d s) a" for w a
      by (rule shown_cong) simp_all
    from ok b m Lines show ?thesis
      using consume_effect [OF ok b, of ls] consume_bounded [OF ok b, of ls]
      by (intro that [of "{}"]) (simp_all add: step_effect_def step_keeps_def Let_def daemon_ok_consume_all sh)
  next
    case Fire
    with ok b show ?thesis
      by (intro that [of "{}"]) (simp_all add: step_effect_def step_keeps_def Let_def arrived_def hits_def)
  next
    case Cancel
    with ok b show ?thesis
      by (intro that [of "{}"]) (simp_all add: step_effect_def step_keeps_def Let_def arrived_def hits_def)
  next
    case ExporterDied
    with ok b show ?thesis
      by (intro that [of "{}"]) (simp_all add: step_effect_def step_keeps_def Let_def arrived_def hits_def)
  next
    case (Tick arr w' d')
    from m Tick(1) have m': "n + length (texts arr) < 2 ^ 63" by simp
    from flush_step [OF g ok b m' Tick(4)] obtain S where
      F: "d_cfg d' = d_cfg (ru_d s)" "d_store d' = d_store (ru_d s)" "daemon_ok ?uc d'"
      "bounded_buffer (n + length (texts arr)) d'"
      "\<forall>a\<in>set (d_actions (ru_d s)). held d' a = (if a \<in> S then 0 else held (ru_d s) a) + int (arrived ?uc (ru_d s) arr a) \<and>
       moved ?cl (held (ru_d s) a) (a \<notin> S) (shown view (ru_w s) (ru_d s) a) (shown view w' d' a)" .
    with Tick show ?thesis by (intro that [of S]) (simp_all add: step_effect_def step_keeps_def Let_def)
  next
    case (ResetTaken d1 arr w' d')
    from m ResetTaken(1) have m': "n + length (texts arr) < 2 ^ 63" by simp
    have ok1: "daemon_ok ?uc d1" "bounded_buffer n d1" using ok b by (simp_all add: ResetTaken(5))
    from Reset_moves [OF g ok1(1) bounded_unsigned [OF ok1(2)] ResetTaken(6)] obtain w2 d2 where
      R: "d_cfg d' = d_cfg d1" "d_store d' = d_store d1" "daemon_ok ?uc d'"
      "\<forall>a\<in>set (d_actions d1). shown view w' d' a = 0" "Flush ev arr (ru_w s) d1 = (w2, d2)" "d_cnt d' = d_cnt d2"
      by blast
    from flush_step [OF g ok1 m' R(5)] obtain S where
      F: "d_cfg d2 = d_cfg d1" "d_store d2 = d_store d1" "daemon_ok ?uc d2" "bounded_buffer (n + length (texts arr)) d2"
      "\<forall>a\<in>set (d_actions d1). held d2 a = (if a \<in> S then 0 else held d1 a) + int (arrived ?uc d1 arr a) \<and>
       moved ?cl (held d1 a) (a \<notin> S) (shown view (ru_w s) d1 a) (shown view w2 d2 a)" .
    have h: "held d' = held d2" by (simp add: held_def fun_eq_iff R(6))
    from F R ResetTaken h show ?thesis
      by (intro that [of S]) (simp_all add: step_effect_def step_keeps_def Let_def bounded_buffer_def)
  next
    case (Stop stopped rest w' d' down)
    from m Stop(1) have m': "n + length (texts rest) < 2 ^ 63" by simp
    let ?d = "emit LevelInfo ''shutting down, flushing buffer'' [] (ru_d s)"
    have "daemon_ok ?uc ?d" "bounded_buffer n ?d" using ok b by simp_all
    from drain_step [OF g this m' Stop(5)] obtain S where
      F: "d_cfg d' = d_cfg ?d" "d_store d' = d_store ?d" "daemon_ok ?uc d'" "bounded_buffer (n + length (texts rest)) d'"
      "\<forall>a\<in>set (d_actions ?d). held d' a = (if a \<in> S then 0 else held ?d a + int (arrived ?uc ?d rest a)) \<and>
       moved ?cl (held ?d a + int (arrived ?uc ?d rest a)) (a \<notin> S) (shown view (ru_w s) ?d a) (shown view w' d' a)" .
    let ?t = "stopMetrics down (emit LevelInfo ''stopped'' [] d')"
    have t: "held ?t = held d'" "shown view w' ?t = shown view w' d'" "daemon_ok ?uc ?t"
      "bounded_buffer (n + length (texts rest)) ?t"
      using F by (simp_all add: held_def shown_def fun_eq_iff daemon_ok_def bounded_buffer_def)
    from F t Stop show ?thesis by (intro that [of S]) (simp_all add: step_effect_def step_keeps_def Let_def)
  next
    case (StopExporter err stopped rest w' d' down)
    from m StopExporter(1) have m': "n + length (texts rest) < 2 ^ 63" by simp
    let ?d = "emit LevelError ''metrics exporter failed, shutting down'' [(''error'', VError err)] (ru_d s)"
    have "daemon_ok ?uc ?d" "bounded_buffer n ?d" using ok b by simp_all
    from drain_step [OF g this m' StopExporter(5)] obtain S where
      F: "d_cfg d' = d_cfg ?d" "d_store d' = d_store ?d" "daemon_ok ?uc d'" "bounded_buffer (n + length (texts rest)) d'"
      "\<forall>a\<in>set (d_actions ?d). held d' a = (if a \<in> S then 0 else held ?d a + int (arrived ?uc ?d rest a)) \<and>
       moved ?cl (held ?d a + int (arrived ?uc ?d rest a)) (a \<notin> S) (shown view (ru_w s) ?d a) (shown view w' d' a)" .
    let ?t = "stopMetrics down d'"
    have t: "held ?t = held d'" "shown view w' ?t = shown view w' d'" "daemon_ok ?uc ?t"
      "bounded_buffer (n + length (texts rest)) ?t"
      using F by (simp_all add: held_def shown_def fun_eq_iff daemon_ok_def bounded_buffer_def)
    from F t StopExporter show ?thesis by (intro that [of S]) (simp_all add: step_effect_def step_keeps_def Let_def)
  qed
qed


subsection \<open>Whole runs\<close>

abbreviation trace_lines :: "run_label list \<Rightarrow> tail_line list" where
  "trace_lines ls \<equiv> concat (map label_lines ls)"

lemma hits_append: "hits uc c (xs @ ys) a = hits uc c xs a + hits uc c ys a"
  by (simp add: hits_def)

lemma arrived_append: "arrived uc d (xs @ ys) a = arrived uc d xs a + arrived uc d ys a"
  by (simp add: arrived_def hits_append)

text \<open>What is accounted for a word: shown or held back.\<close>

definition accounted :: "('w \<Rightarrow> db) \<Rightarrow> 'w run \<Rightarrow> string \<Rightarrow> int" where
  "accounted view s a = shown view (ru_w s) (ru_d s) a + held (ru_d s) a"

lemma step_accounted:
  assumes "step_effect uc clean view l S s t" "\<not> is_reset l" "a \<in> set (d_actions (ru_d s))" "0 \<le> held (ru_d s) a"
  shows "accounted view s a + int (arrived uc (ru_d s) (label_lines l) a) \<le> accounted view t a"
    and "clean \<Longrightarrow> accounted view t a = accounted view s a + int (arrived uc (ru_d s) (label_lines l) a)"
proof -
  note e = bspec [OF assms(1) [unfolded step_effect_def] assms(3)]
  show "accounted view s a + int (arrived uc (ru_d s) (label_lines l) a) \<le> accounted view t a"
    using e assms(2,4)
    by (cases l) (auto simp: accounted_def is_reset_def Let_def dest!: moved_le split: if_split_asm)
  assume clean
  with e assms(2) show "accounted view t a = accounted view s a + int (arrived uc (ru_d s) (label_lines l) a)"
    by (cases l) (auto simp: accounted_def is_reset_def moved_clean Let_def split: if_split_asm)
qed

lemma run_trace_accounted:
  assumes "run_trace ev s ls t" "env_good (env_of ev view)" "daemon_ok (ev_uc ev) (ru_d s)"
    "bounded_buffer n (ru_d s)" "n + length (texts (trace_lines ls)) < 2 ^ 63" "\<forall>l\<in>set ls. \<not> is_reset l"
    "a \<in> set (d_actions (ru_d s))"
  shows "accounted view s a + int (arrived (ev_uc ev) (ru_d s) (trace_lines ls) a) \<le> accounted view t a \<and>
    (env_clean (env_of ev view) \<longrightarrow>
       accounted view t a = accounted view s a + int (arrived (ev_uc ev) (ru_d s) (trace_lines ls) a))"
  using assms
proof (induction arbitrary: n rule: run_trace.induct)
  case (Nil s)
  then show ?case by (simp add: arrived_def hits_def)
next
  case (Cons s l t ls u)
  let ?uc = "ev_uc ev"
  have m: "n + length (texts (label_lines l)) < 2 ^ 63" using Cons.prems(4) by simp
  from run_step_effect [OF Cons.prems(1,2,3) m Cons.hyps(1)] obtain S where
    e: "step_effect ?uc (env_clean (env_of ev view)) view l S s t"
    and k: "step_keeps ?uc (n + length (texts (label_lines l))) s t" .
  have h: "0 \<le> held (ru_d s) a" using Cons.prems(3,6) by (simp add: bounded_buffer_def)
  have "\<not> is_reset l" using Cons.prems(5) by simp
  note A = step_accounted [OF e this Cons.prems(6) h]
  have c: "arrived ?uc (ru_d t) xs a = arrived ?uc (ru_d s) xs a" for xs
    using k Cons.prems(2) by (intro arrived_cong) (simp_all add: step_keeps_def)
  have "accounted view t a + int (arrived ?uc (ru_d t) (trace_lines ls) a) \<le> accounted view u a \<and>
    (env_clean (env_of ev view) \<longrightarrow>
       accounted view u a = accounted view t a + int (arrived ?uc (ru_d t) (trace_lines ls) a))"
    using k Cons.prems by (intro Cons.IH [of "n + length (texts (label_lines l))"]) (simp_all add: step_keeps_def)
  then show ?case using A by (simp add: c arrived_append)
qed

text \<open>One step refines the abstract ledger.\<close>

lemma step_refines:
  assumes "step_effect uc True view l S s t" "d_cfg (ru_d t) = d_cfg (ru_d s)"
    "c_actions (d_cnt (ru_d s)) = d_actions (ru_d s)"
  shows "\<exists>es. ledger_events (arrived uc (ru_d s) (label_lines l)) l es \<and>
    ledger_of view t = fold ledger_apply es (ledger_of view s)"
proof -
  let ?n = "arrived uc (ru_d s) (label_lines l)" and ?ws = "set (d_actions (ru_d s))"
  define es where "es = (case l of Lines _ \<Rightarrow> [Arrive ?n] | Tick _ \<Rightarrow> [Write S, Arrive ?n]
    | ResetTaken _ \<Rightarrow> [Write S, Arrive ?n, Zero] | Stop _ \<Rightarrow> [Arrive ?n, Write S]
    | StopExporter _ \<Rightarrow> [Arrive ?n, Write S] | _ \<Rightarrow> [])"
  have out: "?n a = 0" if "a \<notin> ?ws" for a using that assms(3) by (simp add: arrived_def hits_def)
  have nolines: "arrived uc (ru_d s) [] a = 0" for a by (simp add: arrived_def hits_def)
  have ev: "ledger_events ?n l es" by (cases l) (auto simp: es_def)
  have "lg_shown (ledger_of view t) a = lg_shown (fold ledger_apply es (ledger_of view s)) a \<and>
    lg_held (ledger_of view t) a = lg_held (fold ledger_apply es (ledger_of view s)) a" for a
  proof (cases "a \<in> ?ws")
    case True
    note E = bspec [OF assms(1) [unfolded step_effect_def] True]
    show ?thesis
      using E True assms(2) nolines [of a]
      by (cases l) (simp_all add: es_def ledger_of_def moved_clean Let_def)
  next
    case False
    then show ?thesis
      using out [OF False] nolines [of a] assms(2) by (cases l) (simp_all add: es_def ledger_of_def Let_def)
  qed
  then have "lg_shown (ledger_of view t) = lg_shown (fold ledger_apply es (ledger_of view s))"
    and "lg_held (ledger_of view t) = lg_held (fold ledger_apply es (ledger_of view s))"
    by (auto simp only: fun_eq_iff)
  then have "ledger_of view t = fold ledger_apply es (ledger_of view s)"
    by (rule ledger.equality) simp
  with ev show ?thesis by blast
qed

lemma run_trace_refines:
  assumes "run_trace ev s ls t" "env_good (env_of ev view)" "env_clean (env_of ev view)" "daemon_ok (ev_uc ev) (ru_d s)"
    "bounded_buffer n (ru_d s)" "n + length (texts (trace_lines ls)) < 2 ^ 63"
  shows "\<exists>ess. list_all2 (\<lambda>l es. ledger_events (arrived (ev_uc ev) (ru_d s) (label_lines l)) l es) ls ess \<and>
    ledger_of view t = fold ledger_apply (concat ess) (ledger_of view s)"
  using assms
proof (induction arbitrary: n rule: run_trace.induct)
  case (Cons s l t ls u)
  let ?uc = "ev_uc ev"
  have m: "n + length (texts (label_lines l)) < 2 ^ 63" using Cons.prems(5) by simp
  from run_step_effect [OF Cons.prems(1,3,4) m Cons.hyps(1)] obtain S where
    e: "step_effect ?uc True view l S s t"
    and k: "step_keeps ?uc (n + length (texts (label_lines l))) s t" using Cons.prems(2) by auto
  from step_refines [OF e] k Cons.prems(3) obtain es where
    es: "ledger_events (arrived ?uc (ru_d s) (label_lines l)) l es"
    "ledger_of view t = fold ledger_apply es (ledger_of view s)"
    by (auto simp: step_keeps_def daemon_ok_def)
  have c: "arrived ?uc (ru_d t) xs = arrived ?uc (ru_d s) xs" for xs
    by (rule ext, rule arrived_cong) (use k Cons.prems(3) in \<open>simp_all add: step_keeps_def\<close>)
  have "\<exists>ess. list_all2 (\<lambda>l es. ledger_events (arrived ?uc (ru_d t) (label_lines l)) l es) ls ess \<and>
    ledger_of view u = fold ledger_apply (concat ess) (ledger_of view t)"
    using k Cons.prems by (intro Cons.IH [of "n + length (texts (label_lines l))"]) (simp_all add: step_keeps_def)
  then obtain ess where ess: "list_all2 (\<lambda>l es. ledger_events (arrived ?uc (ru_d s) (label_lines l)) l es) ls ess"
    "ledger_of view u = fold ledger_apply (concat ess) (ledger_of view t)" by (auto simp: c)
  with es show ?case by (intro exI [of _ "es # ess"]) simp
qed simp

end
