(* ===== verification/Alerts.thy ===== *)
theory Alerts
  imports Run
begin

section \<open>The outage messages\<close>

text \<open>
  The operator reads two messages about Redis: one when an outage begins, one when it is over. The
  invariant \<open>alert_ok\<close> counts them: there is exactly one message of the first kind more than of the
  second while \<open>redisDown\<close> is set, and otherwise they are equally many. Every operation keeps it.
\<close>

definition down_msg :: string where "down_msg = ''redis unavailable, buffering in memory''"
definition back_msg :: string where "back_msg = ''redis is back, buffered increments flushed''"

definition noted :: "string \<Rightarrow> daemon \<Rightarrow> nat" where
  "noted m d = length (filter (\<lambda>c. fst (snd c) = m) (d_log d))"

definition alert_ok :: "daemon \<Rightarrow> bool" where
  "alert_ok d \<longleftrightarrow> noted down_msg d = noted back_msg d + (if d_redisDown d then 1 else 0)"

lemma alert_cong: "d_log d' = d_log d \<Longrightarrow> d_redisDown d' = d_redisDown d \<Longrightarrow> alert_ok d' = alert_ok d"
  by (simp add: alert_ok_def noted_def)

lemma alert_update [simp]:
  "alert_ok (d\<lparr>d_cnt := c\<rparr>) = alert_ok d" "alert_ok (d\<lparr>d_initialized := b\<rparr>) = alert_ok d"
  "alert_ok (d\<lparr>d_pendingHeartbeats := h\<rparr>) = alert_ok d" "alert_ok (d\<lparr>d_pendingResets := r\<rparr>) = alert_ok d"
  "alert_ok (d\<lparr>d_metricsAddr := m\<rparr>) = alert_ok d"
  by (rule alert_cong; simp)+

lemma noted_emit: "noted m (emit l m' as d) = noted m d + (if m' = m then 1 else 0)"
  by (simp add: noted_def emit_def)

lemma alert_emit: "m \<noteq> down_msg \<Longrightarrow> m \<noteq> back_msg \<Longrightarrow> alert_ok (emit l m as d) = alert_ok d"
  by (simp add: alert_ok_def noted_emit)

lemma noted_redisDown [simp]: "noted m (d\<lparr>d_redisDown := b\<rparr>) = noted m d"
  by (simp add: noted_def)

lemma msgs_differ: "down_msg \<noteq> back_msg"
  by (simp add: down_msg_def back_msg_def)

text \<open>The other messages of the program.\<close>

lemma alert_emit_msgs [simp]:
  "alert_ok (emit l ''redis still unavailable'' as d) = alert_ok d"
  "alert_ok (emit l ''redis keys initialised'' as d) = alert_ok d"
  "alert_ok (emit l ''flush stopped early, redis is unreachable'' as d) = alert_ok d"
  "alert_ok (emit l ''tail error'' as d) = alert_ok d"
  "alert_ok (emit l ''line matched'' as d) = alert_ok d"
  "alert_ok (emit l ''flush deferred, redis is not reachable'' as d) = alert_ok d"
  "alert_ok (emit l ''flush: nothing to do'' as d) = alert_ok d"
  "alert_ok (emit l ''flush done'' as d) = alert_ok d"
  "alert_ok (emit l ''counters reset'' as d) = alert_ok d"
  "alert_ok (emit l ''counters reset incomplete, will retry on next flush'' as d) = alert_ok d"
  "alert_ok (emit l ''tail stopped with error'' as d) = alert_ok d"
  "alert_ok (emit l ''metrics exporter disabled'' as d) = alert_ok d"
  "alert_ok (emit l ''metrics exporter shutdown failed'' as d) = alert_ok d"
  "alert_ok (emit l ''metrics exporter stopped'' as d) = alert_ok d"
  "alert_ok (emit l ''starting'' as d) = alert_ok d"
  "alert_ok (emit l ''log file found, tailing from its end'' as d) = alert_ok d"
  "alert_ok (emit l ''log file does not exist yet, waiting for it'' as d) = alert_ok d"
  "alert_ok (emit l ''reset scheduled'' as d) = alert_ok d"
  "alert_ok (emit l ''self-reset disabled, counters are zeroed externally'' as d) = alert_ok d"
  "alert_ok (emit l ''scheduled reset fired'' as d) = alert_ok d"
  "alert_ok (emit l ''shutting down, flushing buffer'' as d) = alert_ok d"
  "alert_ok (emit l ''stopped'' as d) = alert_ok d"
  "alert_ok (emit l ''metrics exporter failed, shutting down'' as d) = alert_ok d"
  by (rule alert_emit; simp add: down_msg_def back_msg_def)+

lemma alert_noteRedisError [simp]: "alert_ok d \<Longrightarrow> alert_ok (noteRedisError op e d)"
proof (cases "errors_Is e ContextCanceled \<or> d_redisDown d")
  case False
  then have "noteRedisError op e d = emit LevelWarn down_msg [(''op'', VString op), (''error'', VError e)] (d\<lparr>d_redisDown := True\<rparr>)"
    by (simp add: noteRedisError_def down_msg_def)
  moreover assume "alert_ok d"
  ultimately show ?thesis using False msgs_differ by (simp add: alert_ok_def noted_emit)
qed (auto simp: noteRedisError_def)

lemma alert_noteRedisOK [simp]: "alert_ok d \<Longrightarrow> alert_ok (noteRedisOK d)"
proof (cases "d_redisDown d")
  case True
  then have "noteRedisOK d = emit LevelInfo back_msg [] (d\<lparr>d_redisDown := False\<rparr>)"
    by (simp add: noteRedisOK_def back_msg_def)
  moreover assume "alert_ok d"
  ultimately show ?thesis using True msgs_differ by (simp add: alert_ok_def noted_emit)
qed (simp add: noteRedisOK_def)

subsection \<open>The operations\<close>

lemma alert_ensureInit: "ensureInit ev w d = (w', d', b) \<Longrightarrow> alert_ok d \<Longrightarrow> alert_ok d'"
  by (auto simp: ensureInit_def Let_def split: if_split_asm prod.split_asm option.split_asm)

lemma alert_refreshTTL: "refreshTTL ev w d = (w', d', b) \<Longrightarrow> alert_ok d \<Longrightarrow> alert_ok d'"
  by (auto simp: refreshTTL_def split: if_split_asm prod.split_asm option.split_asm)

lemma flush_delta_quiet: "flush_delta ev a dl now w d = (w', d', x) \<Longrightarrow> d_log d' = d_log d \<and> d_redisDown d' = d_redisDown d"
  by (auto simp: flush_delta_def Let_def split: if_split_asm prod.split_asm option.split_asm sum.split_asm)

lemma flushAction_quiet: "flushAction ev a dl now w d = (w', d', x) \<Longrightarrow> d_log d' = d_log d \<and> d_redisDown d' = d_redisDown d"
  by (auto simp: flushAction_def split: if_split_asm prod.split_asm option.split_asm dest: flush_delta_quiet)

lemma alert_flush_one: "flush_one ev ds now a (w, d, v) = (w', d', v') \<Longrightarrow> alert_ok d \<Longrightarrow> alert_ok d'"
proof (cases "fv_unreachable v")
  case False
  obtain w1 d1 ok retry e where f: "flushAction ev a (mget 0 ds a) now w d = (w1, d1, ok, retry, e)" by (metis prod_cases5)
  assume "alert_ok d"
  then have "alert_ok d1" using alert_cong [of d1 d] flushAction_quiet [OF f] by blast
  moreover assume "flush_one ev ds now a (w, d, v) = (w', d', v')"
  ultimately show ?thesis using False f by (auto simp: flush_one_def Let_def split: if_split_asm option.split_asm)
qed (simp add: flush_one_def Let_def)

lemma alert_flush_loop: "flush_loop ev ds now as (w, d, v) = (w', d', v') \<Longrightarrow> alert_ok d \<Longrightarrow> alert_ok d'"
proof (induction as arbitrary: w d v)
  case (Cons a as)
  obtain w1 d1 v1 where o: "flush_one ev ds now a (w, d, v) = (w1, d1, v1)" by (metis prod_cases3)
  from Cons.prems(1) o have "flush_loop ev ds now as (w1, d1, v1) = (w', d', v')" by (simp add: flush_loop_Cons)
  from Cons.IH [OF this alert_flush_one [OF o Cons.prems(2)]] show ?case .
qed (simp add: flush_loop_def)

lemma alert_consume [simp]: "alert_ok (consume uc l d) = alert_ok d"
  by (simp add: consume_def Let_def split: tail_line.split prod.split)

lemma alert_consume_all [simp]: "alert_ok (consume_all uc ls d) = alert_ok d"
  unfolding consume_all_def by (induction ls arbitrary: d) auto

lemma alert_Flush:
  assumes "Flush ev arr w d0 = (w', d')" "alert_ok d0"
  shows "alert_ok d'"
  using assms(1)
proof (cases rule: Flush_cases)
  case (deferred d)
  with alert_ensureInit [OF deferred(1) assms(2)] show ?thesis by simp
next
  case (idle w1 d d2 reached)
  with alert_refreshTTL [OF idle(5) alert_ensureInit [OF idle(1) assms(2)]] show ?thesis by simp
next
  case (work w1 d)
  have a: "alert_ok (d\<lparr>d_cnt := fst (Drain (d_cnt d))\<rparr>)" using alert_ensureInit [OF work(1) assms(2)] by simp
  from work(3) show ?thesis
  proof (rule flush_work_steps)
    fix w2 d2 v d4 d5 d6
    assume l: "flush_loop ev (pending (d_cnt d)) (ev_now ev w1) (d_actions (d\<lparr>d_cnt := fst (Drain (d_cnt d))\<rparr>))
          (w1, d\<lparr>d_cnt := fst (Drain (d_cnt d))\<rparr>, flush_start) = (w2, d2, v)"
      and d4: "d4 = consume_all (ev_uc ev) arr d2\<lparr>d_cnt := Restore (fv_unwritten v) (ProcessLines (ev_uc ev) (texts arr) (d_cnt d2))\<rparr>"
      and t: "if fv_unreachable v then w' = w2 \<and> d5 = d4 else (\<exists>b. refreshTTL ev w2 d4 = (w', d5, b))"
      and d6: "d6 = (if fv_errs v = 0 then noteRedisOK d5 else d5)"
      and d': "d' = emit LevelDebug ''flush done''
          [(''actions_written'', VInt (word_of_nat (fv_written v))), (''errors'', VInt (word_of_nat (fv_errs v))),
           (''buffered'', VInt (Pending (d_cnt d6)))] d6"
    have "alert_ok d4" using alert_flush_loop [OF l a] d4 by simp
    with t have "alert_ok d5" by (auto split: if_split_asm dest: alert_refreshTTL)
    then show ?thesis by (simp add: d' d6)
  qed
qed

lemma alert_reset_one: "reset_one ev now a (w, d, v) = (w', d', v') \<Longrightarrow> alert_ok d \<Longrightarrow> alert_ok d'"
  by (auto simp: reset_one_def split: if_split_asm prod.split_asm option.split_asm)

lemma alert_reset_loop: "reset_loop ev now as (w, d, v) = (w', d', v') \<Longrightarrow> alert_ok d \<Longrightarrow> alert_ok d'"
proof (induction as arbitrary: w d v)
  case (Cons a as)
  obtain w1 d1 v1 where o: "reset_one ev now a (w, d, v) = (w1, d1, v1)" by (metis prod_cases3)
  from Cons.prems(1) o have "reset_loop ev now as (w1, d1, v1) = (w', d', v')" by (simp add: reset_loop_Cons)
  from Cons.IH [OF this alert_reset_one [OF o Cons.prems(2)]] show ?case .
qed (simp add: reset_loop_def)

lemma alert_Reset:
  assumes "Reset ev arr w d = (w', d')" "alert_ok d"
  shows "alert_ok d'"
proof -
  obtain w1 d1 where f: "Flush ev arr w d = (w1, d1)" by fastforce
  obtain w2 d2 v where l: "reset_loop ev (ev_now ev w1) (d_actions d1) (w1, d1, \<lparr>rv_errs = 0, rv_unreachable = False\<rparr>) = (w2, d2, v)"
    by (metis prod_cases3)
  have "alert_ok d2" by (rule alert_reset_loop [OF l alert_Flush [OF f assms(2)]])
  with assms(1) f l show ?thesis by (auto simp: Reset_def split: if_split_asm)
qed

lemma alert_drain: "drain ev stopped rest w d = (w', d') \<Longrightarrow> alert_ok d \<Longrightarrow> alert_ok d'"
  by (auto simp: drain_def Let_def split: option.split_asm elim!: alert_Flush)

lemma alert_stopMetrics [simp]: "alert_ok (stopMetrics down d) = alert_ok d"
  by (simp add: stopMetrics_def Let_def split: option.split)

lemma alert_run_step: "run_step ev s l t \<Longrightarrow> alert_ok (ru_d s) \<Longrightarrow> alert_ok (ru_d t)"
  by (induction rule: run_step.induct) (auto elim!: alert_Flush alert_Reset alert_drain)

lemma alert_run_trace: "run_trace ev s ls t \<Longrightarrow> alert_ok (ru_d s) \<Longrightarrow> alert_ok (ru_d t)"
  by (induction rule: run_trace.induct) (auto dest: alert_run_step)

lemma alert_startMetrics: "startMetrics rl w d = (w', d', e) \<Longrightarrow> alert_ok d' = alert_ok d"
  by (auto simp: startMetrics_def split: if_split_asm prod.split_asm new_server.split_asm)

lemma alert_run_attached:
  assumes "alert_ok d"
  shows "alert_ok (ru_d (run_attached ev rl down ls w d))"
proof -
  obtain w1 d1 b where i: "ensureInit ev w d = (w1, d1, b)" by (metis prod_cases3)
  have "alert_ok d1" by (rule alert_ensureInit [OF i assms])
  then show ?thesis by (simp add: run_attached_def i Let_def started_def split: option.split)
qed

lemma alert_Run_start:
  assumes "alert_ok d"
  shows "alert_ok (ru_d (Run_start ev rl os down ls w d))"
proof -
  obtain w1 d1 e where m: "startMetrics rl w (emit LevelInfo ''starting'' (starting_attrs d) d) = (w1, d1, e)"
    by (metis prod_cases3)
  have 1: "alert_ok d1" using alert_startMetrics [OF m] assms by simp
  show ?thesis
  proof (cases e)
    case (Some err)
    with 1 show ?thesis by (simp add: Run_start_def m Let_def started_def)
  next
    case None
    let ?path = "cfg_log_path (d_cfg d)"
    let ?found = "os_stat os w1 ?path"
    let ?d2 = "emit LevelInfo (if ?found then ''log file found, tailing from its end''
      else ''log file does not exist yet, waiting for it'') [(''log_path'', VString ?path)] d1"
    obtain w2 e2 where t: "rl_tail rl w1 ?path \<lparr>tc_seek_end = ?found, tc_reopen = True, tc_follow = True, tc_must_exist = False,
                     tc_poll = cfg_poll (d_cfg d), tc_complete_lines = True\<rparr> = (w2, e2)" by fastforce
    have 2: "alert_ok ?d2" using 1 by simp
    have "alert_ok (ru_d (run_attached ev rl down ls w2 (emit LevelInfo ''log file found, tailing from its end'' as d1)))"
      "alert_ok (ru_d (run_attached ev rl down ls w2 (emit LevelInfo ''log file does not exist yet, waiting for it'' as d1)))"
      for as by (rule alert_run_attached, simp add: 1)+
    with None t 2 show ?thesis
      by (cases e2) (simp_all only: Run_start_def m Let_def emit_fields prod.case option.case, simp_all add: started_def)
  qed
qed

end
