(* ===== verification/Server_Props.thy ===== *)
theory Server_Props
  imports Server Config_Props
begin

section \<open>Properties of the HTTP endpoint\<close>

text \<open>
  Which handler a request reaches, and the paths on which registering the handlers panics although
  \<open>ValidatePath\<close> accepts them.
\<close>

subsection \<open>An accepted path\<close>

lemma ValidatePath_accepted:
  assumes "ValidatePath m = None"
  obtains "m_path m = ''/''"
  | t where "m_path m = CHR ''/'' # t" "t \<noteq> []" "last t \<noteq> CHR ''/''" "m_path m \<noteq> ''/{$}''"
proof -
  from assms have p: "HasPrefix (m_path m) ''/''" "\<not> ContainsAny (m_path m) ''{}''"
    and s: "m_path m = ''/'' \<or> \<not> HasSuffix (m_path m) ''/''"
    by (auto simp: ValidatePath_def split: if_split_asm)
  from p(1) obtain t where t: "m_path m = CHR ''/'' # t"
    by (auto simp: HasPrefix_def prefix_def)
  have "ContainsAny ''/{$}'' ''{}''" by code_simp
  with p(2) have "m_path m \<noteq> ''/{$}''" by metis
  moreover have "last t \<noteq> CHR ''/''" if "t \<noteq> []"
  proof
    assume "last t = CHR ''/''"
    with that t have "m_path m = (CHR ''/'' # butlast t) @ ''/''" using append_butlast_last_id [of t] by simp
    then have "HasSuffix (m_path m) ''/''" unfolding HasSuffix_def suffix_def by (rule exI)
    with s t that show False by simp
  qed
  ultimately show thesis using that t by blast
qed

text \<open>A literal pattern: what it is parsed to, and when registering the root beside it panics.\<close>

lemma parse_literal:
  "t \<noteq> [] \<Longrightarrow> CHR ''/'' # t \<noteq> ''/{$}'' \<Longrightarrow> parse_pattern (CHR ''/'' # t) = Exact (map segment (split_slash t))"
  by (simp add: parse_pattern_def)

lemma NewServer_literal:
  assumes "ValidatePath m = None" "m_path m = CHR ''/'' # t" "t \<noteq> []" "m_path m \<noteq> ''/{$}''"
    "listen w (m_listen m) = (w', Inr a)"
  shows "NewServer listen w m = (w',
    if map segment (split_slash t) = [''/''] then MuxPanic (''pattern /{$} conflicts with pattern '' @ m_path m)
    else Serving \<lparr>hs_addr = a, hs_path = m_path m,
       hs_mux = [(Exact [''/''], StatusHandler), (Exact (map segment (split_slash t)), MetricsHandler)],
       hs_read_header_timeout = readHeaderTimeout, hs_write_timeout = writeTimeout, hs_idle_timeout = idleTimeout\<rparr>)"
proof -
  have root: "parse_pattern ''/{$}'' = Exact [''/'']" by (simp add: parse_pattern_def)
  have lit: "parse_pattern (m_path m) = Exact (map segment (split_slash t))"
    using assms(2-4) parse_literal by simp
  from assms(2,3) have "m_path m \<noteq> ''/''" by simp
  with assms(1,5) show ?thesis
    by (simp add: NewServer_def mux_Handle_def root lit eq_commute [of "[''/'']"])
qed

lemma NewServer_root:
  assumes "ValidatePath m = None" "m_path m = ''/''" "listen w (m_listen m) = (w', Inr a)"
  shows "NewServer listen w m = (w', Serving \<lparr>hs_addr = a, hs_path = ''/'', hs_mux = [(Subtree, MetricsHandler)],
       hs_read_header_timeout = readHeaderTimeout, hs_write_timeout = writeTimeout, hs_idle_timeout = idleTimeout\<rparr>)"
  using assms by (simp add: NewServer_def mux_Handle_def parse_pattern_def)

lemma NewServer_refused:
  assumes "ValidatePath m = None" "listen w (m_listen m) = (w', Inl e)"
  shows "NewServer listen w m = (w', Refused (Errorf ''metrics: listen %s: %w'' [AS (m_listen m)] (Some e)))"
  using assms by (simp add: NewServer_def)

subsection \<open>The encoded slash\<close>

lemma byte_eq: "byte c = n \<Longrightarrow> c = char_of n"
  by (metis char_of_char)

lemma unhex_less: "is_hex a \<Longrightarrow> unhex a < 16"
  by (auto simp: is_hex_def unhex_def)

lemma hex_pair_slash:
  assumes "is_hex a" "is_hex b" "char_of (unhex a * 16 + unhex b) = CHR ''/''"
  shows "a = CHR ''2'' \<and> (b = CHR ''F'' \<or> b = CHR ''f'')"
proof -
  have "byte (char_of (unhex a * 16 + unhex b)) = unhex a * 16 + unhex b"
    using unhex_less [OF assms(1)] unhex_less [OF assms(2)] by (simp add: of_char_of)
  with assms(3) have "unhex a * 16 + unhex b = 47" by simp
  with unhex_less [OF assms(2)] have "unhex a = 2" "unhex b = 15" by presburger+
  with assms(1,2) have "byte a = 50" "byte b = 70 \<or> byte b = 102"
    by (auto simp: is_hex_def unhex_def split: if_split_asm)
  then have "a = char_of (50 :: nat)" "b = char_of (70 :: nat) \<or> b = char_of (102 :: nat)"
    by (blast intro: byte_eq)+
  moreover have "char_of (50 :: nat) = CHR ''2''" "char_of (70 :: nat) = CHR ''F''" "char_of (102 :: nat) = CHR ''f''"
    by code_simp+
  ultimately show ?thesis by simp
qed

lemma segment_slash:
  assumes "CHR ''/'' \<notin> set e" "segment e = ''/''"
  shows "e = ''%2F'' \<or> e = ''%2f''"
proof -
  have u: "PathUnescape e = Some ''/''"
    using assms by (auto simp: segment_def split: option.split_asm)
  moreover have nil: "PathUnescape r = Some [] \<Longrightarrow> r = []" for r
    by (cases r) (auto split: if_split_asm list.split_asm)
  ultimately obtain a b where "e = CHR ''%'' # a # b # []" "is_hex a" "is_hex b"
    "char_of (unhex a * 16 + unhex b) = CHR ''/''"
    using assms(1) by (cases e) (auto split: if_split_asm list.split_asm dest!: nil)
  with hex_pair_slash show ?thesis by blast
qed

lemma conflicting_pattern:
  "map segment (split_slash t) = [''/''] \<longleftrightarrow> t = ''%2F'' \<or> t = ''%2f''"
proof
  assume "map segment (split_slash t) = [''/'']"
  then obtain e where e: "split_slash t = [e]" "segment e = ''/''" by auto
  with join_split_slash [of t] split_slash_no_slash [of t] have "t = e" "CHR ''/'' \<notin> set e" by auto
  with e segment_slash show "t = ''%2F'' \<or> t = ''%2f''" by blast
next
  have "map segment (split_slash ''%2F'') = [''/'']" "map segment (split_slash ''%2f'') = [''/'']" by code_simp+
  then show "t = ''%2F'' \<or> t = ''%2f'' \<Longrightarrow> map segment (split_slash t) = [''/'']" by blast
qed

text \<open>When the server comes up, when it is refused and when it panics.\<close>

lemma NewServer_panics:
  assumes "NewServer listen w m = (w', MuxPanic msg)"
  shows "m_path m = ''/%2F'' \<or> m_path m = ''/%2f''"
proof -
  have v: "ValidatePath m = None"
    using assms by (auto simp: NewServer_def split: option.split_asm prod.split_asm sum.split_asm)
  obtain a where l: "listen w (m_listen m) = (w', Inr a)"
    using assms v by (auto simp: NewServer_def split: prod.split_asm sum.split_asm)
  from v show ?thesis
  proof (rule ValidatePath_accepted)
    assume "m_path m = ''/''"
    from NewServer_root [where listen = listen and w = w, OF v this l] assms show ?thesis by simp
  next
    fix t assume t: "m_path m = CHR ''/'' # t" "t \<noteq> []" "last t \<noteq> CHR ''/''" "m_path m \<noteq> ''/{$}''"
    from NewServer_literal [where listen = listen and w = w, OF v t(1,2,4) l] assms
    have "map segment (split_slash t) = [''/'']" by (simp split: if_split_asm)
    with t(1) show ?thesis by (simp add: conflicting_pattern)
  qed
qed

text \<open>The panic: the path passes every check, the address is bound, and the second pattern conflicts.\<close>

lemma encoded_slash_panics:
  "let m = \<lparr>m_enabled = True, m_listen = ''127.0.0.1:9843'', m_path = ''/%2F''\<rparr> in
   validate_metrics m = None \<and>
   NewServer (\<lambda>bound addr. (bound @ [addr], Inr addr)) [] m =
     ([''127.0.0.1:9843''], MuxPanic ''pattern /{$} conflicts with pattern /%2F'')"
  by code_simp

subsection \<open>Routing\<close>

lemma dispatch_literal:
  assumes "CHR ''%'' \<notin> set (CHR ''/'' # t)" "CHR ''%'' \<notin> set p" "t \<noteq> []" "last t \<noteq> CHR ''/''"
  shows "dispatch [(Exact [''/''], s), (Exact (map segment (split_slash t)), h)] p =
    (if CleanPath p \<noteq> p then Redirect (CleanPath p)
     else if p = CHR ''/'' # t then Handled h else if p = ''/'' then Handled s else NotFound)"
proof (cases "CleanPath p = p")
  case True
  then obtain q where q: "p = CHR ''/'' # q" using CleanPath_rooted [of p] by auto
  with assms(2) have "CHR ''%'' \<notin> set q" by simp
  with assms have lit: "path_keys p = map segment (split_slash t) \<longleftrightarrow> p = CHR ''/'' # t"
    and root: "path_keys p = [''/''] \<longleftrightarrow> p = ''/''"
    using literal_pattern [of q t] root_keys [of q] by (simp_all add: q)
  have "path_keys (CHR ''/'' # t) = map segment (split_slash t)"
    using assms literal_pattern [of t t] by simp
  then show ?thesis
    using True assms(3) by (simp add: dispatch_def lit root)
qed (simp add: dispatch_def)

text \<open>
  C27. A server that comes up answers a request for its metrics path with the metrics and one for the
  root with the status page, redirects a path that is not clean to the clean one, and knows no other
  path; on the root as metrics path every clean path is answered with the metrics. Percent signs are
  left aside: the multiplexer decodes them.
\<close>

theorem requests_reach_their_handler:
  assumes "NewServer listen w m = (w', Serving srv)" "CHR ''%'' \<notin> set (m_path m)" "CHR ''%'' \<notin> set p"
  shows "hs_path srv = m_path m \<and> listen w (m_listen m) = (w', Inr (Server_Addr srv)) \<and>
    dispatch (hs_mux srv) p =
      (if CleanPath p \<noteq> p then Redirect (CleanPath p)
       else if p = m_path m \<or> m_path m = ''/'' then Handled MetricsHandler
       else if p = ''/'' then Handled StatusHandler
       else NotFound)"
proof -
  have v: "ValidatePath m = None"
    using assms(1) by (auto simp: NewServer_def split: option.split_asm prod.split_asm sum.split_asm)
  obtain a where l: "listen w (m_listen m) = (w', Inr a)"
    using assms(1) v by (auto simp: NewServer_def split: prod.split_asm sum.split_asm)
  from v show ?thesis
  proof (rule ValidatePath_accepted)
    assume r: "m_path m = ''/''"
    from NewServer_root [where listen = listen and w = w, OF v r l] assms(1) show ?thesis
      by (auto simp: r l Server_Addr_def dispatch_def)
  next
    fix t assume t: "m_path m = CHR ''/'' # t" "t \<noteq> []" "last t \<noteq> CHR ''/''" "m_path m \<noteq> ''/{$}''"
    from NewServer_literal [where listen = listen and w = w, OF v t(1,2,4) l] assms(1)
    have "srv = \<lparr>hs_addr = a, hs_path = m_path m,
       hs_mux = [(Exact [''/''], StatusHandler), (Exact (map segment (split_slash t)), MetricsHandler)],
       hs_read_header_timeout = readHeaderTimeout, hs_write_timeout = writeTimeout, hs_idle_timeout = idleTimeout\<rparr>"
      by (simp split: if_split_asm)
    moreover note dispatch_literal [OF _ assms(3) t(2,3), of StatusHandler MetricsHandler]
    ultimately show ?thesis using assms(2) t(1,2) by (simp add: l Server_Addr_def)
  qed
qed

lemma requests_reach_their_handler_witness:
  "let m = \<lparr>m_enabled = True, m_listen = '':9843'', m_path = ''/metrics''\<rparr> in
   \<exists>srv. NewServer (\<lambda>bound addr. (bound @ [addr], Inr addr)) [] m = ([m_listen m], Serving srv) \<and>
     dispatch (hs_mux srv) ''/metrics'' = Handled MetricsHandler \<and>
     dispatch (hs_mux srv) ''//metrics'' = Redirect ''/metrics'' \<and>
     dispatch (hs_mux srv) ''/metrics/x'' = NotFound"
proof -
  let ?m = "\<lparr>m_enabled = True, m_listen = '':9843'', m_path = ''/metrics''\<rparr>"
  have "case NewServer (\<lambda>bound addr. (bound @ [addr], Inr addr)) [] ?m of
      (w, Serving srv) \<Rightarrow> w = [m_listen ?m] | _ \<Rightarrow> False" by code_simp
  then obtain srv where s: "NewServer (\<lambda>bound addr. (bound @ [addr], Inr addr)) [] ?m = ([m_listen ?m], Serving srv)"
    by (auto split: prod.split_asm new_server.split_asm)
  have "CleanPath ''/metrics'' = ''/metrics''" "CleanPath ''//metrics'' = ''/metrics''"
    "CleanPath ''/metrics/x'' = ''/metrics/x''" by code_simp+
  with requests_reach_their_handler [OF s] s show ?thesis by (simp add: Let_def)
qed

text \<open>
  A path that is accepted but not clean is served nowhere: a request for it is redirected to the clean
  path, where nothing is registered.
\<close>

lemma unclean_path_is_not_served:
  assumes "CHR ''%'' \<notin> set (CHR ''/'' # t)" "CHR ''%'' \<notin> set p" "t \<noteq> []" "last t \<noteq> CHR ''/''"
    "CleanPath (CHR ''/'' # t) \<noteq> CHR ''/'' # t"
  shows "dispatch [(Exact [''/''], StatusHandler), (Exact (map segment (split_slash t)), MetricsHandler)] p \<noteq>
    Handled MetricsHandler"
  using assms(5) by (auto simp: dispatch_literal [OF assms(1-4)])

lemma unclean_path_is_accepted:
  "let m = \<lparr>m_enabled = True, m_listen = ''127.0.0.1:9843'', m_path = ''/internal//metrics''\<rparr> in
   validate_metrics m = None \<and>
   (case NewServer (\<lambda>bound addr. (bound @ [addr], Inr addr)) [] m of
      (_, Serving srv) \<Rightarrow> dispatch (hs_mux srv) (m_path m) = Redirect ''/internal/metrics'' \<and>
        dispatch (hs_mux srv) ''/internal/metrics'' = NotFound
    | _ \<Rightarrow> False)"
  by code_simp

text \<open>
  An address with a blank in front is accepted, because it is validated without it, and then listened on
  as it was written.
\<close>

lemma accepted_listen_is_not_trimmed:
  "let m = \<lparr>m_enabled = True, m_listen = '' 127.0.0.1:9843'', m_path = ''/metrics''\<rparr> in
   validate_metrics m = None \<and> fst (NewServer (\<lambda>asked addr. (asked @ [addr], Inl (Sentinel EOF))) [] m) = ['' 127.0.0.1:9843'']"
  by code_simp

end
