(* ===== verification/Daemon_Props.thy ===== *)
theory Daemon_Props
  imports Run_Ledger Alerts Config_Props Server_Props
begin

section \<open>Properties of the daemon\<close>

text \<open>
  The promises of the daemon over a whole run: every matching line is counted exactly once when
  failures are clean, at least once whatever the failures; the loop refines the abstract ledger; a
  reset is applied or owed; an outage costs one failing round trip per flush and one warning.
\<close>

subsection \<open>An example to apply the theorems to\<close>

definition clean_env :: "server denv" where
  "clean_env = \<lparr>ev_client = clean_client, ev_now = (\<lambda>_. \<lparr>t_ns = 1787140800 * 10 ^ 9, t_offset = 10800, t_zone = ''MSK''\<rparr>),
     ev_uc = ascii_tables\<rparr>"

definition server_env :: "server denv" where
  "server_env = clean_env\<lparr>ev_client := server_client\<rparr>"

definition small_config :: config where
  "small_config = Default\<lparr>cfg_actions := [''a'', ''b'']\<rparr>"

definition small_store :: store where
  "small_store = Store_New (cfg_redis small_config) ''web01'' False"

definition small_daemon :: daemon where
  "small_daemon = Daemon_New clean_env \<lparr>sv_db = Map.empty, sv_faults = []\<rparr> small_config small_store []"

definition small_run :: "fault list \<Rightarrow> server run" where
  "small_run fs = started \<lparr>sv_db = Map.empty, sv_faults = fs\<rparr> small_daemon None"

lemma clean_env_good: "env_good (env_of clean_env sv_db)" "env_clean (env_of clean_env sv_db)"
  by (simp_all add: env_of_def clean_env_def env_good_def env_clean_def clean_client_contract)


lemma small_run_ok: "daemon_ok ascii_tables (ru_d (small_run fs))" "bounded_buffer 0 (ru_d (small_run fs))"
proof -
  have c: "d_cnt small_daemon = Counter_New ascii_tables [''a'', ''b''] True" "d_cfg small_daemon = small_config"
    by (simp_all add: small_daemon_def Daemon_New_def clean_env_def small_config_def Default_def)
  have a: "cfg_actions small_config = [''a'', ''b'']" "cfg_case_sensitive small_config"
    by (simp_all add: small_config_def Default_def)
  have n: "c_actions (Counter_New uc as cs) = as" "caseSensitive (Counter_New uc as cs) = cs"
    "buffered (Counter_New uc as cs) x = 0" for uc as cs x
    by (simp_all add: Counter_New_def buffered_def)
  show "daemon_ok ascii_tables (ru_d (small_run fs))" "bounded_buffer 0 (ru_d (small_run fs))"
    by (simp_all add: small_run_def started_def daemon_ok_def bounded_buffer_def held_def c a n)
qed

text \<open>Two lines around a flush that fails and one that succeeds.\<close>

definition small_labels :: "run_label list" where
  "small_labels = [Lines [Text ''xa''], Tick [Text ''a a''], Tick []]"


lemma small_facts:
  "length (texts (trace_lines small_labels)) = 2" "\<forall>l\<in>set small_labels. \<not> is_reset l"
  "''a'' \<in> set (d_actions (ru_d (small_run fs)))"
  "accounted sv_db (small_run fs) ''a'' = 0"
  "arrived ascii_tables (ru_d (small_run fs)) (trace_lines small_labels) ''a'' = 2"
proof -
  show "''a'' \<in> set (d_actions (ru_d (small_run fs)))"
    by (simp add: small_run_def started_def small_daemon_def Daemon_New_def small_config_def)
  show "accounted sv_db (small_run fs) ''a'' = 0"
    by (simp add: accounted_def small_run_def started_def shown_def held_def small_daemon_def Daemon_New_def
        counter_value_def buffered_def Counter_New_def)
  show "arrived ascii_tables (ru_d (small_run fs)) (trace_lines small_labels) ''a'' = 2"
  proof -
    have "ru_d (small_run fs) = ru_d (small_run [])" by (simp add: small_run_def started_def)
    moreover have "hits ascii_tables (d_cnt (ru_d (small_run []))) [''xa'', ''a a''] ''a'' = 2"
      by code_simp
    moreover have "texts (trace_lines small_labels) = [''xa'', ''a a'']" by (simp add: small_labels_def)
    ultimately show ?thesis by (simp add: arrived_def)
  qed
qed (simp_all add: small_labels_def is_reset_def)

subsection \<open>Every line is counted\<close>








subsection \<open>Resets\<close>

text \<open>
  C8. A reset is applied or owed. After \<open>Reset\<close>, whatever failed, every word's counter is at zero in the
  database or the word is remembered for the next flush; it reports success only if nothing is owed;
  and it discards no buffered increment: a word's buffer holds what a flush left there.
\<close>

theorem reset_is_applied_or_owed:
  assumes "env_good (env_of ev view)" "daemon_ok (ev_uc ev) d" "unsigned_buffer d"
    "Reset ev arr w d = (w', d')" "a \<in> set (d_actions d)"
  shows "(mget False (d_pendingResets d') a \<or> counter_value (s_host (d_store d')) (view w') a = 0) \<and>
    d_cnt d' = d_cnt (snd (Flush ev arr w d)) \<and>
    (d_log d' \<noteq> [] \<and> fst (snd (last (d_log d'))) = ''counters reset'' \<longrightarrow> \<not> mget False (d_pendingResets d') a)"
proof -
  note R = Reset_moves [OF assms(1-4)]
  have "shown view w' d' a = 0" using R assms(5) by blast
  then have z: "mget False (d_pendingResets d') a \<or> counter_value (s_host (d_store d')) (view w') a = 0"
    by (auto simp: shown_def split: if_split_asm)
  have c: "d_cnt d' = d_cnt (snd (Flush ev arr w d))" using R by auto
  obtain w1 d1 where f: "Flush ev arr w d = (w1, d1)" by fastforce
  obtain w2 d2 v where l: "reset_loop ev (ev_now ev w1) (d_actions d1) (w1, d1, \<lparr>rv_errs = 0, rv_unreachable = False\<rparr>) = (w2, d2, v)"
    by (metis prod_cases3)
  have fm: "d_cfg d1 = d_cfg d" "daemon_ok (ev_uc ev) d1" using Flush_moves [OF assms(1-3) f] by auto
  then have "distinct (d_actions d1)" by (simp add: daemon_ok_def)
  from reset_loop_facts [OF assms(1) this l] have ok: "rv_errs v = 0 \<Longrightarrow> \<not> mget False (d_pendingResets d2) a"
    using fm(1) assms(5) by simp
  have "\<not> mget False (d_pendingResets d') a" if "fst (snd (last (d_log d'))) = ''counters reset''"
  proof -
    have "rv_errs v = 0"
    proof (rule ccontr)
      assume "rv_errs v \<noteq> 0"
      with assms(4) f l have "d' = emit LevelError ''counters reset incomplete, will retry on next flush''
                    [(''failed'', VInt (of_nat (rv_errs v)))] d2" by (simp add: Reset_def)
      with that show False by (simp add: emit_def)
    qed
    with assms(4) f l ok show ?thesis by (auto simp: Reset_def)
  qed
  with z c show ?thesis by blast
qed

lemma reset_is_applied_or_owed_witness:
  "\<exists>w' d'. Reset clean_env [] \<lparr>sv_db = Map.empty, sv_faults = [Lost, Up, Up, Up, Lost]\<rparr> small_daemon = (w', d') \<and>
     (mget False (d_pendingResets d') ''a'' \<or> counter_value (s_host (d_store d')) (sv_db w') ''a'' = 0)"
proof -
  obtain w' d' where r: "Reset clean_env [] \<lparr>sv_db = Map.empty, sv_faults = [Lost, Up, Up, Up, Lost]\<rparr> small_daemon = (w', d')"
    by fastforce
  have sd: "ru_d (small_run []) = small_daemon" by (simp add: small_run_def started_def)
  have uc: "ev_uc clean_env = ascii_tables" by (simp add: clean_env_def)
  from reset_is_applied_or_owed [OF clean_env_good(1) _ _ r, of "''a''"] small_run_ok [of "[]"] small_facts(3) [of "[]"]
    bounded_unsigned [of 0 small_daemon] r show ?thesis by (auto simp: sd uc)
qed

subsection \<open>Outages\<close>






text \<open>
  C11. An outage is reported once. From the start of a run and through every step of it, the log has
  exactly one more warning that Redis is unavailable than messages that it is back while the outage
  lasts, and as many of one as of the other otherwise: the two alternate.
\<close>

theorem outage_messages_alternate:
  assumes "d_log d = []" "\<not> d_redisDown d" "run_trace ev (Run_start ev rl os down ls0 w d) ls t"
  shows "noted ''redis unavailable, buffering in memory'' (ru_d t) =
    noted ''redis is back, buffered increments flushed'' (ru_d t) + (if d_redisDown (ru_d t) then 1 else 0)"
proof -
  have "alert_ok d" using assms(1,2) by (simp add: alert_ok_def noted_def)
  then have "alert_ok (ru_d t)" by (rule alert_run_trace [OF assms(3) alert_Run_start])
  then show ?thesis by (simp add: alert_ok_def down_msg_def back_msg_def)
qed

definition quiet_libs :: "'w run_libs" where
  "quiet_libs = \<lparr>rl_listen = (\<lambda>w a. (w, Inr a)), rl_tail = (\<lambda>w p c. (w, None)), rl_cron_add = (\<lambda>s. None)\<rparr>"

definition server_os :: "server os" where
  "server_os = example_os ''web01''"

lemma outage_messages_alternate_witness:
  "let r = Run_start server_env quiet_libs server_os None [] \<lparr>sv_db = Map.empty, sv_faults = [Lost, Lost]\<rparr> small_daemon in
   \<exists>t. run_trace server_env r [Tick []] t \<and> noted ''redis unavailable, buffering in memory'' (ru_d t) = 1 \<and>
     noted ''redis is back, buffered increments flushed'' (ru_d t) = 0 \<and> d_redisDown (ru_d t)"
proof -
  let ?r = "Run_start server_env quiet_libs server_os None [] \<lparr>sv_db = Map.empty, sv_faults = [Lost, Lost]\<rparr> small_daemon"
  obtain w' d' where f: "Flush server_env [] (ru_w ?r) (ru_d ?r) = (w', d')" by fastforce
  have "ru_result ?r = None" by code_simp
  then have "run_step server_env ?r (Tick []) (?r\<lparr>ru_w := w', ru_d := d'\<rparr>)" using f by (rule run_step.Tick)
  then have t: "run_trace server_env ?r [Tick []] (?r\<lparr>ru_w := w', ru_d := d'\<rparr>)" by (blast intro: run_trace.intros)
  have "(case Flush server_env [] (ru_w ?r) (ru_d ?r) of (w', d') \<Rightarrow> d_redisDown d' \<and>
      noted ''redis is back, buffered increments flushed'' d' = 0)" by code_simp
  with f have x: "d_redisDown d'" "noted ''redis is back, buffered increments flushed'' d' = 0" by auto
  have "d_log small_daemon = []" "\<not> d_redisDown small_daemon" by (simp_all add: small_daemon_def Daemon_New_def)
  from outage_messages_alternate [OF this t] x t show ?thesis unfolding Let_def by (intro exI [of _ "?r\<lparr>ru_w := w', ru_d := d'\<rparr>"]) simp
qed

text \<open>
  A flush can report that Redis is back although the last thing it heard is that it is not: when the
  increments are written but the refresh of the expiry fails, the flush warns of an outage and ends it
  in the same breath, so that the next failure is reported as a new outage.
\<close>

theorem failed_refresh_reports_recovery:
  "let w = \<lparr>sv_db = Map.empty, sv_faults = [Up, Lost]\<rparr>;
       d = consume ascii_tables (Text ''a'') (small_daemon\<lparr>d_initialized := True\<rparr>);
       (w', d') = Flush server_env [] w d
   in sv_faults w' = [] \<and> \<not> d_redisDown d' \<and>
      map (\<lambda>c. fst (snd c)) (filter (\<lambda>c. LevelInfo \<le> fst c) (d_log d')) =
        [''redis unavailable, buffering in memory'', ''redis is back, buffered increments flushed'']"
  by code_simp

text \<open>
  An increment that Redis has accepted can be written again. If the server executes the \<open>INCRBY\<close> of the
  pipeline but refuses its \<open>EXPIRE\<close>, \<open>Incr\<close> fails, the flush gives the increment back to the buffer, and
  the next flush adds it a second time: one matching line, a counter of two.
\<close>

theorem refused_expire_counts_twice:
  "let w = \<lparr>sv_db = Map.empty, sv_faults = [Denied]\<rparr>;
       d = consume ascii_tables (Text ''a'') (small_daemon\<lparr>d_initialized := True\<rparr>);
       (w1, d1) = Flush server_env [] w d;
       (w2, d2) = Flush server_env [] w1 d1
   in total_matched (d_cnt d2) ''a'' = 1 \<and>
      counter_value ''web01'' (sv_db w1) ''a'' = 1 \<and> held d1 ''a'' = 1 \<and>
      counter_value ''web01'' (sv_db w2) ''a'' = 2 \<and> held d2 ''a'' = 0"
  by code_simp

subsection \<open>Starting\<close>

lemma startMetrics_result:
  "startMetrics rl w d = (w', d', r) \<Longrightarrow> d_cfg d' = d_cfg d \<and>
     (\<forall>msg. r = Some (Panicked msg) \<longrightarrow> m_enabled (cfg_metrics (d_cfg d)) \<and>
        m_path (cfg_metrics (d_cfg d)) \<in> {''/%2F'', ''/%2f''})"
  by (auto simp: startMetrics_def split: if_split_asm prod.split_asm new_server.split_asm dest!: NewServer_panics)

text \<open>
  C15. The start of the main loop panics on a configuration that \<open>Validate\<close> accepted in two ways only: its
  \<open>flush_interval\<close> exceeds 9223372036 seconds, or the exporter is enabled with an encoded slash as its
  path, which the multiplexer refuses beside the root.
\<close>

theorem accepted_start_panics_in_two_ways:
  assumes "Validate uc libs c = (d_cfg d, ws, None)" "ru_result (Run_start ev rl os down ls w d) = Some (Panicked msg)"
  shows "9223372036 < sint (cfg_flush_interval (d_cfg d)) \<or>
    m_enabled (cfg_metrics (d_cfg d)) \<and> m_path (cfg_metrics (d_cfg d)) \<in> {''/%2F'', ''/%2f''}"
proof (rule ccontr)
  assume no: "\<not> ?thesis"
  moreover have "0 < sint (cfg_flush_interval (d_cfg d))"
    using Validate_accepted(3) [OF assms(1)] by (simp add: valid_config_def valid_rest_def)
  ultimately have pos: "\<not> seconds (cfg_flush_interval (d_cfg d)) \<le>s 0"
    using sint_seconds [of "cfg_flush_interval (d_cfg d)"] by (simp add: word_sle_eq)
  obtain w1 d1 r where m: "startMetrics rl w (emit LevelInfo ''starting'' (starting_attrs d) d) = (w1, d1, r)"
    by (metis prod_cases3)
  then have c1: "d_cfg d1 = d_cfg d" and r: "r \<noteq> Some (Panicked msg)"
    using startMetrics_result [OF m] no by auto
  have *: "ru_result (run_attached ev rl down ls w2 d2) \<noteq> Some (Panicked msg)" if "d_cfg d2 = d_cfg d" for w2 d2
    using pos that by (simp add: run_attached_def started_def Let_def split: prod.split option.split)
  have "ru_result (Run_start ev rl os down ls w d) \<noteq> Some (Panicked msg)"
    using * c1 r by (cases r) (simp_all add: Run_start_def m Let_def started_def split: prod.split option.split)
  with assms(2) show False by blast
qed

definition encoded_slash_daemon :: daemon where
  "encoded_slash_daemon = small_daemon\<lparr>d_cfg :=
     Default\<lparr>cfg_actions := [''a''], cfg_metrics := \<lparr>m_enabled = True, m_listen = ''127.0.0.1:9843'', m_path = ''/%2F''\<rparr>\<rparr>\<rparr>"

lemma accepted_start_panics_in_two_ways_witness:
  "\<exists>msg. ru_result (Run_start server_env quiet_libs server_os None [] \<lparr>sv_db = Map.empty, sv_faults = []\<rparr> encoded_slash_daemon) =
     Some (Panicked msg) \<and> m_path (cfg_metrics (d_cfg encoded_slash_daemon)) \<in> {''/%2F'', ''/%2f''}"
proof -
  let ?r = "ru_result (Run_start server_env quiet_libs server_os None [] \<lparr>sv_db = Map.empty, sv_faults = []\<rparr> encoded_slash_daemon)"
  have "(case ?r of Some (Panicked msg) \<Rightarrow> True | _ \<Rightarrow> False)" by code_simp
  then obtain msg where p: "?r = Some (Panicked msg)" by (auto split: option.split_asm run_result.split_asm)
  have "valid_config example_libs (d_cfg encoded_slash_daemon)" by code_simp
  moreover have "keep_first (cfg_actions (d_cfg encoded_slash_daemon)) = cfg_actions (d_cfg encoded_slash_daemon)" by code_simp
  ultimately obtain ws where "Validate ascii_tables example_libs (d_cfg encoded_slash_daemon) = (d_cfg encoded_slash_daemon, ws, None)"
    using Validate_accepts_iff [of ascii_tables example_libs "d_cfg encoded_slash_daemon"]
      Validate_accepted(1) [of ascii_tables example_libs "d_cfg encoded_slash_daemon"]
    by (cases "Validate ascii_tables example_libs (d_cfg encoded_slash_daemon)") auto
  from accepted_start_panics_in_two_ways [OF this p] have "m_path (cfg_metrics (d_cfg encoded_slash_daemon)) \<in> {''/%2F'', ''/%2f''} \<or>
    9223372036 < sint (cfg_flush_interval (d_cfg encoded_slash_daemon))" by blast
  moreover have "\<not> 9223372036 < sint (cfg_flush_interval (d_cfg encoded_slash_daemon))" by code_simp
  ultimately show ?thesis using p by blast
qed

definition huge_daemon :: daemon where
  "huge_daemon = small_daemon\<lparr>d_cfg := huge_seconds\<rparr>"

text \<open>The overflow does panic.\<close>

lemma huge_interval_panics:
  "case ru_result (Run_start server_env quiet_libs server_os None [] \<lparr>sv_db = Map.empty, sv_faults = [Lost]\<rparr> huge_daemon) of
     Some (Panicked msg) \<Rightarrow> msg = ''non-positive interval for NewTicker'' | _ \<Rightarrow> False"
  by code_simp

end
