(* ===== verification/Delivery.thy ===== *)
theory Delivery
  imports Run_Ledger
begin

section \<open>A server that answers: every flush delivers\<close>

text \<open>
  \<open>reliable\<close> is a client whose every command succeeds that the server can execute at all, \<open>healthy\<close> one
  whose failures are clean in addition, so that it executes each of them once; \<open>canonical\<close> says that the counter keys of the host hold integers. One lemma per operation says that it succeeds
  and keeps \<open>canonical\<close>; together they make a flush of the daemon empty its buffer.
\<close>

fun executes :: "cmd list \<Rightarrow> db \<Rightarrow> bool" where
  "executes [] d = True"
| "executes (c # cs) d = (case redis_effect c d of None \<Rightarrow> False | Some (d', x) \<Rightarrow> executes cs d')"

definition reliable :: "'w client \<Rightarrow> ('w \<Rightarrow> db) \<Rightarrow> bool" where
  "reliable cl view \<longleftrightarrow>
     (\<forall>w c. redis_effect c (view w) \<noteq> None \<longrightarrow> (\<exists>w' x. rdb_do cl w c = (w', Inr x))) \<and>
     (\<forall>w cs. executes cs (view w) \<longrightarrow> (\<exists>w' rs. rdb_exec cl w cs = (w', None, rs)))"

definition canonical :: "string \<Rightarrow> db \<Rightarrow> bool" where
  "canonical host d \<longleftrightarrow> (\<forall>a e. d (CounterKey host a) = Some e \<longrightarrow> redis_int (e_val e) \<noteq> None)"

text \<open>The commands of the store keep counters integers, whatever becomes of them.\<close>

definition counter_cmd :: "string \<Rightarrow> cmd \<Rightarrow> bool" where
  "counter_cmd host c \<longleftrightarrow> (\<exists>a n. c = IncrBy (CounterKey host a) n) \<or> (\<exists>a t. c = SetKey (CounterKey host a) ''0'' t) \<or>
     (\<exists>a t. c = SetNX (CounterKey host a) ''0'' t) \<or> only_expiry c \<or> (\<forall>a. CounterKey host a \<notin> cmd_keys c)"

lemma redis_effect_canonical:
  assumes "redis_effect c d = Some (d', x)" "counter_cmd host c" "canonical host d"
  shows "canonical host d'"
proof -
  have keep: "canonical host d'" if "\<And>a. map_option e_val (d' (CounterKey host a)) = map_option e_val (d (CounterKey host a))"
    unfolding canonical_def
  proof (intro allI impI)
    fix a e assume "d' (CounterKey host a) = Some e"
    with that [of a] obtain e0 where "d (CounterKey host a) = Some e0" "e_val e0 = e_val e"
      by (cases "d (CounterKey host a)") auto
    with assms(3) show "redis_int (e_val e) \<noteq> None" unfolding canonical_def by metis
  qed
  have put: "canonical host (d(CounterKey host a \<mapsto> e))" if "redis_int (e_val e) \<noteq> None" for a e
    using assms(3) that by (auto simp: canonical_def)
  consider (incr) a n where "c = IncrBy (CounterKey host a) n" | (set) a t where "c = SetKey (CounterKey host a) ''0'' t"
    | (setnx) a t where "c = SetNX (CounterKey host a) ''0'' t" | (expiry) "only_expiry c"
    | (other) "\<forall>a. CounterKey host a \<notin> cmd_keys c"
    using assms(2) unfolding counter_cmd_def by blast
  then show ?thesis
  proof cases
    case incr
    with assms(1) show ?thesis
      by (auto simp: Let_def not_less not_le redis_int_itoa intro!: put split: option.split_asm if_split_asm)
  next
    case set
    with assms(1) show ?thesis by (auto simp: set_entry_def redis_int_zero intro!: put)
  next
    case setnx
    with assms(1,3) show ?thesis by (auto simp: set_entry_def redis_int_zero intro!: put split: if_split_asm)
  next
    case expiry
    then show ?thesis using redis_effect_value [OF assms(1)] by (intro keep)
  next
    case other
    then show ?thesis using redis_effect_frame [OF assms(1)] by (intro keep) simp
  qed
qed

lemma pipe_outcome_canonical:
  assumes "pipe_outcome cs rs d d'" "\<forall>c\<in>set cs. counter_cmd host c" "canonical host d"
  shows "canonical host d'"
proof -
  have "canonical host d \<longrightarrow> canonical host d'"
    by (rule pipe_outcome_keeps [OF assms(1), of "\<lambda>x y. canonical host x \<longrightarrow> canonical host y"])
      (use assms(2) in \<open>auto simp: applied_def dest: redis_effect_canonical\<close>)
  with assms(3) show ?thesis by blast
qed

lemma counter_cmd_intros:
  "counter_cmd host (IncrBy (CounterKey host a) n)" "counter_cmd host (SetKey (CounterKey host a) ''0'' t)"
  "counter_cmd host (SetNX (CounterKey host a) ''0'' t)" "counter_cmd host (Expire k t)" "counter_cmd host (Persist k)"
  "counter_cmd host (Get k)" "counter_cmd host (SetKey (HeartbeatKey host a) v t)"
  "counter_cmd host (SetNX (HeartbeatKey host a) v t)" "counter_cmd host (touch_cmd s k)"
  using ks.disjoint [of host] by (auto simp: counter_cmd_def only_expiry_def touch_cmd_def)

subsection \<open>The operations of the store succeed\<close>

definition healthy :: "'w client \<Rightarrow> ('w \<Rightarrow> db) \<Rightarrow> bool" where
  "healthy cl view \<longleftrightarrow> redis_contract cl view \<and> clean_failures cl view \<and> reliable cl view"

lemma healthyD:
  assumes "healthy cl view"
  shows "redis_contract cl view" "clean_failures cl view" "reliable cl view"
  using assms by (simp_all add: healthy_def)

lemma healthy_env:
  assumes "healthy (ev_client ev) view"
  shows "env_good (env_of ev view)" "env_clean (env_of ev view)"
  using assms by (simp_all add: healthy_def env_of_def env_good_def env_clean_def)

text \<open>A command that can be executed is, with its documented effect.\<close>

lemma healthy_do:
  assumes "healthy cl view" "redis_effect c (view w) = Some (d', x)"
  obtains w' where "rdb_do cl w c = (w', Inr x)" "view w' = d'"
proof -
  obtain w' y where y: "rdb_do cl w c = (w', Inr y)"
    using healthyD(3) [OF assms(1)] assms(2) unfolding reliable_def by fastforce
  from clean_failuresD(2) [OF healthyD(2) [OF assms(1)] y] assms(2) have "view w' = d'" "y = x" by simp_all
  with y show thesis by (intro that) simp_all
qed

lemma healthy_exec:
  assumes "healthy cl view" "executes cs (view w)"
  obtains w' rs where "rdb_exec cl w cs = (w', None, rs)" "pipe_outcome cs rs (view w) (view w')"
  using assms(2) redis_contractD(2) [OF healthyD(1) [OF assms(1)]] healthyD(3) [OF assms(1)]
  unfolding reliable_def by blast

lemma do_ok:
  assumes "healthy cl view" "redis_effect c (view w) = Some (d', x)" "counter_cmd host c" "canonical host (view w)"
  obtains w' where "rdb_do cl w c = (w', Inr x)" "view w' = d'" "canonical host (view w')"
  using healthy_do [OF assms(1,2)] redis_effect_canonical [OF assms(2-4)] by metis

lemma SetHeartbeat_ok:
  assumes "healthy cl view" "canonical (s_host s) (view w)"
  obtains w' where "SetHeartbeat cl s w a n ts = (w', None)" "canonical (s_host s) (view w')"
proof (cases "s_heartbeat s")
  case True
  let ?c = "SetKey (HeartbeatKey (s_host s) a) (FormatHeartbeat (s_host s) ts a n) (s_ttl s)"
  obtain d' x where e: "redis_effect ?c (view w) = Some (d', x)" by simp
  from do_ok [OF assms(1) e counter_cmd_intros(7) assms(2)] obtain w' where
    "rdb_do cl w ?c = (w', Inr x)" "canonical (s_host s) (view w')" .
  with True show thesis by (intro that [of w']) (simp_all add: SetHeartbeat_def reply_err_def)
next
  case False
  with assms(2) show thesis by (intro that [of w]) (simp_all add: SetHeartbeat_def)
qed

lemma Store_Reset_ok:
  assumes "healthy cl view" "canonical (s_host s) (view w)"
  obtains w' where "Store_Reset cl s w a ts = (w', None)" "canonical (s_host s) (view w')"
proof -
  let ?c = "SetKey (CounterKey (s_host s) a) ''0'' (s_ttl s)"
  obtain d' x where e: "redis_effect ?c (view w) = Some (d', x)" by simp
  from do_ok [OF assms(1) e counter_cmd_intros(2) assms(2)] obtain w1 where
    1: "rdb_do cl w ?c = (w1, Inr x)" "canonical (s_host s) (view w1)" .
  obtain w' where "SetHeartbeat cl s w1 a 0 ts = (w', None)" "canonical (s_host s) (view w')"
    by (rule SetHeartbeat_ok [OF assms(1) 1(2)])
  with 1 show thesis by (intro that [of w']) (simp_all add: Store_Reset_def reply_err_def)
qed

lemma IncrBy_effect:
  assumes "canonical host d" "0 \<le> sint n" "counter_value host d a + sint n < 2 ^ 63"
  shows "\<exists>d' x. redis_effect (IncrBy (CounterKey host a) n) d = Some (d', x)"
proof (cases "d (CounterKey host a)")
  case (Some e)
  then obtain v where v: "redis_int (e_val e) = Some v" using assms(1) unfolding canonical_def by fastforce
  then have "counter_value host d a = v" using Some by (simp add: counter_value_def)
  with assms(2,3) redis_int_range [OF v] Some v show ?thesis by (auto simp: Let_def)
qed simp

lemma Incr_ok:
  assumes "healthy cl view" "canonical (s_host s) (view w)" "0 \<le> sint n"
    "counter_value (s_host s) (view w) a + sint n < 2 ^ 63"
  obtains w' m where "Incr cl s w a n = (w', Inr m)" "canonical (s_host s) (view w')"
proof -
  let ?c = "IncrBy (CounterKey (s_host s) a) n" and ?e = "Expire (CounterKey (s_host s) a) (s_ttl s)"
  have rc: "redis_contract cl view" using assms(1) by (simp add: healthy_def)
  obtain d' x where e: "redis_effect ?c (view w) = Some (d', x)" using IncrBy_effect [OF assms(2-4)] by blast
  obtain w' r where i: "Incr cl s w a n = (w', r)" by fastforce
  show thesis
  proof (cases "s_ttl s \<le>s 0")
    case True
    from do_ok [OF assms(1) e counter_cmd_intros(1) assms(2)] obtain w1 where
      1: "rdb_do cl w ?c = (w1, Inr x)" "canonical (s_host s) (view w1)" .
    from Incr_single [OF rc True i] obtain rr where "rdb_do cl w ?c = (w', rr)"
      "(\<exists>n. rr = Inr (RInt n) \<and> r = Inr n) \<or> (\<exists>e err. rr = Inl e \<and> r = Inl err)" .
    with 1 i that show thesis by auto
  next
    case False
    have "executes [?c, ?e] (view w)" using e by (auto split: option.split)
    then obtain w1 rs where x: "rdb_exec cl w [?c, ?e] = (w1, None, rs)" "pipe_outcome [?c, ?e] rs (view w) (view w1)"
      using healthy_exec [OF assms(1)] by blast
    have "canonical (s_host s) (view w1)"
      using pipe_outcome_canonical [OF x(2) _ assms(2)] counter_cmd_intros by simp
    moreover from Incr_pipe [OF rc False i] obtain err ri re where
      "rdb_exec cl w [?c, ?e] = (w', err, [ri, re])"
      "(\<exists>n x. err = None \<and> ri = Inr (RInt n) \<and> re = Inr x \<and> r = Inr n) \<or> (\<exists>e err'. err = Some e \<and> r = Inl err')" .
    ultimately show thesis using x(1) i that by auto
  qed
qed

lemma executes_expiry: "\<forall>c\<in>set cs. only_expiry c \<Longrightarrow> executes cs d"
  by (induction cs d rule: executes.induct) (auto simp: only_expiry_def split: option.split)

lemma Touch_ok:
  assumes "healthy cl view" "canonical (s_host s) (view w)"
  obtains w' where "Touch cl s w as = (w', None)" "canonical (s_host s) (view w')"
proof (cases "as = []")
  case True
  with assms(2) show thesis by (intro that [of w]) (simp_all add: Touch_def)
next
  case False
  let ?pipe = "concat (map (\<lambda>a. map (touch_cmd s) (keys s a)) as)"
  have "\<forall>c\<in>set ?pipe. only_expiry c" by (auto simp: touch_cmd_facts)
  then have "executes ?pipe (view w)" by (rule executes_expiry)
  then obtain w1 rs where x: "rdb_exec cl w ?pipe = (w1, None, rs)" "pipe_outcome ?pipe rs (view w) (view w1)"
    using healthy_exec [OF assms(1)] by blast
  have "canonical (s_host s) (view w1)"
    using pipe_outcome_canonical [OF x(2) _ assms(2)] counter_cmd_intros(9) by auto
  with x False show thesis by (intro that [of w1]) (simp_all add: Touch_def)
qed

lemma Init_ok:
  assumes "healthy cl view" "\<not> s_ttl s <s 0"
  shows "canonical (s_host s) (view w) \<Longrightarrow> \<exists>w'. Init cl s w as ts = (w', None) \<and> canonical (s_host s) (view w')"
proof (induction as arbitrary: w)
  case (Cons a as)
  let ?k = "CounterKey (s_host s) a"
  obtain d1 x1 where e1: "redis_effect (SetNX ?k ''0'' (s_ttl s)) (view w) = Some (d1, x1)" "d1 ?k \<noteq> None"
    using assms(2) by (cases "view w ?k") auto
  from do_ok [OF assms(1) e1(1) counter_cmd_intros(3) Cons.prems] obtain w1 where
    1: "rdb_do cl w (SetNX ?k ''0'' (s_ttl s)) = (w1, Inr x1)" "view w1 = d1" "canonical (s_host s) (view w1)" .
  show ?case
  proof (cases "s_heartbeat s")
    case False
    with 1 Cons.IH [OF 1(3)] show ?thesis by (simp add: reply_err_def)
  next
    case True
    obtain e v where e: "view w1 ?k = Some e" "redis_int (e_val e) = Some v"
      using 1(2,3) e1(2) unfolding canonical_def by fastforce
    then obtain str where str: "e_val e = SVal str" "ParseInt str = Inr v"
      by (auto simp: redis_int_def split: rvalue.split_asm sum.split_asm if_split_asm)
    with e(1) have "redis_effect (Get ?k) (view w1) = Some (view w1, RStr str)" by simp
    from do_ok [OF assms(1) this counter_cmd_intros(6) 1(3)] obtain w2 where
      2: "rdb_do cl w1 (Get ?k) = (w2, Inr (RStr str))" "canonical (s_host s) (view w2)" .
    let ?h = "SetNX (HeartbeatKey (s_host s) a) (FormatHeartbeat (s_host s) ts a (word_of_int v)) (s_ttl s)"
    obtain d3 x3 where "redis_effect ?h (view w2) = Some (d3, x3)"
      using assms(2) by (cases "view w2 (HeartbeatKey (s_host s) a)") auto
    from do_ok [OF assms(1) this counter_cmd_intros(8) 2(2)] obtain w3 where
      3: "rdb_do cl w2 ?h = (w3, Inr x3)" "canonical (s_host s) (view w3)" .
    from Cons.IH [OF 3(2)] 1 2 3 True str show ?thesis by (simp add: reply_err_def reply_parse_int_def)
  qed
qed simp

subsection \<open>A flush\<close>

text \<open>\<open>room\<close>: the counter of a word can take what is held for it.\<close>

definition room :: "('w \<Rightarrow> db) \<Rightarrow> 'w \<Rightarrow> daemon \<Rightarrow> int64 gomap \<Rightarrow> string \<Rightarrow> bool" where
  "room view w d ds a \<longleftrightarrow> 0 \<le> sint (mget 0 ds a) \<and> shown view w d a + sint (mget 0 ds a) < 2 ^ 63"

lemma flush_delta_ok:
  assumes "healthy (ev_client ev) view" "canonical (s_host (d_store d)) (view w)" "0 \<le> sint dl"
    "counter_value (s_host (d_store d)) (view w) a + sint dl < 2 ^ 63"
  shows "\<exists>w' d' ok. flush_delta ev a dl now w d = (w', d', ok, False, None) \<and>
    d_store d' = d_store d \<and> d_pendingResets d' = d_pendingResets d \<and> canonical (s_host (d_store d)) (view w')"
proof (cases "dl = 0 \<and> map_of (d_pendingHeartbeats d) a = None")
  case True
  with assms(2) show ?thesis by (auto simp: flush_delta_def)
next
  case False
  let ?t = "mget 0 (d_pendingHeartbeats d) a"
  obtain w1 n where i: "(if 0 <s dl then Incr (ev_client ev) (d_store d) w a dl else (w, Inr ?t)) = (w1, Inr n)"
    and c: "canonical (s_host (d_store d)) (view w1)"
  proof (cases "0 <s dl")
    case True
    with Incr_ok [OF assms] that show thesis by metis
  qed (use assms(2) that in simp)
  obtain w2 where h: "SetHeartbeat (ev_client ev) (d_store d) w1 a n now = (w2, None)"
    "canonical (s_host (d_store d)) (view w2)" by (rule SetHeartbeat_ok [OF assms(1) c])
  from False i have "flush_delta ev a dl now w d =
      (w2, d\<lparr>d_pendingHeartbeats := AList.delete a (d_pendingHeartbeats d)\<rparr>, True, False, None)"
    by (auto simp: flush_delta_def Let_def h(1))
  with h(2) show ?thesis by auto
qed

lemma flushAction_ok:
  assumes "healthy (ev_client ev) view" "canonical (s_host (d_store d)) (view w)" "0 \<le> sint dl"
    "shown view w d a + sint dl < 2 ^ 63"
  shows "\<exists>w' d' ok. flushAction ev a dl now w d = (w', d', ok, False, None) \<and> d_store d' = d_store d \<and>
    (\<forall>b. mget False (d_pendingResets d') b \<longrightarrow> mget False (d_pendingResets d) b \<and> b \<noteq> a) \<and>
    canonical (s_host (d_store d)) (view w')"
proof (cases "mget False (d_pendingResets d) a")
  case False
  with assms(4) have "counter_value (s_host (d_store d)) (view w) a + sint dl < 2 ^ 63" by (simp add: shown_def)
  from flush_delta_ok [OF assms(1-3) this, of now] obtain w' d' ok where
    "flush_delta ev a dl now w d = (w', d', ok, False, None)" "d_store d' = d_store d"
    "d_pendingResets d' = d_pendingResets d" "canonical (s_host (d_store d)) (view w')" by blast
  with False show ?thesis by (auto simp: flushAction_def)
next
  case True
  let ?d = "d\<lparr>d_pendingResets := AList.delete a (d_pendingResets d),
    d_pendingHeartbeats := AList.delete a (d_pendingHeartbeats d)\<rparr>"
  obtain w1 where r: "Store_Reset (ev_client ev) (d_store d) w a now = (w1, None)"
    and c: "canonical (s_host (d_store d)) (view w1)" by (rule Store_Reset_ok [OF assms(1,2)])
  have "counter_value (s_host (d_store d)) (view w1) a = 0"
    using Store_Reset_val(2) [OF _ r] assms(1) by (simp add: healthy_def)
  moreover have "sint dl < 2 ^ 63" by (rule int64_range)
  ultimately have "counter_value (s_host (d_store ?d)) (view w1) a + sint dl < 2 ^ 63" by simp
  from flush_delta_ok [OF assms(1) _ assms(3) this, of now] c True r show ?thesis
    by (auto simp: flushAction_def split: if_split_asm)
qed

lemma flush_one_ok:
  assumes "healthy (ev_client ev) view" "canonical (s_host (d_store d)) (view w)" "room view w d ds a"
    "\<not> fv_unreachable v" "mget 0 (fv_unwritten v) a = 0"
  shows "\<exists>w' d' v'. flush_one ev ds now a (w, d, v) = (w', d', v') \<and> \<not> fv_unreachable v' \<and>
    fv_unwritten v' = fv_unwritten v \<and> fv_errs v' = fv_errs v \<and> canonical (s_host (d_store d)) (view w') \<and>
    d_store d' = d_store d \<and> (\<forall>b. mget False (d_pendingResets d') b \<longrightarrow> mget False (d_pendingResets d) b \<and> b \<noteq> a) \<and>
    (\<forall>b. b \<noteq> a \<longrightarrow> shown view w' d' b = shown view w d b)"
proof -
  have r: "0 \<le> sint (mget 0 ds a)" "shown view w d a + sint (mget 0 ds a) < 2 ^ 63" using assms(3) by (simp_all add: room_def)
  from flushAction_ok [OF assms(1,2) r] obtain w' d' ok where
    f: "flushAction ev a (mget 0 ds a) now w d = (w', d', ok, False, None)" "d_store d' = d_store d"
    "\<forall>b. mget False (d_pendingResets d') b \<longrightarrow> mget False (d_pendingResets d) b \<and> b \<noteq> a"
    "canonical (s_host (d_store d)) (view w')" by blast
  let ?v' = "if ok then v\<lparr>fv_written := fv_written v + 1\<rparr> else v"
  from f(1) assms(4) have o: "flush_one ev ds now a (w, d, v) = (w', d', ?v')"
    by (simp add: flush_one_def Let_def)
  have "env_good (env_of ev view)" using assms(1) by (rule healthy_env)
  from flush_one_moves(2) [OF this r(1) assms(5) o] f(2-4) assms(4) o show ?thesis
    by (intro exI [of _ w'] exI [of _ d'] exI [of _ ?v']) auto
qed

lemma flush_loop_ok:
  assumes "healthy (ev_client ev) view"
  shows "distinct as \<Longrightarrow> canonical (s_host (d_store d)) (view w) \<Longrightarrow> \<forall>a\<in>set as. room view w d ds a \<Longrightarrow>
    \<not> fv_unreachable v \<Longrightarrow> fv_unwritten v = [] \<Longrightarrow> fv_errs v = 0 \<Longrightarrow>
    \<exists>w' d' v'. flush_loop ev ds now as (w, d, v) = (w', d', v') \<and> \<not> fv_unreachable v' \<and> fv_unwritten v' = [] \<and>
      fv_errs v' = 0 \<and> canonical (s_host (d_store d)) (view w') \<and>
      (\<forall>b. mget False (d_pendingResets d') b \<longrightarrow> mget False (d_pendingResets d) b \<and> b \<notin> set as)"
proof (induction as arbitrary: w d v)
  case (Cons a as)
  have a: "room view w d ds a" "mget 0 (fv_unwritten v) a = 0" using Cons.prems by simp_all
  from flush_one_ok [OF assms Cons.prems(2) a(1) Cons.prems(4) a(2), of now] obtain w1 d1 v1 where
    o: "flush_one ev ds now a (w, d, v) = (w1, d1, v1)" and v1: "\<not> fv_unreachable v1"
    "fv_unwritten v1 = fv_unwritten v" "fv_errs v1 = fv_errs v" "canonical (s_host (d_store d)) (view w1)"
    and d1: "d_store d1 = d_store d"
    "\<forall>b. mget False (d_pendingResets d1) b \<longrightarrow> mget False (d_pendingResets d) b \<and> b \<noteq> a"
    and sh: "\<forall>b. b \<noteq> a \<longrightarrow> shown view w1 d1 b = shown view w d b" by blast
  have "\<forall>b\<in>set as. room view w1 d1 ds b"
  proof
    fix b assume "b \<in> set as"
    with Cons.prems(1,3) have "b \<noteq> a" "room view w d ds b" by auto
    with sh show "room view w1 d1 ds b" by (simp add: room_def)
  qed
  with Cons.IH [of d1 w1 v1] Cons.prems v1 d1(1) obtain w' d' v' where
    l: "flush_loop ev ds now as (w1, d1, v1) = (w', d', v')" "\<not> fv_unreachable v'" "fv_unwritten v' = []"
    "fv_errs v' = 0" "canonical (s_host (d_store d)) (view w')"
    "\<forall>b. mget False (d_pendingResets d') b \<longrightarrow> mget False (d_pendingResets d1) b \<and> b \<notin> set as" by auto
  from l d1(2) o show ?case by (auto simp: flush_loop_Cons)
qed (simp add: flush_loop_def)

lemma ensureInit_ok:
  assumes "healthy (ev_client ev) view" "\<not> s_ttl (d_store d0) <s 0" "canonical (s_host (d_store d0)) (view w)"
  shows "\<exists>w1 d. ensureInit ev w d0 = (w1, d, True) \<and> canonical (s_host (d_store d0)) (view w1)"
proof (cases "d_initialized d0")
  case True
  with assms(3) show ?thesis by (simp add: ensureInit_def)
next
  case False
  from Init_ok [OF assms] obtain w1 where
    1: "Init (ev_client ev) (d_store d0) w (d_actions d0) (ev_now ev w) = (w1, None)"
    "canonical (s_host (d_store d0)) (view w1)" by blast
  obtain w2 where "Touch (ev_client ev) (d_store d0) w1 (d_actions d0) = (w2, None)"
    "canonical (s_host (d_store d0)) (view w2)" by (rule Touch_ok [OF assms(1) 1(2)])
  with 1 False show ?thesis by (simp add: ensureInit_def Let_def)
qed

text \<open>The flush succeeds on every word: only the lines that arrived meanwhile are left in the buffer.\<close>

lemma Flush_ok:
  assumes "healthy (ev_client ev) view" "daemon_ok (ev_uc ev) d0" "canonical (s_host (d_store d0)) (view w)"
    "\<forall>a\<in>set (d_actions d0). 0 \<le> held d0 a \<and> shown view w d0 a + held d0 a < 2 ^ 63" "Flush ev arr w d0 = (w', d')"
    "\<not> s_ttl (d_store d0) <s 0"
  shows "d_cnt d' = ProcessLines (ev_uc ev) (texts arr) (fst (Drain (d_cnt d0)))"
    "\<forall>a\<in>set (d_actions d0). \<not> mget False (d_pendingResets d') a"
proof -
  have good: "env_good (env_of ev view)" using assms(1) by (rule healthy_env)
  have init: "\<exists>w1 d. ensureInit ev w d0 = (w1, d, True) \<and> canonical (s_host (d_store d0)) (view w1)"
    by (rule ensureInit_ok [OF assms(1,6,3)])
  have "d_cnt d' = ProcessLines (ev_uc ev) (texts arr) (fst (Drain (d_cnt d0))) \<and>
    (\<forall>a\<in>set (d_actions d0). \<not> mget False (d_pendingResets d') a)"
    using assms(5)
  proof (cases rule: Flush_cases)
    case (deferred d)
    with init show ?thesis by simp
  next
    case (idle w1 d d2 reached)
    note i = ensureInit_facts [OF idle(1)] and r = refreshTTL_facts [OF idle(5)]
    have "fst (Drain (d_cnt d0)) = d_cnt d0" using idle(2) i(3) by (simp add: Drain_def)
    then show ?thesis using idle(4) i(3) r(3) fixedD(3) [OF r(1)] by (simp add: idle(6))
  next
    case (work w1 d)
    note i = ensureInit_facts [OF work(1)]
    let ?d1 = "d\<lparr>d_cnt := fst (Drain (d_cnt d))\<rparr>"
    from work(3) obtain w2 d2 v d4 d5 d6 where
      l: "flush_loop ev (pending (d_cnt d)) (ev_now ev w1) (d_actions ?d1) (w1, ?d1, flush_start) = (w2, d2, v)"
      and d4: "d4 = (consume_all (ev_uc ev) arr d2)\<lparr>d_cnt := Restore (fv_unwritten v)
        (ProcessLines (ev_uc ev) (texts arr) (d_cnt d2))\<rparr>"
      and t: "if fv_unreachable v then w' = w2 \<and> d5 = d4 else (\<exists>b. refreshTTL ev w2 d4 = (w', d5, b))"
      and d6: "d6 = (if fv_errs v = 0 then noteRedisOK d5 else d5)"
      and d': "d' = emit LevelDebug ''flush done''
            [(''actions_written'', VInt (of_nat (fv_written v))), (''errors'', VInt (of_nat (fv_errs v))),
             (''buffered'', VInt (Pending (d_cnt d6)))] d6"
      by (rule flush_work_steps)
    have sh: "shown view w1 (d\<lparr>d_cnt := c\<rparr>) a = shown view w d0 a" for a c using i(2,5) i(8) [OF good] by (simp add: shown_def)
    have "room view w1 ?d1 (pending (d_cnt d)) a" if "a \<in> set (d_actions d0)" for a
      using assms(4) that i(3) by (simp add: room_def sh held_def buffered_def)
    moreover have "distinct (d_actions d0)" using assms(2) by (simp add: daemon_ok_def)
    moreover have "canonical (s_host (d_store ?d1)) (view w1)" using init work(1) i(2) by simp
    ultimately have v: "fv_unwritten v = []" "\<not> fv_unreachable v"
      "\<forall>b. mget False (d_pendingResets d2) b \<longrightarrow> b \<notin> set (d_actions d0)"
      using flush_loop_ok [OF assms(1), of "d_actions d0" ?d1 w1 "pending (d_cnt d)" flush_start "ev_now ev w1"] l i(1)
      by (auto simp: flush_start_def)
    have "\<forall>a\<in>set (d_actions d0). 0 \<le> sint (mget 0 (pending (d_cnt d)) a)"
      using assms(4) i(3) by (simp add: held_def buffered_def)
    with flush_loop_moves [OF good, of "d_actions d0" "pending (d_cnt d)" flush_start "ev_now ev w1" w1 ?d1 w2 d2 v]
      l i(1) \<open>distinct (d_actions d0)\<close> have "fixed d2 = fixed ?d1" by (simp add: flush_start_def)
    then have "d_cnt d2 = fst (Drain (d_cnt d0))" using fixedD(3) [of d2 ?d1] i(3) by simp
    with v(1) d4 have c4: "d_cnt d4 = ProcessLines (ev_uc ev) (texts arr) (fst (Drain (d_cnt d0)))"
      "d_pendingResets d4 = d_pendingResets d2" by (simp_all add: Restore_def)
    from t v(2) obtain b where "refreshTTL ev w2 d4 = (w', d5, b)" by auto
    note r = refreshTTL_facts(1,3) [OF this]
    have "d_cnt d' = d_cnt d4" "d_pendingResets d' = d_pendingResets d4"
      using r(2) fixedD(3) [OF r(1)] by (simp_all add: d' d6)
    with c4 v(3) show ?thesis by auto
  qed
  then show "d_cnt d' = ProcessLines (ev_uc ev) (texts arr) (fst (Drain (d_cnt d0)))"
    "\<forall>a\<in>set (d_actions d0). \<not> mget False (d_pendingResets d') a" by blast+
qed

end
