(* ===== verification/Delivery_Props.thy ===== *)
theory Delivery_Props
  imports Delivery Daemon_Props
begin

section \<open>Progress: what a working server guarantees\<close>

text \<open>
  The other properties of the daemon say that nothing goes wrong; these say that something happens. A
  flush against a server that answers empties the buffer, and a run that is cancelled ends, with
  everything delivered if the server answers.
\<close>

lemma delivered:
  assumes "healthy (ev_client ev) view" "daemon_ok (ev_uc ev) d" "canonical (s_host (d_store d)) (view w)"
    "\<forall>a\<in>set (d_actions d). 0 \<le> held d a \<and> shown view w d a + held d a < 2 ^ 63"
    "Flush ev arr w d = (w', d')" "\<not> s_ttl (d_store d) <s 0" "length (texts arr) < 2 ^ 63" "a \<in> set (d_actions d)"
  shows "counter_value (s_host (d_store d)) (view w') a = shown view w d a + held d a"
    "held d' a = int (arrived (ev_uc ev) d arr a)" "\<not> mget False (d_pendingResets d') a"
proof -
  note good = healthy_env [OF assms(1)]
  note F = Flush_ok [OF assms(1-6)]
  show np: "\<not> mget False (d_pendingResets d') a" using F(2) assms(8) by blast
  have ck: "counter_ok (ev_uc ev) (d_cnt d)" "c_actions (d_cnt d) = d_actions d" "distinct (d_actions d)"
    using assms(2) by (simp_all add: daemon_ok_def)
  let ?c = "fst (Drain (d_cnt d))"
  have "counter_ok (ev_uc ev) ?c" using ck(1) by (rule counter_ok_Drain)
  from ProcessLines_totals [OF this, of "texts arr" a] ck
  have b: "buffered (d_cnt d') a = of_nat (arrived (ev_uc ev) d arr a)"
    using cb.drain_empties [OF ck(1), of a] by (simp add: F(1) arrived_def hits_cong [of ?c "d_cnt d"])
  have "arrived (ev_uc ev) d arr a < 2 ^ 63" using arrived_le [of "ev_uc ev" d arr a] assms(7) by linarith
  then show "held d' a = int (arrived (ev_uc ev) d arr a)" by (simp add: held_def b sint_of_nat)
  have "unsigned_buffer d" using assms(4) by (simp add: unsigned_buffer_def)
  from Flush_moves [OF good(1) assms(2) this assms(5)] obtain S where
    st: "d_store d' = d_store d" and "flush_effect (ev_uc ev) (env_clean (env_of ev view)) view arr S w d w' d'" by blast
  with assms(8) have e: "buffered (d_cnt d') a = (if a \<in> S then 0 else buffered (d_cnt d) a) + of_nat (arrived (ev_uc ev) d arr a)"
    "moved (env_clean (env_of ev view)) (held d a) (a \<notin> S) (shown view w d a) (shown view w' d' a)"
    by (simp_all add: flush_effect_def)
  from e(1) b have "a \<notin> S \<Longrightarrow> held d a = 0" by (simp add: held_def)
  with e(2) have "shown view w' d' a = shown view w d a + held d a" 
    using good(2) by (auto simp: moved_clean split: if_split_asm)
  with np st show "counter_value (s_host (d_store d)) (view w') a = shown view w d a + held d a" by (simp add: shown_def)
qed

text \<open>
  C5. Delivery. If the server executes once what it can execute, the counters hold integers and have room, a
  single flush writes everything that was held back: afterwards each counter of the database is what was
  shown plus what was held, no reset is owed, and the buffer holds just the lines that arrived meanwhile.
\<close>

theorem healthy_flush_delivers:
  assumes "healthy (ev_client ev) view" "\<not> s_ttl (d_store d) <s 0" "daemon_ok (ev_uc ev) d"
    "canonical (s_host (d_store d)) (view w)"
    "\<forall>a\<in>set (d_actions d). 0 \<le> held d a \<and> shown view w d a + held d a < 2 ^ 63"
    "Flush ev arr w d = (w', d')" "length (texts arr) < 2 ^ 63" "a \<in> set (d_actions d)"
  shows "counter_value (s_host (d_store d)) (view w') a = shown view w d a + held d a \<and>
    held d' a = int (arrived (ev_uc ev) d arr a) \<and> \<not> mget False (d_pendingResets d') a"
  using delivered [OF assms(1,3-6,2,7,8)] by blast

text \<open>A server that never fails: a pipeline that it could not execute as a whole it does not execute.\<close>

definition up_client :: "db client" where
  "up_client = \<lparr>rdb_do = (\<lambda>d c. run_cmd c d),
     rdb_exec = (\<lambda>d cs. case run_pipe Up cs d of (d', rs) \<Rightarrow>
       if first_error rs = None then (d', None, rs)
       else (let rs' = map (\<lambda>c. Inl broken_pipe) cs in (d, first_error rs', rs')))\<rparr>"

lemma deny_expiry_Up [simp]: "deny_expiry Up c d = run_cmd c d"
  by (cases c) (simp_all add: deny_expiry_def)

lemma executes_run_pipe: "executes cs d \<Longrightarrow> first_error (snd (run_pipe Up cs d)) = None"
proof (induction cs arbitrary: d)
  case (Cons c cs)
  then obtain d1 x where e: "redis_effect c d = Some (d1, x)" "executes cs d1" by (auto split: option.split_asm)
  obtain d2 rs where "run_pipe Up cs d1 = (d2, rs)" by fastforce
  with Cons.IH [OF e(2)] e(1) show ?case by (simp add: run_cmd_def)
qed simp

lemma up_client_healthy: "healthy up_client id"
proof -
  have d: "case r of Inr x \<Rightarrow> redis_effect c d = Some (d', x) | Inl e \<Rightarrow> d' = d"
    if "rdb_do up_client d c = (d', r)" for d c d' r
    using that by (auto simp: up_client_def run_cmd_def split: option.split_asm)
  have x: "pipe_pass cs rs d d'" "err = first_error rs" "err \<noteq> None \<Longrightarrow> d' = d"
    if "rdb_exec up_client d cs = (d', err, rs)" for d cs d' err rs
  proof -
    obtain d1 rs1 where r: "run_pipe Up cs d = (d1, rs1)" by fastforce
    with that run_pipe_pass [OF r] pipe_pass_none [of cs broken_pipe d]
    show "pipe_pass cs rs d d'" "err = first_error rs" "err \<noteq> None \<Longrightarrow> d' = d"
      by (auto simp: up_client_def Let_def split: if_split_asm)
  qed
  have "cmd_pass c r d d'" if "rdb_do up_client d c = (d', r)" for d c d' r
    using d [OF that] by (simp add: cmd_pass_def split: sum.split_asm)
  then have "redis_contract up_client id"
    unfolding redis_contract_def id_def using x by (blast intro: cmd_outcome_pass pipe_outcome_pass)
  moreover have "clean_failures up_client id"
    unfolding clean_failures_def
  proof (intro conjI allI impI)
    fix d c d' r assume "rdb_do up_client d c = (d', r)"
    from d [OF this] show "case r of Inr x \<Rightarrow> redis_effect c (id d) = Some (id d', x) | Inl e \<Rightarrow> id d' = id d"
      unfolding id_def .
  next
    fix d cs d' err rs assume "rdb_exec up_client d cs = (d', err, rs)"
    from x(1) [OF this] x(3) [OF this]
    show "if err = None then pipe_pass cs rs (id d) (id d') else same_values (id d) (id d')"
      by (simp add: same_values_def)
  qed
  moreover have "reliable up_client id"
    using executes_run_pipe by (fastforce simp: reliable_def up_client_def run_cmd_def split: prod.split)
  ultimately show ?thesis by (simp add: healthy_def)
qed

definition up_env :: "db denv" where
  "up_env = \<lparr>ev_client = up_client, ev_now = (\<lambda>_. \<lparr>t_ns = 0, t_offset = 0, t_zone = ''UTC''\<rparr>), ev_uc = ascii_tables\<rparr>"

text \<open>A daemon that holds two increments of one word and owes a reset of the other.\<close>

definition busy_daemon :: daemon where
  "busy_daemon = consume_all ascii_tables [Text ''a'', Text ''xa''] (small_daemon\<lparr>d_pendingResets := [(''b'', True)]\<rparr>)"

definition old_counters :: db where
  "old_counters = Map.empty(CounterKey ''web01'' ''a'' \<mapsto> set_entry ''40'' 0, CounterKey ''web01'' ''b'' \<mapsto> set_entry ''9'' 0)"

lemma old_counters_canonical: "canonical host old_counters"
proof -
  have "redis_int (SVal ''40'') = Some 40" "redis_int (SVal ''9'') = Some 9" by code_simp+
  then show ?thesis by (auto simp: canonical_def old_counters_def set_entry_def split: if_split_asm)
qed

lemma busy_facts:
  "daemon_ok ascii_tables busy_daemon" "d_actions busy_daemon = [''a'', ''b'']" "s_host (d_store busy_daemon) = ''web01''"
  "held busy_daemon ''a'' = 2" "held busy_daemon ''b'' = 0"
  "shown id old_counters busy_daemon ''a'' = 40" "shown id old_counters busy_daemon ''b'' = 0"
proof -
  have "daemon_ok ascii_tables small_daemon" using small_run_ok(1) by (simp add: small_run_def started_def)
  then show "daemon_ok ascii_tables busy_daemon"
    unfolding busy_daemon_def by (intro daemon_ok_consume_all) (simp add: daemon_ok_def)
qed code_simp+

lemma healthy_flush_delivers_witness:
  "counter_value ''web01'' (fst (Flush up_env [Text ''a''] old_counters busy_daemon)) ''a'' = 42 \<and>
   counter_value ''web01'' (fst (Flush up_env [Text ''a''] old_counters busy_daemon)) ''b'' = 0"
proof -
  obtain w' d' where f: "Flush up_env [Text ''a''] old_counters busy_daemon = (w', d')" by fastforce
  have c: "healthy (ev_client up_env) id" using up_client_healthy by (simp add: up_env_def)
  have t: "\<not> s_ttl (d_store busy_daemon) <s 0" by code_simp
  have ok: "daemon_ok (ev_uc up_env) busy_daemon" using busy_facts(1) by (simp add: up_env_def)
  have can: "canonical (s_host (d_store busy_daemon)) (id old_counters)" using old_counters_canonical by simp
  have room: "\<forall>a\<in>set (d_actions busy_daemon). 0 \<le> held busy_daemon a \<and>
      shown id old_counters busy_daemon a + held busy_daemon a < 2 ^ 63"
    using busy_facts by simp
  note P = healthy_flush_delivers [OF c t ok can room f]
  from P [of "''a''"] P [of "''b''"] busy_facts f show ?thesis by simp
qed

text \<open>
  The shutdown delivers, the last lines included: whatever \<open>d\<close> has logged since the loop, it counts like the
  daemon \<open>d0\<close> of the loop.
\<close>

lemma drain_delivers:
  assumes "drain ev stopped rest w d = (w', d')" "healthy (ev_client ev) view" "\<not> s_ttl (d_store d) <s 0"
    "daemon_ok (ev_uc ev) d" "bounded_buffer n d" "n + length (texts rest) < 2 ^ 63"
    "canonical (s_host (d_store d)) (view w)"
    "\<forall>a\<in>set (d_actions d). shown view w d a + held d a + int (length (texts rest)) < 2 ^ 63"
    "a \<in> set (d_actions d)"
  shows "counter_value (s_host (d_store d)) (view w') a = shown view w d a + held d a + int (arrived (ev_uc ev) d rest a)"
    "held d' a = 0"
proof -
  let ?d1 = "case stopped of Some err \<Rightarrow> emit LevelWarn ''tail stopped with error'' [(''error'', VError err)] d | None \<Rightarrow> d"
  let ?d2 = "consume_all (ev_uc ev) rest ?d1"
  have f: "Flush ev [] w ?d2 = (w', d')" using assms(1) by (simp add: drain_def Let_def)
  have same: "d_actions ?d1 = d_actions d" "d_store ?d1 = d_store d" "held ?d1 = held d"
    "shown view w ?d1 = shown view w d" "arrived (ev_uc ev) ?d1 = arrived (ev_uc ev) d"
    by (simp_all split: option.split)
  have ok: "daemon_ok (ev_uc ev) ?d1" "bounded_buffer n ?d1" using assms(4,5) by (simp_all split: option.split)
  have h: "held ?d2 b = held d b + int (arrived (ev_uc ev) d rest b)" if "b \<in> set (d_actions d)" for b
    using consume_effect [OF ok assms(6), of b] that by (simp add: same)
  have sh: "shown view w ?d2 b = shown view w d b" for b
    using shown_cong [of ?d2 ?d1 view w b] by (simp add: same)
  have room: "\<forall>b\<in>set (d_actions ?d2). 0 \<le> held ?d2 b \<and> shown view w ?d2 b + held ?d2 b < 2 ^ 63"
  proof
    fix b assume "b \<in> set (d_actions ?d2)"
    then have b: "b \<in> set (d_actions d)" by (simp add: same)
    have "int (arrived (ev_uc ev) d rest b) \<le> int (length (texts rest))" using arrived_le by simp
    moreover have "0 \<le> held d b" using assms(5) b by (simp add: bounded_buffer_def)
    moreover have "shown view w d b + held d b + int (length (texts rest)) < 2 ^ 63" using assms(8) b by blast
    ultimately show "0 \<le> held ?d2 b \<and> shown view w ?d2 b + held ?d2 b < 2 ^ 63"
      unfolding h [OF b] sh by linarith
  qed
  have "canonical (s_host (d_store ?d2)) (view w)" "\<not> s_ttl (d_store ?d2) <s 0" "length (texts []) < 2 ^ 63"
    "a \<in> set (d_actions ?d2)" using assms(3,7,9) by (simp_all add: same)
  note D = delivered [OF assms(2) daemon_ok_consume_all [OF ok(1)] this(1) room f this(2-4)]
  have "arrived (ev_uc ev) ?d2 [] a = 0" by (simp add: arrived_def hits_def)
  with D(2) show "held d' a = 0" by simp
  show "counter_value (s_host (d_store d)) (view w') a = shown view w d a + held d a + int (arrived (ev_uc ev) d rest a)"
    using D(1) unfolding h [OF assms(9)] sh by (simp add: accounted_def same)
qed

lemma stop_delivers:
  assumes "run_step ev s l t" "l = Stop rest \<or> l = StopExporter rest" "healthy (ev_client ev) view"
    "\<not> s_ttl (d_store (ru_d s)) <s 0" "daemon_ok (ev_uc ev) (ru_d s)" "bounded_buffer n (ru_d s)"
    "n + length (texts rest) < 2 ^ 63" "canonical (s_host (d_store (ru_d s))) (view (ru_w s))"
    "\<forall>a\<in>set (d_actions (ru_d s)). accounted view s a + int (length (texts rest)) < 2 ^ 63"
    "a \<in> set (d_actions (ru_d s))"
  shows "counter_value (s_host (d_store (ru_d s))) (view (ru_w t)) a =
      accounted view s a + int (arrived (ev_uc ev) (ru_d s) rest a)" "held (ru_d t) a = 0"
proof -
  obtain d' lv msg attrs stopped where
    dr: "drain ev stopped rest (ru_w s) (emit lv msg attrs (ru_d s)) = (ru_w t, d')" and d': "held (ru_d t) = held d'"
    using assms(2)
  proof
    assume "l = Stop rest"
    with assms(1) have "run_step ev s (Stop rest) t" by simp
    then show thesis by (rule run_step_Stop) (rule that, simp, simp add: held_def fun_eq_iff)
  next
    assume "l = StopExporter rest"
    with assms(1) have "run_step ev s (StopExporter rest) t" by simp
    then show thesis by (rule run_step_StopExporter) (rule that, simp, simp add: held_def fun_eq_iff)
  qed
  let ?d = "emit lv msg attrs (ru_d s)"
  have same: "\<forall>b\<in>set (d_actions ?d). shown view (ru_w s) ?d b + held ?d b + int (length (texts rest)) < 2 ^ 63"
    "\<not> s_ttl (d_store ?d) <s 0" "daemon_ok (ev_uc ev) ?d" "bounded_buffer n ?d"
    "canonical (s_host (d_store ?d)) (view (ru_w s))" "a \<in> set (d_actions ?d)"
    using assms(4-6,8-10) by (simp_all add: accounted_def)
  from drain_delivers [OF dr assms(3) same(2-4) assms(7) same(5,1,6)] d'
  show "counter_value (s_host (d_store (ru_d s))) (view (ru_w t)) a =
      accounted view s a + int (arrived (ev_uc ev) (ru_d s) rest a)" "held (ru_d t) a = 0"
    by (simp_all add: accounted_def)
qed

text \<open>
  C6. A run can always be ended: from any state of the loop a cancellation followed by the shutdown
  branch makes \<open>Run\<close> return without an error, after which nothing more happens. If the server answers,
  what has been counted by then is in the database when \<open>Run\<close> returns, the last lines included.
\<close>

theorem cancelled_run_returns:
  assumes "ru_result s = None"
  shows "\<exists>t. run_trace ev s [Cancel, Stop rest] t \<and> ru_result t = Some (Returned None) \<and>
    (\<forall>l u. \<not> run_step ev t l u) \<and>
    (healthy (ev_client ev) view \<and> \<not> s_ttl (d_store (ru_d s)) <s 0 \<and> daemon_ok (ev_uc ev) (ru_d s) \<and> bounded_buffer n (ru_d s) \<and>
     n + length (texts rest) < 2 ^ 63 \<and> canonical (s_host (d_store (ru_d s))) (view (ru_w s)) \<and>
     (\<forall>a\<in>set (d_actions (ru_d s)). accounted view s a + int (length (texts rest)) < 2 ^ 63) \<longrightarrow>
     (\<forall>a\<in>set (d_actions (ru_d s)). counter_value (s_host (d_store (ru_d s))) (view (ru_w t)) a =
        accounted view s a + int (arrived (ev_uc ev) (ru_d s) rest a) \<and> held (ru_d t) a = 0))"
proof -
  let ?s = "s\<lparr>ru_done := True\<rparr>"
  obtain w' d' where dr: "drain ev None rest (ru_w s) (emit LevelInfo ''shutting down, flushing buffer'' [] (ru_d s)) = (w', d')"
    by fastforce
  let ?t = "?s\<lparr>ru_w := w', ru_d := stopMetrics None (emit LevelInfo ''stopped'' [] d'), ru_result := Some (Returned None)\<rparr>"
  have "run_step ev s Cancel ?s" using assms by (rule run_step.Cancel)
  moreover have st: "run_step ev ?s (Stop rest) ?t"
    using assms dr by (intro run_step.Stop [where stopped = None]) simp_all
  ultimately have "run_trace ev s [Cancel, Stop rest] ?t" by (auto intro: run_trace.intros)
  moreover have "\<not> run_step ev ?t l u" for l u by (auto elim: run_step.cases)
  moreover have "accounted view ?s a = accounted view s a" for a by (simp add: accounted_def)
  ultimately show ?thesis
    using stop_delivers [OF st, of rest view n] by (intro exI [of _ ?t]) simp
qed

lemma cancelled_run_returns_witness:
  "\<exists>t. run_trace up_env (started old_counters busy_daemon None) [Cancel, Stop [Text ''a'']] t \<and>
     ru_result t = Some (Returned None) \<and> held (ru_d t) ''a'' = 0"
proof -
  let ?s = "started old_counters busy_daemon None"
  have n: "ru_result ?s = None" "ru_d ?s = busy_daemon" "ru_w ?s = old_counters" by (simp_all add: started_def)
  have "healthy (ev_client up_env) id" using up_client_healthy by (simp add: up_env_def)
  moreover have "\<not> s_ttl (d_store (ru_d ?s)) <s 0" unfolding n by code_simp
  moreover have "daemon_ok (ev_uc up_env) (ru_d ?s)" using busy_facts(1) by (simp add: up_env_def n)
  moreover have "bounded_buffer 2 (ru_d ?s)" using busy_facts by (simp add: bounded_buffer_def n)
  moreover have "2 + length (texts [Text ''a'']) < 2 ^ 63" by simp
  moreover have "canonical (s_host (d_store (ru_d ?s))) (id (ru_w ?s))" using old_counters_canonical by (simp add: n)
  moreover have "\<forall>a\<in>set (d_actions (ru_d ?s)). accounted id ?s a + int (length (texts [Text ''a''])) < 2 ^ 63"
    using busy_facts by (simp add: accounted_def n)
  moreover have "''a'' \<in> set (d_actions (ru_d ?s))" using busy_facts by (simp add: n)
  ultimately show ?thesis
    using cancelled_run_returns [OF n(1), of up_env "[Text ''a'']" id 2] by blast
qed

end
