(* ===== verification/Kept.thy ===== *)
theory Kept
  imports Delivery
begin

section \<open>What every command keeps\<close>

text \<open>
  A relation between databases that every command of the store keeps is kept by every operation of the
  store and of the daemon and over whole runs, whatever their outcome. The instances: the counters of
  the host stay integers, no key disappears, and no key of another host changes.
\<close>

subsection \<open>The commands of the store\<close>

definition own_key :: "string \<Rightarrow> string \<Rightarrow> bool" where
  "own_key host k \<longleftrightarrow> (\<exists>a. k = CounterKey host a \<or> k = HeartbeatKey host a)"

text \<open>A host name has no colon, so the keys of two hosts are different.\<close>

lemma foreign_key:
  assumes "CHR '':'' \<notin> set host" "CHR '':'' \<notin> set own" "host \<noteq> own"
  shows "\<not> own_key own (CounterKey host a)" "\<not> own_key own (HeartbeatKey host a)"
  using append_inj_at [of host "CHR '':''" a own] assms
  by (auto simp: own_key_def CounterKey_def HeartbeatKey_def KeyPrefix_def)

text \<open>What the store of a host sends.\<close>

definition store_cmd :: "string \<Rightarrow> cmd \<Rightarrow> bool" where
  "store_cmd host c \<longleftrightarrow>
     (\<exists>a t. c = SetNX (CounterKey host a) ''0'' t \<or> c = SetKey (CounterKey host a) ''0'' t) \<or>
     (\<exists>a v t. c = SetNX (HeartbeatKey host a) v t \<or> c = SetKey (HeartbeatKey host a) v t) \<or>
     (\<exists>a n. c = IncrBy (CounterKey host a) n) \<or> (\<exists>k. c = Get k) \<or> (\<exists>ks. c = MGet ks) \<or>
     (\<exists>k. own_key host k \<and> (c = Persist k \<or> (\<exists>t. c = Expire k t)))"

lemma own_keys: "own_key host (CounterKey host a)" "own_key host (HeartbeatKey host a)"
  "k \<in> set (keys s a) \<Longrightarrow> own_key (s_host s) k"
  by (auto simp: own_key_def keys_def split: if_split_asm)

lemma store_cmds [intro]:
  "store_cmd host (SetNX (CounterKey host a) ''0'' t)" "store_cmd host (SetKey (CounterKey host a) ''0'' t)"
  "store_cmd host (SetNX (HeartbeatKey host a) v t)" "store_cmd host (SetKey (HeartbeatKey host a) v t)"
  "store_cmd host (IncrBy (CounterKey host a) n)" "store_cmd host (Get k)"
  "own_key host k \<Longrightarrow> store_cmd host (Expire k t)" "own_key host k \<Longrightarrow> store_cmd host (touch_cmd s k)"
  by (auto simp: store_cmd_def touch_cmd_def)

lemma store_cmd_keys: "store_cmd host c \<Longrightarrow> k \<in> cmd_keys c \<Longrightarrow> own_key host k"
  by (auto simp: store_cmd_def own_keys)

lemma store_cmd_counter: "store_cmd host c \<Longrightarrow> counter_cmd host c"
  using ks.disjoint [of host] by (auto simp: store_cmd_def counter_cmd_def only_expiry_def)

subsection \<open>From the commands to a run\<close>

locale store_kept =
  fixes host :: string and P :: "db \<Rightarrow> db \<Rightarrow> bool"
  assumes refl: "P x x" and trans: "P x y \<Longrightarrow> P y z \<Longrightarrow> P x z"
    and step: "store_cmd host c \<Longrightarrow> applied c x y \<Longrightarrow> P x y"
begin

lemma do_kept:
  assumes "redis_contract cl view" "rdb_do cl w c = (w', r)" "store_cmd host c"
  shows "P (view w) (view w')"
proof (rule cmd_outcome_keeps [of c r "view w" "view w'" P])
  show "cmd_outcome c r (view w) (view w')" using redis_contractD(1) [OF assms(1,2)] .
qed (fact refl trans step [OF assms(3)])+

lemma exec_kept:
  assumes "redis_contract cl view" "rdb_exec cl w cs = (w', err, rs)" "\<forall>c\<in>set cs. store_cmd host c"
  shows "P (view w) (view w')"
proof (rule pipe_outcome_keeps [of cs rs "view w" "view w'" P])
  show "pipe_outcome cs rs (view w) (view w')" using redis_contractD(2) [OF assms(1,2)] .
  show "P x y" if "c \<in> set cs" "applied c x y" for c x y using step [of c x y] assms(3) that by blast
qed (fact refl trans)+

lemma SetHeartbeat_kept:
  assumes "redis_contract cl view" "s_host s = host" "SetHeartbeat cl s w a n ts = (w', r)"
  shows "P (view w) (view w')"
proof (cases "s_heartbeat s")
  case True
  let ?c = "SetKey (HeartbeatKey host a) (FormatHeartbeat host ts a n) (s_ttl s)"
  obtain w1 r1 where x: "rdb_do cl w ?c = (w1, r1)" by fastforce
  with True assms(2,3) have "w1 = w'" by (auto simp: SetHeartbeat_def split: option.split_asm)
  with do_kept [OF assms(1) x store_cmds(4)] show ?thesis by simp
qed (use assms(3) refl in \<open>simp add: SetHeartbeat_def\<close>)

lemma Store_Reset_kept:
  assumes "redis_contract cl view" "s_host s = host" "Store_Reset cl s w a ts = (w', r)"
  shows "P (view w) (view w')"
proof -
  from Store_Reset_cases [OF assms(3)] obtain w1 rr where
    x: "rdb_do cl w (SetKey (CounterKey (s_host s) a) ''0'' (s_ttl s)) = (w1, rr)"
    and r: "(\<exists>e err. rr = Inl e \<and> w' = w1 \<and> r = Some err) \<or>
            (\<exists>x. rr = Inr x \<and> SetHeartbeat cl s w1 a 0 ts = (w', r))" .
  have 1: "P (view w) (view w1)" using do_kept [OF assms(1) x] assms(2) by blast
  from r show ?thesis using 1 trans [OF 1] SetHeartbeat_kept [OF assms(1,2), of w1 a 0 ts w' r] by auto
qed

lemma Incr_kept:
  assumes "redis_contract cl view" "s_host s = host" "Incr cl s w a n = (w', r)"
  shows "P (view w) (view w')"
proof (cases "s_ttl s \<le>s 0")
  case True
  from Incr_single [OF assms(1) True assms(3)] obtain rr where
    "rdb_do cl w (IncrBy (CounterKey (s_host s) a) n) = (w', rr)" .
  from do_kept [OF assms(1) this] assms(2) show ?thesis by blast
next
  case False
  from Incr_pipe [OF assms(1) False assms(3)] obtain err ri re where
    x: "rdb_exec cl w (incr_pipe s a n) = (w', err, [ri, re])" .
  show ?thesis by (rule exec_kept [OF assms(1) x]) (simp add: assms(2) store_cmds own_keys)
qed

lemma Touch_kept:
  assumes "redis_contract cl view" "s_host s = host" "Touch cl s w as = (w', r)"
  shows "P (view w) (view w')"
proof (cases "as = []")
  case False
  let ?p = "concat (map (\<lambda>a. map (touch_cmd s) (keys s a)) as)"
  obtain w1 err rs where x: "rdb_exec cl w ?p = (w1, err, rs)" by (cases "rdb_exec cl w ?p") auto
  with False assms(3) have "w1 = w'" by (auto simp: Touch_def split: option.split_asm)
  moreover have "\<forall>c\<in>set ?p. store_cmd host c" using own_keys(3) assms(2) by auto
  ultimately show ?thesis using exec_kept [OF assms(1) x] by blast
qed (use assms(3) refl in \<open>simp add: Touch_def\<close>)

lemma Init_kept:
  assumes "redis_contract cl view" "s_host s = host"
  shows "Init cl s w as ts = (w', r) \<Longrightarrow> P (view w) (view w')"
proof (induction as arbitrary: w)
  case Nil
  then show ?case using refl by simp
next
  case (Cons a as)
  let ?k = "CounterKey (s_host s) a" and ?h = "HeartbeatKey (s_host s) a"
  have cc: "store_cmd host (SetNX ?k ''0'' t)" "store_cmd host (Get ?k)" "store_cmd host (SetNX ?h v t)" for t v
    using assms(2) by blast+
  note kept = do_kept [OF assms(1)]
  obtain w1 r1 where 1: "rdb_do cl w (SetNX ?k ''0'' (s_ttl s)) = (w1, r1)" by fastforce
  obtain w2 r2 where 2: "rdb_do cl w1 (Get ?k) = (w2, r2)" by fastforce
  have p1: "P (view w) (view w1)" by (rule kept [OF 1 cc(1)])
  have p2: "P (view w) (view w2)" by (rule trans [OF p1 kept [OF 2 cc(2)]])
  have p3: "P (view w) (view w3)"
    if "rdb_do cl w2 (SetNX ?h v (s_ttl s)) = (w3, r3)" for w3 r3 v by (rule trans [OF p2 kept [OF that cc(3)]])
  have rest: "P (view w) (view w')" if "P (view w) (view x)" "Init cl s x as ts = (w', r)" for x
    by (rule trans [OF that(1) Cons.IH [OF that(2)]])
  show ?case
    using Cons.prems p1 p2 p3 rest by (fastforce simp: 1 2 split: option.split_asm if_split_asm sum.split_asm prod.split_asm)
qed

subsubsection \<open>The daemon\<close>

lemma ensureInit_kept:
  assumes "redis_contract (ev_client ev) view" "s_host (d_store d) = host" "ensureInit ev w d = (w', d', b)"
  shows "P (view w) (view w')"
proof -
  obtain w1 e1 where 1: "Init (ev_client ev) (d_store d) w (d_actions d) (ev_now ev w) = (w1, e1)" by fastforce
  obtain w2 e2 where 2: "Touch (ev_client ev) (d_store d) w1 (d_actions d) = (w2, e2)" by fastforce
  have "w' \<in> {w, w1, w2}"
    using assms(3) 1 2 by (cases "d_initialized d"; cases e1; cases e2; auto simp: ensureInit_def Let_def)
  moreover have "P (view w) (view w1)" by (rule Init_kept [OF assms(1,2) 1])
  moreover from this have "P (view w) (view w2)" using Touch_kept [OF assms(1,2) 2] by (rule trans)
  ultimately show ?thesis using refl by blast
qed

lemma refreshTTL_kept:
  assumes "redis_contract (ev_client ev) view" "s_host (d_store d) = host" "refreshTTL ev w d = (w', d', b)"
  shows "P (view w) (view w')"
proof -
  obtain w1 e1 where 1: "Touch (ev_client ev) (d_store d) w (d_actions d) = (w1, e1)" by fastforce
  have "w' \<in> {w, w1}" using assms(3) 1 by (cases e1; auto simp: refreshTTL_def split: if_split_asm)
  with Touch_kept [OF assms(1,2) 1] refl show ?thesis by blast
qed

lemma flush_delta_kept:
  assumes "redis_contract (ev_client ev) view" "s_host (d_store d) = host"
    "flush_delta ev a dl now w d = (w', d', res)"
  shows "P (view w) (view w')" "d_store d' = d_store d"
proof -
  let ?t = "mget 0 (d_pendingHeartbeats d) a"
  obtain w1 r where i: "(if 0 <s dl then Incr (ev_client ev) (d_store d) w a dl else (w, Inr ?t)) = (w1, r)" by fastforce
  have 1: "P (view w) (view w1)"
    using i Incr_kept [OF assms(1,2), of w a dl w1 r] refl by (cases "0 <s dl") auto
  have 2: "P (view w) (view w2)" if "SetHeartbeat (ev_client ev) (d_store d) w1 a n now = (w2, e)" for w2 e n
    using 1 SetHeartbeat_kept [OF assms(1,2) that] by (rule trans)
  have "P (view w) (view w') \<and> d_store d' = d_store d"
  proof (cases "dl = 0 \<and> map_of (d_pendingHeartbeats d) a = None")
    case True
    with assms(3) refl show ?thesis by (auto simp: flush_delta_def)
  next
    case False
    show ?thesis
    proof (cases r)
      case (Inl e)
      with assms(3) False i 1 show ?thesis by (auto simp: flush_delta_def Let_def)
    next
      case (Inr n)
      obtain w2 e2 where h: "SetHeartbeat (ev_client ev) (d_store d) w1 a n now = (w2, e2)" by fastforce
      with assms(3) False i Inr have "w' = w2 \<and> d_store d' = d_store d"
        by (cases e2) (auto simp: flush_delta_def Let_def)
      with 2 [OF h] show ?thesis by blast
    qed
  qed
  then show "P (view w) (view w')" "d_store d' = d_store d" by blast+
qed

lemma flushAction_kept:
  assumes "redis_contract (ev_client ev) view" "s_host (d_store d) = host"
    "flushAction ev a dl now w d = (w', d', res)"
  shows "P (view w) (view w')" "d_store d' = d_store d"
proof -
  have "P (view w) (view w') \<and> d_store d' = d_store d"
  proof (cases "mget False (d_pendingResets d) a")
    case False
    with assms(3) flush_delta_kept [OF assms(1,2)] show ?thesis by (auto simp: flushAction_def)
  next
    case True
    obtain w1 e1 where r: "Store_Reset (ev_client ev) (d_store d) w a now = (w1, e1)" by fastforce
    note p = Store_Reset_kept [OF assms(1,2) r]
    show ?thesis
    proof (cases e1)
      case (Some e)
      with assms(3) True r p show ?thesis by (auto simp: flushAction_def)
    next
      case None
      let ?d = "d\<lparr>d_pendingResets := AList.delete a (d_pendingResets d),
        d_pendingHeartbeats := AList.delete a (d_pendingHeartbeats d)\<rparr>"
      from None assms(3) True r have f: "flush_delta ev a dl now w1 ?d = (w', d', res)" by (simp add: flushAction_def)
      have "s_host (d_store ?d) = host" using assms(2) by simp
      from flush_delta_kept [OF assms(1) this f] trans [OF p] show ?thesis by simp
    qed
  qed
  then show "P (view w) (view w')" "d_store d' = d_store d" by blast+
qed

lemma flush_one_kept:
  assumes "redis_contract (ev_client ev) view" "s_host (d_store d) = host"
    "flush_one ev ds now a (w, d, v) = (w', d', v')"
  shows "P (view w) (view w')" "d_store d' = d_store d"
proof -
  have "P (view w) (view w') \<and> d_store d' = d_store d"
  proof (cases "fv_unreachable v")
    case True
    with assms(3) refl show ?thesis by (auto simp: flush_one_def Let_def)
  next
    case False
    obtain w1 d1 ok retry e where f: "flushAction ev a (mget 0 ds a) now w d = (w1, d1, ok, retry, e)" by (metis prod_cases5)
    note F = flushAction_kept [OF assms(1,2) f]
    from assms(3) False f have "w' = w1 \<and> d_store d' = d_store d1"
      by (auto simp: flush_one_def Let_def split: option.split_asm if_split_asm)
    with F show ?thesis by simp
  qed
  then show "P (view w) (view w')" "d_store d' = d_store d" by blast+
qed

lemma flush_loop_kept:
  assumes "redis_contract (ev_client ev) view"
  shows "s_host (d_store d) = host \<Longrightarrow> flush_loop ev ds now as (w, d, v) = (w', d', v') \<Longrightarrow>
    P (view w) (view w') \<and> d_store d' = d_store d"
proof (induction as arbitrary: w d v)
  case Nil
  then show ?case using refl by (simp add: flush_loop_def)
next
  case (Cons a as)
  obtain w1 d1 v1 where o: "flush_one ev ds now a (w, d, v) = (w1, d1, v1)" by (metis prod_cases3)
  note O = flush_one_kept [OF assms Cons.prems(1) o]
  have "flush_loop ev ds now as (w1, d1, v1) = (w', d', v')" using Cons.prems(2) o by (simp add: flush_loop_Cons)
  from Cons.IH [OF _ this] O Cons.prems(1) have "P (view w1) (view w') \<and> d_store d' = d_store d" by simp
  with trans [OF O(1)] show ?case by blast
qed

lemma Flush_kept:
  assumes "redis_contract (ev_client ev) view" "s_host (d_store d0) = host" "Flush ev arr w d0 = (w', d')"
  shows "P (view w) (view w')" "d_store d' = d_store d0"
proof -
  have "P (view w) (view w') \<and> d_store d' = d_store d0"
    using assms(3)
  proof (cases rule: Flush_cases)
    case (deferred d)
    with ensureInit_kept [OF assms(1,2) deferred(1)] ensureInit_facts(2) [OF deferred(1)] show ?thesis by simp
  next
    case (idle w1 d d2 reached)
    note p = ensureInit_kept [OF assms(1,2) idle(1)] and s = ensureInit_facts(2) [OF idle(1)]
    have "P (view w1) (view w')" using refreshTTL_kept [OF assms(1) _ idle(5)] s assms(2) by simp
    moreover have "d_store d2 = d_store d" using fixedD(2) [OF refreshTTL_facts(1) [OF idle(5)]] .
    ultimately show ?thesis using trans [OF p] s by (simp add: idle(6))
  next
    case (work w1 d)
    note p = ensureInit_kept [OF assms(1,2) work(1)] and s = ensureInit_facts(2) [OF work(1)]
    let ?d1 = "d\<lparr>d_cnt := fst (Drain (d_cnt d))\<rparr>"
    from work(3) obtain w2 d2 v d4 d5 d6 where
      l: "flush_loop ev (pending (d_cnt d)) (ev_now ev w1) (d_actions ?d1) (w1, ?d1, flush_start) = (w2, d2, v)"
      and d4: "d4 = (consume_all (ev_uc ev) arr d2)\<lparr>d_cnt := Restore (fv_unwritten v)
        (ProcessLines (ev_uc ev) (texts arr) (d_cnt d2))\<rparr>"
      and t: "if fv_unreachable v then w' = w2 \<and> d5 = d4 else (\<exists>b. refreshTTL ev w2 d4 = (w', d5, b))"
      and d6: "d6 = (if fv_errs v = 0 then noteRedisOK d5 else d5)"
      and d': "d' = emit LevelDebug ''flush done''
            [(''actions_written'', VInt (of_nat (fv_written v))), (''errors'', VInt (of_nat (fv_errs v))),
             (''buffered'', VInt (Pending (d_cnt d6)))] d6"
      by (rule flush_work_steps)
    have h: "s_host (d_store ?d1) = host" using s assms(2) by simp
    note L = flush_loop_kept [OF assms(1) h l]
    have s4: "d_store d4 = d_store d" using L d4 by simp
    have "P (view w2) (view w') \<and> d_store d5 = d_store d"
    proof (cases "fv_unreachable v")
      case True
      with t s4 refl show ?thesis by simp
    next
      case False
      with t obtain b where r: "refreshTTL ev w2 d4 = (w', d5, b)" by auto
      with refreshTTL_kept [OF assms(1) _ r] fixedD(2) [OF refreshTTL_facts(1) [OF r]] s s4 assms(2) show ?thesis by simp
    qed
    with L p s show ?thesis by (auto simp: d' d6 intro: trans)
  qed
  then show "P (view w) (view w')" "d_store d' = d_store d0" by blast+
qed

lemma reset_loop_kept:
  assumes "redis_contract (ev_client ev) view"
  shows "s_host (d_store d) = host \<Longrightarrow> reset_loop ev now as (w, d, v) = (w', d', v') \<Longrightarrow>
    P (view w) (view w') \<and> d_store d' = d_store d"
proof (induction as arbitrary: w d v)
  case Nil
  then show ?case using refl by (simp add: reset_loop_def)
next
  case (Cons a as)
  obtain w1 d1 v1 where o: "reset_one ev now a (w, d, v) = (w1, d1, v1)" by (metis prod_cases3)
  have 1: "P (view w) (view w1)" "d_store d1 = d_store d"
  proof -
    obtain w2 e where r: "Store_Reset (ev_client ev) (d_store d) w a now = (w2, e)" by fastforce
    with o have "w1 \<in> {w, w2} \<and> d_store d1 = d_store d"
      by (cases "rv_unreachable v"; cases e) (auto simp: reset_one_def)
    with Store_Reset_kept [OF assms Cons.prems(1) r] refl show "P (view w) (view w1)" "d_store d1 = d_store d" by auto
  qed
  have l: "reset_loop ev now as (w1, d1, v1) = (w', d', v')" using Cons.prems(2) o by (simp add: reset_loop_Cons)
  from Cons.IH [OF _ l] 1(2) Cons.prems(1) have "P (view w1) (view w') \<and> d_store d' = d_store d" by simp
  with trans [OF 1(1)] show ?case by blast
qed

lemma Reset_kept:
  assumes "redis_contract (ev_client ev) view" "s_host (d_store d) = host" "Reset ev arr w d = (w', d')"
  shows "P (view w) (view w')" "d_store d' = d_store d"
proof -
  obtain w1 d1 where f: "Flush ev arr w d = (w1, d1)" by fastforce
  obtain w2 d2 v where l: "reset_loop ev (ev_now ev w1) (d_actions d1) (w1, d1, \<lparr>rv_errs = 0, rv_unreachable = False\<rparr>) = (w2, d2, v)"
    by (metis prod_cases3)
  note F = Flush_kept [OF assms(1,2) f]
  have "w' = w2 \<and> d_store d' = d_store d2" using assms(3) f l by (auto simp: Reset_def split: if_split_asm)
  moreover have "P (view w1) (view w2) \<and> d_store d2 = d_store d1"
    by (rule reset_loop_kept [OF assms(1) _ l]) (simp add: F(2) assms(2))
  ultimately show "P (view w) (view w')" "d_store d' = d_store d" using trans [OF F(1)] F(2) by simp_all
qed

lemma drain_kept:
  assumes "redis_contract (ev_client ev) view" "s_host (d_store d) = host" "drain ev stopped rest w d = (w', d')"
  shows "P (view w) (view w')" "d_store d' = d_store d"
proof -
  let ?d = "consume_all (ev_uc ev) rest
    (case stopped of Some err \<Rightarrow> emit LevelWarn ''tail stopped with error'' [(''error'', VError err)] d | None \<Rightarrow> d)"
  have s: "d_store ?d = d_store d" by (simp split: option.split)
  have f: "Flush ev [] w ?d = (w', d')" using assms(3) by (simp add: drain_def Let_def)
  from Flush_kept [OF assms(1) _ f] s assms(2) show "P (view w) (view w')" "d_store d' = d_store d" by simp_all
qed

lemma run_step_kept:
  assumes "redis_contract (ev_client ev) view" "s_host (d_store (ru_d s)) = host" "run_step ev s l t"
  shows "P (view (ru_w s)) (view (ru_w t))" "d_store (ru_d t) = d_store (ru_d s)"
proof -
  have "P (view (ru_w s)) (view (ru_w t)) \<and> d_store (ru_d t) = d_store (ru_d s)"
    using assms(3)
  proof cases
    case (Tick arr w' d')
    with Flush_kept [OF assms(1,2)] show ?thesis by simp
  next
    case (ResetTaken d1 arr w' d')
    with Reset_kept [OF assms(1), of d1 arr "ru_w s" w' d'] assms(2) show ?thesis by simp
  next
    case (Stop stopped rest w' d' down)
    with drain_kept [OF assms(1) _ Stop(5)] assms(2) show ?thesis by simp
  next
    case (StopExporter err stopped rest w' d' down)
    with drain_kept [OF assms(1) _ StopExporter(5)] assms(2) show ?thesis by simp
  qed (use refl in simp_all)
  then show "P (view (ru_w s)) (view (ru_w t))" "d_store (ru_d t) = d_store (ru_d s)" by blast+
qed

lemma run_trace_kept:
  assumes "redis_contract (ev_client ev) view"
  shows "run_trace ev s ls t \<Longrightarrow> s_host (d_store (ru_d s)) = host \<Longrightarrow>
    P (view (ru_w s)) (view (ru_w t)) \<and> d_store (ru_d t) = d_store (ru_d s)"
proof (induction rule: run_trace.induct)
  case (Nil s)
  then show ?case using refl by simp
next
  case (Cons s l t ls u)
  note K = run_step_kept [OF assms Cons.prems Cons.hyps(1)]
  with Cons.IH Cons.prems trans [OF K(1)] show ?case by simp
qed

end

text \<open>The counters of a host stay integers, no key disappears, and the keys of other hosts are left alone.\<close>

interpretation kc: store_kept host "\<lambda>x y. canonical host x \<longrightarrow> canonical host y" for host
  by unfold_locales (auto simp: applied_def dest: redis_effect_canonical store_cmd_counter)

lemma redis_effect_dom: "redis_effect c d = Some (d', x) \<Longrightarrow> dom d \<subseteq> dom d'"
  by (cases c) (auto simp: Let_def split: if_split_asm option.split_asm rvalue.split_asm)

interpretation kd: store_kept host "\<lambda>x y. dom x \<subseteq> dom y" for host
  by unfold_locales (auto simp: applied_def dest!: redis_effect_dom)

interpretation ko: store_kept host "\<lambda>x y. \<forall>k. \<not> own_key host k \<longrightarrow> y k = x k" for host
  by unfold_locales (auto simp: applied_def dest: redis_effect_frame store_cmd_keys)

end
