(* ===== verification/Heartbeat.thy ===== *)
theory Heartbeat
  imports Kept Store_Props
begin

section \<open>The heartbeats\<close>

text \<open>
  With clean failures the heartbeat of a word tells the value of its counter, unless the value to write
  is remembered or a reset of the word is owed: preserved by every operation of the daemon and every step
  of the main loop.
\<close>

subsection \<open>The heartbeat of a word\<close>

text \<open>
  \<open>beats\<close>: the heartbeat key of a word, if it exists, was written for \<open>n\<close> lines. \<open>heartbeat_ok\<close>: it tells
  the value of the counter, unless the value to write is remembered or a reset of the word is owed.
\<close>

definition beats :: "string \<Rightarrow> db \<Rightarrow> string \<Rightarrow> int64 \<Rightarrow> bool" where
  "beats host d a n \<longleftrightarrow> (\<forall>e. d (HeartbeatKey host a) = Some e \<longrightarrow> (\<exists>ts. e_val e = SVal (FormatHeartbeat host ts a n)))"

definition beat_ok :: "('w \<Rightarrow> db) \<Rightarrow> 'w \<Rightarrow> daemon \<Rightarrow> string \<Rightarrow> bool" where
  "beat_ok view w d a \<longleftrightarrow>
     (let host = s_host (d_store d); c = counter_value host (view w) a in
      case map_of (d_pendingHeartbeats d) a of
        Some n \<Rightarrow> sint n = c
      | None \<Rightarrow> beats host (view w) a (word_of_int c))"

definition heartbeat_ok :: "('w \<Rightarrow> db) \<Rightarrow> 'w \<Rightarrow> daemon \<Rightarrow> string \<Rightarrow> bool" where
  "heartbeat_ok view w d a \<longleftrightarrow> mget False (d_pendingResets d) a \<or> beat_ok view w d a"

lemma beats_cong:
  "map_option e_val (d' (HeartbeatKey host a)) = map_option e_val (d (HeartbeatKey host a)) \<Longrightarrow>
     beats host d' a n = beats host d a n"
  by (cases "d (HeartbeatKey host a)"; cases "d' (HeartbeatKey host a)") (auto simp: beats_def)

lemma beats_put: "d (HeartbeatKey host a) = Some (set_entry (FormatHeartbeat host ts a n) ttl) \<Longrightarrow> beats host d a n"
  by (auto simp: beats_def set_entry_def)

lemma beat_ok_cong:
  assumes "map_option e_val (view w' (HeartbeatKey (s_host (d_store d)) a)) = map_option e_val (view w (HeartbeatKey (s_host (d_store d)) a))"
    "counter_value (s_host (d_store d)) (view w') a = counter_value (s_host (d_store d)) (view w) a"
    "d_store d' = d_store d" "map_of (d_pendingHeartbeats d') a = map_of (d_pendingHeartbeats d) a"
  shows "beat_ok view w' d' a = beat_ok view w d a"
  using beats_cong [of "view w'" "s_host (d_store d)" a "view w"] assms by (simp add: beat_ok_def Let_def split: option.split)

lemma keys_other: "b \<noteq> a \<Longrightarrow> HeartbeatKey (s_host s) b \<notin> set (keys s a)" "HeartbeatKey (s_host s) b \<noteq> CounterKey (s_host s) a"
  by (auto simp: keys_def)

lemma SetHeartbeat_clean:
  assumes "clean_failures cl view" "s_heartbeat s" "SetHeartbeat cl s w a n ts = (w', r)"
  shows "case r of None \<Rightarrow> view w' = (view w)(HeartbeatKey (s_host s) a \<mapsto> set_entry (FormatHeartbeat (s_host s) ts a n) (s_ttl s))
    | Some e \<Rightarrow> view w' = view w"
proof -
  let ?c = "SetKey (HeartbeatKey (s_host s) a) (FormatHeartbeat (s_host s) ts a n) (s_ttl s)"
  obtain w1 rr where x: "rdb_do cl w ?c = (w1, rr)" by fastforce
  show ?thesis
  proof (cases rr)
    case (Inl e)
    with x assms(2,3) have "w' = w1" "r \<noteq> None" by (auto simp: SetHeartbeat_def reply_err_def)
    with clean_failuresD(1) [OF assms(1) x [unfolded Inl]] show ?thesis by auto
  next
    case (Inr y)
    with x assms(2,3) have "w' = w1" "r = None" by (auto simp: SetHeartbeat_def reply_err_def)
    with clean_failuresD(2) [OF assms(1) x [unfolded Inr]] show ?thesis by simp
  qed
qed

lemma flush_delta_key_frame:
  assumes "redis_contract (ev_client ev) view" "flush_delta ev a dl now w d = (w', d', res)"
    "k \<notin> set (keys (d_store d) a)"
  shows "view w' k = view w k"
proof -
  let ?t = "mget 0 (d_pendingHeartbeats d) a"
  have kc: "k \<noteq> CounterKey (s_host (d_store d)) a" using assms(3) by (auto simp: keys_def split: if_split_asm)
  obtain w1 r where i: "(if 0 <s dl then Incr (ev_client ev) (d_store d) w a dl else (w, Inr ?t)) = (w1, r)" by fastforce
  then have 1: "view w1 k = view w k" using Incr_frame [OF assms(1) _ kc] by (auto split: if_split_asm)
  show ?thesis
  proof (cases "dl = 0 \<and> map_of (d_pendingHeartbeats d) a = None")
    case True
    with assms(2) show ?thesis by (auto simp: flush_delta_def)
  next
    case False
    show ?thesis
    proof (cases r)
      case (Inl e)
      with assms(2) False i 1 show ?thesis by (auto simp: flush_delta_def Let_def)
    next
      case (Inr n)
      obtain w2 e2 where h: "SetHeartbeat (ev_client ev) (d_store d) w1 a n now = (w2, e2)" by fastforce
      with assms(2) False i Inr have "w' = w2" by (cases e2) (auto simp: flush_delta_def Let_def)
      with SetHeartbeat_frame [OF assms(1) h assms(3)] 1 show ?thesis by simp
    qed
  qed
qed

text \<open>The environment of a daemon that keeps heartbeats, with clean failures.\<close>

definition beating :: "'w denv \<Rightarrow> ('w \<Rightarrow> db) \<Rightarrow> daemon \<Rightarrow> bool" where
  "beating ev view d \<longleftrightarrow> redis_contract (ev_client ev) view \<and> clean_failures (ev_client ev) view \<and> s_heartbeat (d_store d)"

lemma beatingD:
  assumes "beating ev view d"
  shows "redis_contract (ev_client ev) view" "clean_failures (ev_client ev) view" "s_heartbeat (d_store d)"
    "env_good (env_of ev view)"
  using assms by (simp_all add: beating_def env_of_def env_good_def)

lemma beating_cong: "d_store d' = d_store d \<Longrightarrow> beating ev view d' = beating ev view d"
  by (simp add: beating_def)

lemma beating_emit [simp]: "beating ev view (emit l m as d) = beating ev view d"
  by (rule beating_cong) simp

lemma flush_delta_beat:
  assumes "beating ev view d" "0 \<le> sint dl" "flush_delta ev a dl now w d = (w', d', ok, retry, err)" "beat_ok view w d b"
  shows "beat_ok view w' d' b"
proof -
  note env = beatingD [OF assms(1)]
  note M = flush_delta_moves [OF env(4) assms(2,3)]
  let ?h = "s_host (d_store d)" and ?t = "mget 0 (d_pendingHeartbeats d) a"
  show ?thesis
  proof (cases "b = a")
    case False
    have "view w' (HeartbeatKey ?h b) = view w (HeartbeatKey ?h b)"
      by (rule flush_delta_key_frame [OF env(1) assms(3)]) (use False in \<open>simp add: keys_other\<close>)
    from beat_ok_cong [of view w' d b w d'] this M(4,5) [OF False] fixedD(2) [OF M(1)] assms(4) show ?thesis by simp
  next
    case [simp]: True
    show ?thesis
    proof (cases "dl = 0 \<and> map_of (d_pendingHeartbeats d) a = None")
      case True
      with assms(3,4) show ?thesis by (auto simp: flush_delta_def)
    next
      case False
      obtain w1 r where i: "(if 0 <s dl then Incr (ev_client ev) (d_store d) w a dl else (w, Inr ?t)) = (w1, r)" by fastforce
      show ?thesis
      proof (cases r)
        case (Inl e)
        with i have x: "Incr (ev_client ev) (d_store d) w a dl = (w1, Inl e)" by (simp split: if_split_asm)
        have "view w1 (HeartbeatKey ?h a) = view w (HeartbeatKey ?h a)" by (rule Incr_frame [OF env(1) x]) simp
        moreover have "counter_value ?h (view w1) a = counter_value ?h (view w) a"
          using Incr_clean [OF env(1,2) x] by simp
        moreover have "w' = w1" "d' = d" using assms(3) False i Inl by (simp_all add: flush_delta_def Let_def)
        ultimately show ?thesis using beat_ok_cong [of view w1 d a w d] assms(4) by simp
      next
        case (Inr n)
        have n: "sint n = counter_value ?h (view w1) a"
        proof (cases "0 <s dl")
          case True
          with i Inr have "Incr (ev_client ev) (d_store d) w a dl = (w1, Inr n)" by simp
          from Incr_val [OF env(1) this] show ?thesis by auto
        next
          case nz: False
          with assms(2) have "dl = 0" using sint_eq_0 [of dl] by (simp add: sless_zero)
          with False obtain m where "map_of (d_pendingHeartbeats d) a = Some m" by auto
          with assms(4) i Inr nz show ?thesis by (simp add: beat_ok_def Let_def mget_def)
        qed
        obtain w2 e2 where h: "SetHeartbeat (ev_client ev) (d_store d) w1 a n now = (w2, e2)" by fastforce
        have c: "counter_value ?h (view w2) a = sint n" using SetHeartbeat_val [OF env(1) h] n by simp
        have v: "case e2 of None \<Rightarrow> view w2 = (view w1)(HeartbeatKey ?h a \<mapsto> set_entry (FormatHeartbeat ?h now a n) (s_ttl (d_store d)))
          | Some e \<Rightarrow> view w2 = view w1" by (rule SetHeartbeat_clean [OF env(2,3) h])
        show ?thesis
        proof (cases e2)
          case None
          with assms(3) False i Inr h have d': "w' = w2" "d' = d\<lparr>d_pendingHeartbeats := AList.delete a (d_pendingHeartbeats d)\<rparr>"
            by (auto simp: flush_delta_def Let_def)
          from None v have "beats ?h (view w2) a n" by (auto simp: beats_def set_entry_def)
          with c d' show ?thesis by (simp add: beat_ok_def Let_def)
        next
          case (Some e)
          with assms(3) False i Inr h have d': "w' = w2" "d' = d\<lparr>d_pendingHeartbeats := AList.update a n (d_pendingHeartbeats d)\<rparr>"
            by (auto simp: flush_delta_def Let_def)
          with c show ?thesis by (simp add: beat_ok_def Let_def)
        qed
      qed
    qed
  qed
qed

text \<open>A reset that succeeded leaves a heartbeat of zero, and no reset touches another word.\<close>

lemma reset_beats:
  assumes "beating ev view d" "Store_Reset (ev_client ev) (d_store d) w a now = (w', None)"
  shows "counter_value (s_host (d_store d)) (view w') a = 0" "beats (s_host (d_store d)) (view w') a 0"
proof -
  note env = beatingD [OF assms(1)]
  show "counter_value (s_host (d_store d)) (view w') a = 0" by (rule Store_Reset_val(2) [OF env(1) assms(2) refl])
  from Store_Reset_cases [OF assms(2)] obtain w1 where
    "SetHeartbeat (ev_client ev) (d_store d) w1 a 0 now = (w', None)" by (metis option.distinct(1))
  from SetHeartbeat_clean [OF env(2,3) this] show "beats (s_host (d_store d)) (view w') a 0"
    by (auto simp: beats_def set_entry_def)
qed

lemma heartbeat_reset_frame:
  assumes "redis_contract cl view" "Store_Reset cl (d_store d) w a now = (w', r)" "b \<noteq> a"
  shows "beat_ok view w' d b = beat_ok view w d b"
  using beat_ok_cong [of view w' d b w d] Store_Reset_val(3) [OF assms]
    Store_Reset_frame [OF assms(1,2), of "HeartbeatKey (s_host (d_store d)) b"] assms(3)
  by (simp add: keys_other)

lemma flushAction_heartbeat:
  assumes "beating ev view d" "0 \<le> sint dl" "flushAction ev a dl now w d = (w', d', ok, retry, err)" "heartbeat_ok view w d b"
  shows "heartbeat_ok view w' d' b"
proof (cases "mget False (d_pendingResets d) a")
  case False
  with assms(3) have f: "flush_delta ev a dl now w d = (w', d', ok, retry, err)" by (simp add: flushAction_def)
  from assms(4) flush_delta_beat [OF assms(1,2) f, of b] flush_delta_moves(2) [OF beatingD(4) [OF assms(1)] assms(2) f]
  show ?thesis by (auto simp: heartbeat_ok_def)
next
  case True
  note env = beatingD [OF assms(1)]
  let ?h = "s_host (d_store d)"
  obtain w1 e1 where r: "Store_Reset (ev_client ev) (d_store d) w a now = (w1, e1)" by fastforce
  show ?thesis
  proof (cases e1)
    case (Some e)
    with assms(3) True r have w': "w' = w1" "d' = d" by (simp_all add: flushAction_def)
    show ?thesis
    proof (cases "b = a")
      case False
      with heartbeat_reset_frame [OF env(1) r] assms(4) show ?thesis by (simp add: w' heartbeat_ok_def)
    qed (use True in \<open>simp add: w' heartbeat_ok_def\<close>)
  next
    case None
    let ?d = "d\<lparr>d_pendingResets := AList.delete a (d_pendingResets d),
      d_pendingHeartbeats := AList.delete a (d_pendingHeartbeats d)\<rparr>"
    from None assms(3) True r have f: "flush_delta ev a dl now w1 ?d = (w', d', ok, retry, err)"
      by (simp add: flushAction_def)
    have env': "beating ev view ?d" using assms(1) by (simp add: beating_def)
    have 1: "heartbeat_ok view w1 ?d b"
    proof (cases "b = a")
      case True
      with reset_beats [OF assms(1) r [unfolded None]] show ?thesis by (simp add: heartbeat_ok_def beat_ok_def Let_def)
    next
      case False
      with heartbeat_reset_frame [OF env(1) r False] beat_ok_cong [of view w1 d b w1 ?d] assms(4)
      show ?thesis by (simp add: heartbeat_ok_def)
    qed
    from 1 flush_delta_beat [OF env' assms(2) f, of b] flush_delta_moves(2) [OF env(4) assms(2) f]
    show ?thesis by (auto simp: heartbeat_ok_def)
  qed
qed

lemma heartbeat_ok_fields:
  "d_store d' = d_store d \<Longrightarrow> d_pendingHeartbeats d' = d_pendingHeartbeats d \<Longrightarrow> d_pendingResets d' = d_pendingResets d \<Longrightarrow>
     heartbeat_ok view w d' a = heartbeat_ok view w d a"
  by (simp add: heartbeat_ok_def beat_ok_def)

lemma flush_one_heartbeat:
  assumes "beating ev view d" "0 \<le> sint (mget 0 ds a)" "flush_one ev ds now a (w, d, v) = (w', d', v')" "heartbeat_ok view w d b"
  shows "heartbeat_ok view w' d' b"
proof (cases "fv_unreachable v")
  case True
  with assms(3,4) show ?thesis by (auto simp: flush_one_def Let_def)
next
  case False
  obtain w1 d1 ok retry e where f: "flushAction ev a (mget 0 ds a) now w d = (w1, d1, ok, retry, e)" by (metis prod_cases5)
  from assms(3) False f have "w' = w1" "d_store d' = d_store d1" "d_pendingHeartbeats d' = d_pendingHeartbeats d1"
    "d_pendingResets d' = d_pendingResets d1"
    by (auto simp: flush_one_def Let_def split: option.split_asm if_split_asm)
  with flushAction_heartbeat [OF assms(1,2) f assms(4)] heartbeat_ok_fields [of d' d1 view w1 b] show ?thesis by simp
qed

lemma flush_loop_heartbeat:
  "beating ev view d \<Longrightarrow> \<forall>a\<in>set as. 0 \<le> sint (mget 0 ds a) \<Longrightarrow> flush_loop ev ds now as (w, d, v) = (w', d', v') \<Longrightarrow>
    heartbeat_ok view w d b \<Longrightarrow> heartbeat_ok view w' d' b"
proof (induction as arbitrary: w d v)
  case Nil
  then show ?case by (simp add: flush_loop_def)
next
  case (Cons a as)
  obtain w1 d1 v1 where o: "flush_one ev ds now a (w, d, v) = (w1, d1, v1)" by (metis prod_cases3)
  have dl: "0 \<le> sint (mget 0 ds a)" "\<forall>a\<in>set as. 0 \<le> sint (mget 0 ds a)" using Cons.prems(2) by simp_all
  have l: "flush_loop ev ds now as (w1, d1, v1) = (w', d', v')" using Cons.prems(3) o by (simp add: flush_loop_Cons)
  have "beating ev view d1"
    using kc.flush_one_kept(2) [OF beatingD(1) [OF Cons.prems(1)] refl o] Cons.prems(1) beating_cong by blast
  from Cons.IH [OF this dl(2) l flush_one_heartbeat [OF Cons.prems(1) dl(1) o Cons.prems(4)]] show ?case .
qed

subsection \<open>The heartbeats over a run\<close>

lemma Touch_beat:
  assumes "redis_contract (ev_client ev) view" "Touch (ev_client ev) (d_store d) w as = (w', r)" "heartbeat_ok view w d b"
  shows "heartbeat_ok view w' d b"
  using beat_ok_cong [of view w' d b w d] Touch_values [OF assms(1,2)] Touch_val [OF assms(1,2)] assms(3)
  by (simp add: heartbeat_ok_def)

lemma refreshTTL_heartbeat:
  assumes "redis_contract (ev_client ev) view" "refreshTTL ev w d = (w', d', reached)" "heartbeat_ok view w d b"
  shows "heartbeat_ok view w' d' b"
proof -
  obtain w1 e1 where 1: "Touch (ev_client ev) (d_store d) w (d_actions d) = (w1, e1)" by fastforce
  have "w' \<in> {w, w1}" using assms(2) 1 by (cases e1; auto simp: refreshTTL_def split: if_split_asm)
  with Touch_beat [OF assms(1) 1 assms(3)] assms(3) have "heartbeat_ok view w' d b" by auto
  moreover have "d_store d' = d_store d" using refreshTTL_facts(1) [OF assms(2)] by (rule fixedD(2))
  ultimately show ?thesis
    using heartbeat_ok_fields [of d' d view w' b] refreshTTL_facts(2,3) [OF assms(2)] by simp
qed

lemma get_counter:
  assumes "redis_effect (Get (CounterKey host a)) d = Some (d', RStr str)" "canonical host d"
    "reply_parse_int (Inr (RStr str)) = Inr n"
  shows "word_of_int (counter_value host d a) = n"
proof -
  from assms(1) obtain e where e: "d (CounterKey host a) = Some e" "e_val e = SVal str"
    by (auto split: option.split_asm rvalue.split_asm)
  with assms(2) obtain v where v: "redis_int (SVal str) = Some v" unfolding canonical_def by fastforce
  then have "ParseInt str = Inr v" by (auto simp: redis_int_def split: sum.split_asm if_split_asm)
  with assms(3) e v show ?thesis by (simp add: counter_value_def reply_parse_int_def)
qed

text \<open>\<open>Init\<close> writes a missing heartbeat with the value it has read.\<close>

lemma Init_beats:
  assumes "redis_contract cl view"
  shows "Init cl s w as ts = (w', r) \<Longrightarrow> canonical (s_host s) (view w) \<Longrightarrow>
    beats (s_host s) (view w) b (word_of_int (counter_value (s_host s) (view w) b)) \<Longrightarrow>
    beats (s_host s) (view w') b (word_of_int (counter_value (s_host s) (view w') b))"
proof (induction as arbitrary: w)
  case (Cons a as)
  let ?k = "CounterKey (s_host s) a" and ?h = "HeartbeatKey (s_host s) a"
  let ?B = "\<lambda>w. canonical (s_host s) (view w) \<and> beats (s_host s) (view w) b (word_of_int (counter_value (s_host s) (view w) b))"
  note oc = redis_contractD(1) [OF assms]
  obtain w1 r1 where 1: "rdb_do cl w (SetNX ?k ''0'' (s_ttl s)) = (w1, r1)" by fastforce
  obtain w2 r2 where 2: "rdb_do cl w1 (Get ?k) = (w2, r2)" by fastforce
  note g = cmd_outcome_read [OF oc [OF 2]]
  have B1: "?B w1"
  proof
    show "canonical (s_host s) (view w1)" using kc.do_kept [OF assms 1 store_cmds(1)] Cons.prems(2) by blast
    have "view w1 (HeartbeatKey (s_host s) b) = view w (HeartbeatKey (s_host s) b)"
      using cmd_outcome_frame [OF oc [OF 1]] by simp
    then show "beats (s_host s) (view w1) b (word_of_int (counter_value (s_host s) (view w1) b))"
      using Cons.prems(3) cmd_outcome_SetNX [OF oc [OF 1], of b] beats_cong [of "view w1" "s_host s" b "view w"] by simp
  qed
  then have B2: "?B w2" using g by simp
  have B3: "?B w3" if n: "reply_parse_int r2 = Inr n"
    and 3: "rdb_do cl w2 (SetNX ?h (FormatHeartbeat (s_host s) ts a n) (s_ttl s)) = (w3, r3)" for n w3 r3
  proof
    show "canonical (s_host s) (view w3)" using kc.do_kept [OF assms 3 store_cmds(3)] B2 by blast
    have c: "counter_value (s_host s) (view w3) b = counter_value (s_host s) (view w2) b"
      using oc [OF 3] by (rule cmd_outcome_other_counter) simp
    note k = SetNX_keeps [OF oc [OF 3]]
    show "beats (s_host s) (view w3) b (word_of_int (counter_value (s_host s) (view w3) b))"
    proof (cases "b = a")
      case False
      with k B2 c beats_cong [of "view w3" "s_host s" b "view w2"] show ?thesis by simp
    next
      case [simp]: True
      from n obtain y where y: "r2 = Inr y" by (cases r2) (simp_all add: reply_parse_int_def)
      with n obtain str where "y = RStr str" by (cases y) (simp_all add: reply_parse_int_def)
      with y n have "r2 = Inr (RStr str)" "reply_parse_int (Inr (RStr str)) = Inr n" by simp_all
      with g have "word_of_int (counter_value (s_host s) (view w2) a) = n"
        using get_counter [of "s_host s" a "view w1" "view w1" str n] B1 by simp
      then have n': "word_of_int (counter_value (s_host s) (view w3) b) = n" using c by simp
      from k have "view w3 ?h = view w2 ?h \<or> view w3 ?h = Some (set_entry (FormatHeartbeat (s_host s) ts a n) (s_ttl s))" by blast
      then show ?thesis
      proof
        assume "view w3 ?h = view w2 ?h"
        with B2 c beats_cong [of "view w3" "s_host s" b "view w2"] show ?thesis by simp
      next
        assume "view w3 ?h = Some (set_entry (FormatHeartbeat (s_host s) ts a n) (s_ttl s))"
        then show ?thesis unfolding n' by (intro beats_put) simp
      qed
    qed
  qed
  have rest: "?B w'" if "?B x" "Init cl s x as ts = (w', r)" for x
    using that Cons.IH [OF that(2)] kc.Init_kept [OF assms refl that(2)] by blast
  have "?B w'"
    using Cons.prems(1) B1 B2 B3 rest
    by (fastforce simp: 1 2 split: option.split_asm if_split_asm sum.split_asm prod.split_asm)
  then show ?case ..
qed simp

lemma ensureInit_heartbeat:
  assumes "redis_contract (ev_client ev) view" "ensureInit ev w d = (w', d', i)" "canonical (s_host (d_store d)) (view w)"
    "heartbeat_ok view w d b"
  shows "heartbeat_ok view w' d' b"
proof -
  obtain w1 e1 where 1: "Init (ev_client ev) (d_store d) w (d_actions d) (ev_now ev w) = (w1, e1)" by fastforce
  obtain w2 e2 where 2: "Touch (ev_client ev) (d_store d) w1 (d_actions d) = (w2, e2)" by fastforce
  have h1: "heartbeat_ok view w1 d b"
  proof (cases "map_of (d_pendingHeartbeats d) b")
    case None
    with assms(4) Init_beats [OF assms(1) 1 assms(3), of b] show ?thesis
      by (simp add: heartbeat_ok_def beat_ok_def Let_def) blast
  next
    case (Some n)
    with assms(4) Init_val [OF assms(1) 1, of b] show ?thesis by (simp add: heartbeat_ok_def beat_ok_def Let_def)
  qed
  note h2 = Touch_beat [OF assms(1) 2 h1]
  have "w' \<in> {w, w1, w2}" using assms(2) 1 2 by (cases "d_initialized d"; cases e1; cases e2; auto simp: ensureInit_def Let_def)
  with assms(4) h1 h2 have "heartbeat_ok view w' d b" by auto
  with ensureInit_facts(2,4,5) [OF assms(2)] show ?thesis using heartbeat_ok_fields [of d' d view w' b] by simp
qed

lemma Flush_heartbeat:
  assumes "beating ev view d0" "canonical (s_host (d_store d0)) (view w)" "unsigned_buffer d0" "Flush ev arr w d0 = (w', d')"
    "heartbeat_ok view w d0 b"
  shows "heartbeat_ok view w' d' b"
proof -
  note env = beatingD [OF assms(1)]
  note init = ensureInit_heartbeat [OF env(1) _ assms(2,5)]
  show ?thesis
    using assms(4)
  proof (cases rule: Flush_cases)
    case (deferred d)
    from init [OF deferred(1)] heartbeat_ok_fields [of d' d view w' b] show ?thesis by (simp add: deferred(2))
  next
    case (idle w1 d d2 reached)
    have "heartbeat_ok view w' d2 b" by (rule refreshTTL_heartbeat [OF env(1) idle(5) init [OF idle(1)]])
    with heartbeat_ok_fields [of d' d2 view w' b] show ?thesis by (simp add: idle(6))
  next
    case (work w1 d)
    note f = ensureInit_facts [OF work(1)]
    let ?d1 = "d\<lparr>d_cnt := fst (Drain (d_cnt d))\<rparr>"
    from work(3) obtain w2 d2 v d4 d5 d6 where
      l: "flush_loop ev (pending (d_cnt d)) (ev_now ev w1) (d_actions ?d1) (w1, ?d1, flush_start) = (w2, d2, v)"
      and d4: "d4 = (consume_all (ev_uc ev) arr d2)\<lparr>d_cnt := Restore (fv_unwritten v)
        (ProcessLines (ev_uc ev) (texts arr) (d_cnt d2))\<rparr>"
      and t: "if fv_unreachable v then w' = w2 \<and> d5 = d4 else (\<exists>b. refreshTTL ev w2 d4 = (w', d5, b))"
      and d6: "d6 = (if fv_errs v = 0 then noteRedisOK d5 else d5)"
      and d': "d' = emit LevelDebug ''flush done''
            [(''actions_written'', VInt (of_nat (fv_written v))), (''errors'', VInt (of_nat (fv_errs v))),
             (''buffered'', VInt (Pending (d_cnt d6)))] d6"
      by (rule flush_work_steps)
    have env1: "beating ev view ?d1" using assms(1) f(2) by (simp add: beating_def)
    have dl: "\<forall>a\<in>set (d_actions ?d1). 0 \<le> sint (mget 0 (pending (d_cnt d)) a)"
      using assms(3) f(1,3) by (simp add: unsigned_buffer_def held_def buffered_def)
    have "heartbeat_ok view w1 ?d1 b" using init [OF work(1)] heartbeat_ok_fields [of ?d1 d view w1 b] by simp
    from flush_loop_heartbeat [OF env1 dl l this] have h4: "heartbeat_ok view w2 d4 b"
      using heartbeat_ok_fields [of d4 d2 view w2 b] by (simp add: d4)
    have "heartbeat_ok view w' d5 b"
    proof (cases "fv_unreachable v")
      case True
      with t h4 show ?thesis by simp
    next
      case False
      with t obtain reached where "refreshTTL ev w2 d4 = (w', d5, reached)" by auto
      from refreshTTL_heartbeat [OF env(1) this h4] show ?thesis .
    qed
    with heartbeat_ok_fields [of d' d5 view w' b] show ?thesis by (simp add: d' d6)
  qed
qed

lemma reset_loop_heartbeat:
  "beating ev view d \<Longrightarrow> reset_loop ev now as (w, d, v) = (w', d', v') \<Longrightarrow> heartbeat_ok view w d b \<Longrightarrow> heartbeat_ok view w' d' b"
proof (induction as arbitrary: w d v)
  case Nil
  then show ?case by (simp add: reset_loop_def)
next
  case (Cons a as)
  note env = beatingD [OF Cons.prems(1)]
  obtain w1 d1 v1 where o: "reset_one ev now a (w, d, v) = (w1, d1, v1)" by (metis prod_cases3)
  have l: "reset_loop ev now as (w1, d1, v1) = (w', d', v')" using Cons.prems(2) o by (simp add: reset_loop_Cons)
  obtain w2 e where r: "Store_Reset (ev_client ev) (d_store d) w a now = (w2, e)" by fastforce
  have s: "d_store d1 = d_store d"
    using o r by (cases "rv_unreachable v"; cases e) (auto simp: reset_one_def)
  have "heartbeat_ok view w1 d1 b"
  proof (cases "b = a")
    case [simp]: True
    show ?thesis
    proof (cases "\<not> rv_unreachable v \<and> e = None")
      case True
      with o r have "w1 = w2" "d1 = d\<lparr>d_pendingHeartbeats := AList.delete a (d_pendingHeartbeats d),
          d_pendingResets := AList.delete a (d_pendingResets d)\<rparr>" by (auto simp: reset_one_def)
      with reset_beats [OF Cons.prems(1), of w a now w2] r True show ?thesis
        by (simp add: heartbeat_ok_def beat_ok_def Let_def)
    next
      case False
      with o r have "mget False (d_pendingResets d1) a" by (cases "rv_unreachable v"; cases e) (auto simp: reset_one_def)
      then show ?thesis by (simp add: heartbeat_ok_def)
    qed
  next
    case False
    have "w1 \<in> {w, w2} \<and> map_of (d_pendingHeartbeats d1) b = map_of (d_pendingHeartbeats d) b \<and>
      mget False (d_pendingResets d1) b = mget False (d_pendingResets d) b"
      using o r False by (cases "rv_unreachable v"; cases e) (auto simp: reset_one_def)
    with heartbeat_reset_frame [OF env(1) r False] beat_ok_cong [of view w1 d b w1 d1] s Cons.prems(3)
    show ?thesis by (auto simp: heartbeat_ok_def)
  qed
  moreover have "beating ev view d1" using Cons.prems(1) s beating_cong by blast
  ultimately show ?case using Cons.IH [OF _ l] by blast
qed

lemma Reset_heartbeat:
  assumes "beating ev view d" "canonical (s_host (d_store d)) (view w)" "unsigned_buffer d" "Reset ev arr w d = (w', d')"
    "heartbeat_ok view w d b"
  shows "heartbeat_ok view w' d' b"
proof -
  obtain w1 d1 where f: "Flush ev arr w d = (w1, d1)" by fastforce
  obtain w2 d2 v where l: "reset_loop ev (ev_now ev w1) (d_actions d1) (w1, d1, \<lparr>rv_errs = 0, rv_unreachable = False\<rparr>) = (w2, d2, v)"
    by (metis prod_cases3)
  have "beating ev view d1"
    using kc.Flush_kept(2) [OF beatingD(1) [OF assms(1)] refl f] assms(1) beating_cong by blast
  from reset_loop_heartbeat [OF this l Flush_heartbeat [OF assms(1-3) f assms(5)]] have "heartbeat_ok view w2 d2 b" .
  moreover have "w' = w2" "d_store d' = d_store d2" "d_pendingHeartbeats d' = d_pendingHeartbeats d2"
    "d_pendingResets d' = d_pendingResets d2" using assms(4) f l by (auto simp: Reset_def split: if_split_asm)
  ultimately show ?thesis using heartbeat_ok_fields [of d' d2 view w' b] by simp
qed

lemma drain_heartbeat:
  assumes "beating ev view d" "canonical (s_host (d_store d)) (view w)" "daemon_ok (ev_uc ev) d" "bounded_buffer n d"
    "n + length (texts rest) < 2 ^ 63" "drain ev stopped rest w d = (w', d')" "heartbeat_ok view w d b"
  shows "heartbeat_ok view w' d' b"
proof -
  let ?d1 = "case stopped of Some err \<Rightarrow> emit LevelWarn ''tail stopped with error'' [(''error'', VError err)] d | None \<Rightarrow> d"
  let ?d = "consume_all (ev_uc ev) rest ?d1"
  have s: "d_store ?d = d_store d" "d_pendingHeartbeats ?d = d_pendingHeartbeats d" "d_pendingResets ?d = d_pendingResets d"
    by (simp_all split: option.split)
  have ok: "daemon_ok (ev_uc ev) ?d1" "bounded_buffer n ?d1" using assms(3,4) by (simp_all split: option.split)
  have f: "Flush ev [] w ?d = (w', d')" using assms(6) by (simp add: drain_def Let_def)
  have ub: "unsigned_buffer ?d" using consume_bounded [OF ok assms(5)] by (rule bounded_unsigned)
  have bt: "beating ev view ?d" unfolding beating_cong [OF s(1)] by (rule assms(1))
  have can: "canonical (s_host (d_store ?d)) (view w)" unfolding s(1) by (rule assms(2))
  have hb: "heartbeat_ok view w ?d b" unfolding heartbeat_ok_fields [OF s] by (rule assms(7))
  show ?thesis by (rule Flush_heartbeat [OF bt can ub f hb])
qed

lemma heartbeat_ok_emit [simp]: "heartbeat_ok view w (emit l m as d) b = heartbeat_ok view w d b"
  by (rule heartbeat_ok_fields) simp_all

lemma heartbeat_ok_stopMetrics [simp]: "heartbeat_ok view w (stopMetrics down d) b = heartbeat_ok view w d b"
  by (rule heartbeat_ok_fields) (auto simp: stopMetrics_def Let_def split: option.split)

lemma run_step_heartbeat:
  assumes "beating ev view (ru_d s)" "canonical (s_host (d_store (ru_d s))) (view (ru_w s))"
    "daemon_ok (ev_uc ev) (ru_d s)" "bounded_buffer n (ru_d s)" "n + length (texts (label_lines l)) < 2 ^ 63"
    "run_step ev s l t" "heartbeat_ok view (ru_w s) (ru_d s) b"
  shows "heartbeat_ok view (ru_w t) (ru_d t) b"
proof -
  note ub = bounded_unsigned [OF assms(4)]
  from assms(6) show ?thesis
  proof cases
    case (Lines ls)
    with assms(7) heartbeat_ok_fields [of "ru_d t" "ru_d s" view "ru_w s" b] show ?thesis by simp
  next
    case (Tick arr w' d')
    with Flush_heartbeat [OF assms(1,2) ub Tick(4) assms(7)] show ?thesis by simp
  next
    case (ResetTaken d1 arr w' d')
    have d1: "beating ev view d1" "canonical (s_host (d_store d1)) (view (ru_w s))" "unsigned_buffer d1"
      using assms(1,2) ub by (simp_all add: ResetTaken(5) unsigned_buffer_def)
    with Reset_heartbeat [OF d1 ResetTaken(6)] assms(7) ResetTaken show ?thesis by simp
  next
    case (Stop stopped rest w' d' down)
    let ?d = "emit LevelInfo ''shutting down, flushing buffer'' [] (ru_d s)"
    have "beating ev view ?d" "canonical (s_host (d_store ?d)) (view (ru_w s))" "daemon_ok (ev_uc ev) ?d"
      "bounded_buffer n ?d" "n + length (texts rest) < 2 ^ 63" "heartbeat_ok view (ru_w s) ?d b"
      using assms Stop(1) by simp_all
    from drain_heartbeat [OF this(1-5) Stop(5) this(6)] Stop show ?thesis by simp
  next
    case (StopExporter err stopped rest w' d' down)
    let ?d = "emit LevelError ''metrics exporter failed, shutting down'' [(''error'', VError err)] (ru_d s)"
    have "beating ev view ?d" "canonical (s_host (d_store ?d)) (view (ru_w s))" "daemon_ok (ev_uc ev) ?d"
      "bounded_buffer n ?d" "n + length (texts rest) < 2 ^ 63" "heartbeat_ok view (ru_w s) ?d b"
      using assms StopExporter(1) by simp_all
    from drain_heartbeat [OF this(1-5) StopExporter(5) this(6)] StopExporter show ?thesis by simp
  qed (use assms(7) in simp_all)
qed

lemma run_trace_heartbeat:
  assumes "run_trace ev s ls t" "beating ev view (ru_d s)" "canonical (s_host (d_store (ru_d s))) (view (ru_w s))"
    "daemon_ok (ev_uc ev) (ru_d s)" "bounded_buffer n (ru_d s)" "n + length (texts (trace_lines ls)) < 2 ^ 63"
    "heartbeat_ok view (ru_w s) (ru_d s) b"
  shows "heartbeat_ok view (ru_w t) (ru_d t) b"
  using assms
proof (induction arbitrary: n rule: run_trace.induct)
  case (Cons s l t ls u)
  note env = beatingD [OF Cons.prems(1)]
  have m: "n + length (texts (label_lines l)) < 2 ^ 63" using Cons.prems(5) by simp
  note K = kc.run_step_kept [OF env(1) refl Cons.hyps(1)]
  from run_step_effect [OF env(4) Cons.prems(3,4) m Cons.hyps(1)]
  have k: "step_keeps (ev_uc ev) (n + length (texts (label_lines l))) s t" .
  have "beating ev view (ru_d t)" using Cons.prems(1) K(2) beating_cong by blast
  moreover have "canonical (s_host (d_store (ru_d t))) (view (ru_w t))" using K Cons.prems(2) by simp
  ultimately show ?case
    using k Cons.prems(5) run_step_heartbeat [OF Cons.prems(1-4) m Cons.hyps(1) Cons.prems(6)]
    by (intro Cons.IH [of "n + length (texts (label_lines l))"]) (simp_all add: step_keeps_def)
qed simp

end
