(* ===== verification/Waiting.thy ===== *)
theory Waiting
  imports Ledger
begin

section \<open>How often an operation waits for a dead server\<close>

text \<open>
  Every call that fails because the server is unreachable costs up to a timeout, during which the main
  loop does nothing else. \<open>counts_waits\<close> says of a number in the world that it counts these calls; the
  lemmas bound it for each operation by whether the operation reports such a failure, so that a loop
  that stops at the first report waits once, however many words there are.
\<close>

definition counts_waits :: "'w client \<Rightarrow> ('w \<Rightarrow> nat) \<Rightarrow> bool" where
  "counts_waits cl waits \<longleftrightarrow>
     (\<forall>w c w' r. rdb_do cl w c = (w', r) \<longrightarrow>
        waits w' = waits w + (if IsUnavailable (reply_err r) then 1 else 0)) \<and>
     (\<forall>w cs w' err rs. rdb_exec cl w cs = (w', err, rs) \<longrightarrow>
        waits w' = waits w + (if IsUnavailable err then 1 else 0))"

lemma IsUnavailable_simps [simp]:
  "IsUnavailable (Some (Errorf f args (Some e))) = IsUnavailable (Some e)" "\<not> IsUnavailable None"
  by (simp_all add: IsUnavailable_def)

lemma reply_err_simps [simp]: "reply_err (Inl e) = Some e" "reply_err (Inr x) = None"
  by (simp_all add: reply_err_def)

lemma do_waits: "counts_waits cl waits \<Longrightarrow> rdb_do cl w c = (w', r) \<Longrightarrow> waits w' = waits w + of_bool (IsUnavailable (reply_err r))"
  by (simp add: counts_waits_def)

lemma exec_waits: "counts_waits cl waits \<Longrightarrow> rdb_exec cl w cs = (w', err, rs) \<Longrightarrow> waits w' = waits w + of_bool (IsUnavailable err)"
  unfolding counts_waits_def of_bool_def by blast

lemma SetHeartbeat_waits:
  "counts_waits cl waits \<Longrightarrow> SetHeartbeat cl s w a n ts = (w', r) \<Longrightarrow> waits w' \<le> waits w + of_bool (IsUnavailable r)"
  by (auto simp: SetHeartbeat_def dest!: do_waits [rotated] split: if_split_asm prod.split_asm option.split_asm)

lemma Store_Reset_waits:
  assumes c: "counts_waits cl waits" and r: "Store_Reset cl s w a ts = (w', r)"
  shows "waits w' \<le> waits w + of_bool (IsUnavailable r)"
proof -
  obtain w1 r1 where x: "rdb_do cl w (SetKey (CounterKey (s_host s) a) ''0'' (s_ttl s)) = (w1, r1)" by fastforce
  note d = do_waits [OF c x]
  show ?thesis
  proof (cases r1)
    case (Inl e)
    with r x d show ?thesis by (auto simp: Store_Reset_def)
  next
    case (Inr y)
    with r x have "SetHeartbeat cl s w1 a 0 ts = (w', r)" by (simp add: Store_Reset_def)
    from SetHeartbeat_waits [OF c this] d Inr show ?thesis by simp
  qed
qed

lemma Touch_waits: "counts_waits cl waits \<Longrightarrow> Touch cl s w as = (w', r) \<Longrightarrow> waits w' \<le> waits w + of_bool (IsUnavailable r)"
  by (auto simp: Touch_def Let_def dest!: exec_waits [rotated] split: if_split_asm prod.split_asm option.split_asm)

lemma Incr_waits:
  assumes c: "counts_waits cl waits" and r: "Incr cl s w a n = (w', r)"
  shows "waits w' \<le> waits w + of_bool (IsUnavailable (case r of Inl e \<Rightarrow> Some e | Inr _ \<Rightarrow> None))"
proof (cases "s_ttl s \<le>s 0")
  case True
  obtain w1 r1 where x: "rdb_do cl w (IncrBy (CounterKey (s_host s) a) n) = (w1, r1)" by fastforce
  have "w' = w1" using r True x by (auto simp: Incr_def Let_def split: sum.split_asm)
  moreover have "\<exists>e'. r = Inl (Errorf ''incrby %q: %w'' [AS a] (Some e))" if "r1 = Inl e" for e
    using r True x that by (auto simp: Incr_def Let_def reply_int_def)
  ultimately show ?thesis using do_waits [OF c x] by (cases r1) auto
next
  case False
  let ?p = "[IncrBy (CounterKey (s_host s) a) n, Expire (CounterKey (s_host s) a) (s_ttl s)]"
  obtain w1 err rs where x: "rdb_exec cl w ?p = (w1, err, rs)" by (cases "rdb_exec cl w ?p") auto
  have i: "Incr cl s w a n = (case err of
      Some err \<Rightarrow> (w1, Inl (Errorf ''incrby %q: %w'' [AS a] (Some err)))
    | None \<Rightarrow> (w1, snd (Incr cl s w a n)))"
    using False x
    by (auto simp: Incr_def Let_def split: option.split list.split sum.split)
  from exec_waits [OF c x] i r show ?thesis by (cases err) auto
qed

lemma Init_waits:
  assumes c: "counts_waits cl waits"
  shows "Init cl s w as ts = (w', r) \<Longrightarrow> waits w' \<le> waits w + of_bool (IsUnavailable r)"
proof (induction as arbitrary: w)
  case (Cons a as)
  obtain w1 r1 where 1: "rdb_do cl w (SetNX (CounterKey (s_host s) a) ''0'' (s_ttl s)) = (w1, r1)" by fastforce
  obtain w2 r2 where 2: "rdb_do cl w1 (Get (CounterKey (s_host s) a)) = (w2, r2)" by fastforce
  have rest: "waits w' \<le> waits x + of_bool (IsUnavailable r)" if "Init cl s x as ts = (w', r)" for x
    using Cons.IH [OF that] .
  show ?case
  proof (cases r1)
    case (Inl e)
    with Cons.prems 1 do_waits [OF c 1] show ?thesis by auto
  next
    case r1: (Inr y)
    then have w1: "waits w1 = waits w" using do_waits [OF c 1] by simp
    show ?thesis
    proof (cases "s_heartbeat s")
      case False
      with Cons.prems 1 r1 w1 rest [of w1] show ?thesis by simp
    next
      case True
      show ?thesis
      proof (cases "reply_parse_int r2")
        case (Inl e)
        with Cons.prems 1 2 r1 True have w': "w' = w2" "r = Some (Errorf ''init counter for %q: %w'' [AS a] (Some e))" by simp_all
        show ?thesis
        proof (cases r2)
          case (Inl e2)
          with \<open>reply_parse_int r2 = Inl e\<close> have "e2 = e" by (simp add: reply_parse_int_def)
          with Inl do_waits [OF c 2] w1 w' show ?thesis by simp
        next
          case (Inr y2)
          with do_waits [OF c 2] w1 w' show ?thesis by simp
        qed
      next
        case (Inr n)
        then have "\<exists>y2. r2 = Inr y2" by (cases r2) (simp_all add: reply_parse_int_def)
        then have w2: "waits w2 = waits w" using do_waits [OF c 2] w1 by auto
        obtain w3 r3 where 3: "rdb_do cl w2 (SetNX (HeartbeatKey (s_host s) a) (FormatHeartbeat (s_host s) ts a n) (s_ttl s)) = (w3, r3)"
          by fastforce
        show ?thesis
        proof (cases r3)
          case (Inl e)
          with Cons.prems 1 2 3 r1 True Inr do_waits [OF c 3] w2 show ?thesis by auto
        next
          case (Inr y3)
          with Cons.prems 1 2 3 r1 True \<open>reply_parse_int r2 = Inr n\<close> have "Init cl s w3 as ts = (w', r)" by simp
          from rest [OF this] do_waits [OF c 3] Inr w2 show ?thesis by simp
        qed
      qed
    qed
  qed
qed simp

subsection \<open>A flush and a reset\<close>

lemma flush_delta_waits:
  assumes c: "counts_waits (ev_client ev) waits" and f: "flush_delta ev a dl now w d = (w', d', ok, retry, err)"
  shows "waits w' \<le> waits w + of_bool (IsUnavailable err)"
proof (cases "dl = 0 \<and> map_of (d_pendingHeartbeats d) a = None")
  case True
  with f show ?thesis by (auto simp: flush_delta_def)
next
  case False
  let ?t = "mget 0 (d_pendingHeartbeats d) a"
  obtain w1 r where i: "(if 0 <s dl then Incr (ev_client ev) (d_store d) w a dl else (w, Inr ?t)) = (w1, r)" by fastforce
  have 1: "waits w1 \<le> waits w + of_bool (IsUnavailable (case r of Inl e \<Rightarrow> Some e | Inr _ \<Rightarrow> None))"
    using i Incr_waits [OF c] by (cases "0 <s dl") auto
  show ?thesis
  proof (cases r)
    case (Inl e)
    with f False i 1 show ?thesis by (auto simp: flush_delta_def Let_def)
  next
    case (Inr n)
    obtain w2 e2 where h: "SetHeartbeat (ev_client ev) (d_store d) w1 a n now = (w2, e2)" by fastforce
    with f False i Inr have "w' = w2 \<and> err = e2" by (cases e2) (auto simp: flush_delta_def Let_def)
    with SetHeartbeat_waits [OF c h] 1 Inr show ?thesis by simp
  qed
qed

lemma flushAction_waits:
  assumes c: "counts_waits (ev_client ev) waits" and f: "flushAction ev a dl now w d = (w', d', ok, retry, err)"
  shows "waits w' \<le> waits w + of_bool (IsUnavailable err)"
proof (cases "mget False (d_pendingResets d) a")
  case False
  with f flush_delta_waits [OF c] show ?thesis by (simp add: flushAction_def)
next
  case True
  obtain w1 e1 where r: "Store_Reset (ev_client ev) (d_store d) w a now = (w1, e1)" by fastforce
  note s = Store_Reset_waits [OF c r]
  show ?thesis
  proof (cases e1)
    case (Some e)
    with f True r s show ?thesis by (auto simp: flushAction_def)
  next
    case None
    with f True r obtain d1 where "flush_delta ev a dl now w1 d1 = (w', d', ok, retry, err)" by (auto simp: flushAction_def)
    from flush_delta_waits [OF c this] s None show ?thesis by simp
  qed
qed

lemma flush_one_waits:
  assumes c: "counts_waits (ev_client ev) waits" and f: "flush_one ev ds now a (w, d, v) = (w', d', v')"
  shows "waits w' + of_bool (fv_unreachable v) \<le> waits w + of_bool (fv_unreachable v')"
proof (cases "fv_unreachable v")
  case True
  with f show ?thesis by (auto simp: flush_one_def Let_def)
next
  case False
  obtain w1 d1 ok retry e where a: "flushAction ev a (mget 0 ds a) now w d = (w1, d1, ok, retry, e)" by (metis prod_cases5)
  from f False a have "w' = w1" "fv_unreachable v' = IsUnavailable e"
    by (auto simp: flush_one_def Let_def split: option.split_asm if_split_asm)
  with flushAction_waits [OF c a] False show ?thesis by simp
qed

lemma flush_loop_waits:
  assumes c: "counts_waits (ev_client ev) waits"
  shows "flush_loop ev ds now as (w, d, v) = (w', d', v') \<Longrightarrow>
    waits w' + of_bool (fv_unreachable v) \<le> waits w + of_bool (fv_unreachable v')"
proof (induction as arbitrary: w d v)
  case Nil
  then show ?case by (simp add: flush_loop_def)
next
  case (Cons a as)
  obtain w1 d1 v1 where o: "flush_one ev ds now a (w, d, v) = (w1, d1, v1)" by (metis prod_cases3)
  have "flush_loop ev ds now as (w1, d1, v1) = (w', d', v')" using Cons.prems o by (simp add: flush_loop_Cons)
  from Cons.IH [OF this] flush_one_waits [OF c o] show ?case by linarith
qed

lemma ensureInit_waits:
  assumes c: "counts_waits (ev_client ev) waits" and i: "ensureInit ev w d = (w', d', b)"
  shows "waits w' \<le> waits w + of_bool (\<not> d_initialized d)"
proof -
  obtain w1 e1 where 1: "Init (ev_client ev) (d_store d) w (d_actions d) (ev_now ev w) = (w1, e1)" by fastforce
  obtain w2 e2 where 2: "Touch (ev_client ev) (d_store d) w1 (d_actions d) = (w2, e2)" by fastforce
  show ?thesis
    using i 1 2 Init_waits [OF c 1] Touch_waits [OF c 2]
    by (cases "d_initialized d"; cases e1; cases e2) (auto simp: ensureInit_def Let_def intro: le_trans)
qed

lemma refreshTTL_waits:
  assumes c: "counts_waits (ev_client ev) waits" and r: "refreshTTL ev w d = (w', d', b)"
  shows "waits w' \<le> waits w + 1"
proof -
  obtain w1 e1 where 1: "Touch (ev_client ev) (d_store d) w (d_actions d) = (w1, e1)" by fastforce
  show ?thesis
    using r 1 Touch_waits [OF c 1] by (cases e1) (auto simp: refreshTTL_def split: if_split_asm intro: le_trans)
qed

lemma Flush_waits:
  assumes c: "counts_waits (ev_client ev) waits" and f: "Flush ev arr w d0 = (w', d')"
  shows "waits w' \<le> waits w + 1 + of_bool (\<not> d_initialized d0)"
  using f
proof (cases rule: Flush_cases)
  case (deferred d)
  from ensureInit_waits [OF c deferred(1)] show ?thesis by simp
next
  case (idle w1 d d2 reached)
  from ensureInit_waits [OF c idle(1)] refreshTTL_waits [OF c idle(5)] show ?thesis by linarith
next
  case (work w1 d)
  from work(3) show ?thesis
  proof (rule flush_work_steps)
    fix w2 d2 v d4 d5 d6
    assume l: "flush_loop ev (pending (d_cnt d)) (ev_now ev w1) (d_actions (d\<lparr>d_cnt := fst (Drain (d_cnt d))\<rparr>))
        (w1, d\<lparr>d_cnt := fst (Drain (d_cnt d))\<rparr>, flush_start) = (w2, d2, v)"
      and t: "if fv_unreachable v then w' = w2 \<and> d5 = d4 else (\<exists>b. refreshTTL ev w2 d4 = (w', d5, b))"
    have "waits w' \<le> waits w1 + 1"
    proof (cases "fv_unreachable v")
      case True
      with flush_loop_waits [OF c l] t show ?thesis by (simp add: flush_start_def)
    next
      case False
      with t obtain b where "refreshTTL ev w2 d4 = (w', d5, b)" by auto
      from refreshTTL_waits [OF c this] flush_loop_waits [OF c l] False show ?thesis by (simp add: flush_start_def)
    qed
    with ensureInit_waits [OF c work(1)] show ?thesis by linarith
  qed
qed

lemma reset_loop_waits:
  assumes c: "counts_waits (ev_client ev) waits"
  shows "reset_loop ev now as (w, d, v) = (w', d', v') \<Longrightarrow>
    waits w' + of_bool (rv_unreachable v) \<le> waits w + of_bool (rv_unreachable v')"
proof (induction as arbitrary: w d v)
  case Nil
  then show ?case by (simp add: reset_loop_def)
next
  case (Cons a as)
  obtain w1 d1 v1 where o: "reset_one ev now a (w, d, v) = (w1, d1, v1)" by (metis prod_cases3)
  obtain w2 e where r: "Store_Reset (ev_client ev) (d_store d) w a now = (w2, e)" by fastforce
  have "waits w1 + of_bool (rv_unreachable v) \<le> waits w + of_bool (rv_unreachable v1)"
    using o r Store_Reset_waits [OF c r] by (cases "rv_unreachable v"; cases e) (auto simp: reset_one_def)
  moreover have "reset_loop ev now as (w1, d1, v1) = (w', d', v')" using Cons.prems o by (simp add: reset_loop_Cons)
  ultimately show ?case using Cons.IH by fastforce
qed

lemma Reset_waits:
  assumes c: "counts_waits (ev_client ev) waits" and r: "Reset ev arr w d = (w', d')"
  shows "waits w' \<le> waits w + 2 + of_bool (\<not> d_initialized d)"
proof -
  obtain w1 d1 where f: "Flush ev arr w d = (w1, d1)" by fastforce
  obtain w2 d2 v where l: "reset_loop ev (ev_now ev w1) (d_actions d1) (w1, d1, \<lparr>rv_errs = 0, rv_unreachable = False\<rparr>) = (w2, d2, v)"
    by (metis prod_cases3)
  have "w' = w2" using r f l by (auto simp: Reset_def split: if_split_asm)
  moreover have "waits w2 \<le> waits w1 + 1" using reset_loop_waits [OF c l] by (cases "rv_unreachable v") simp_all
  ultimately show ?thesis using Flush_waits [OF c f] by simp
qed

text \<open>Any client with a counter beside it.\<close>

definition counting :: "'w client \<Rightarrow> ('w \<times> nat) client" where
  "counting cl = \<lparr>
     rdb_do = (\<lambda>wn c. case rdb_do cl (fst wn) c of (w', r) \<Rightarrow>
       ((w', snd wn + (if IsUnavailable (reply_err r) then 1 else 0)), r)),
     rdb_exec = (\<lambda>wn cs. case rdb_exec cl (fst wn) cs of (w', err, rs) \<Rightarrow>
       ((w', snd wn + (if IsUnavailable err then 1 else 0)), err, rs))\<rparr>"

lemma counting_counts: "counts_waits (counting cl) snd"
  by (auto simp: counts_waits_def counting_def split: prod.split_asm)

end
