(* ===== verification/Runtime_Props.thy ===== *)
theory Runtime_Props
  imports Delivery_Props Heartbeat Waiting
begin

section \<open>Properties of a running daemon\<close>

text \<open>
  What holds at every moment of a run besides the ledger: the heartbeats follow the counters, the keys of
  other hosts are left alone, an outage holds the loop up once and not once per word, a dead exporter ends
  the run, and an expiry that has wrapped around stops the counting.
\<close>

subsection \<open>Heartbeats\<close>




subsection \<open>Other instances\<close>



subsection \<open>Outages\<close>

text \<open>
  C10. An outage holds the main loop up once, not once per word. Of the calls of a flush at most one fails
  because the server is unreachable, and at most two while the keys are not initialised; a reset adds at
  most one. Each such call waits up to its timeout, during which the loop does nothing else.
\<close>

theorem outage_costs_one_wait:
  assumes "counts_waits (ev_client ev) waits"
  shows "waits (fst (Flush ev arr w d)) \<le> waits w + (if d_initialized d then 1 else 2) \<and>
    waits (fst (Reset ev arr w d)) \<le> waits w + (if d_initialized d then 2 else 3)"
  using Flush_waits [OF assms, of arr w d "fst (Flush ev arr w d)" "snd (Flush ev arr w d)"]
    Reset_waits [OF assms, of arr w d "fst (Reset ev arr w d)" "snd (Reset ev arr w d)"]
  by (cases "d_initialized d") simp_all

definition counting_env :: "(server \<times> nat) denv" where
  "counting_env = \<lparr>ev_client = counting server_client, ev_now = (\<lambda>w. ev_now server_env (fst w)), ev_uc = ascii_tables\<rparr>"

lemma outage_costs_one_wait_witness:
  "let d = consume_all ascii_tables [Text ''a'', Text ''b''] (small_daemon\<lparr>d_initialized := True\<rparr>);
       w = (\<lparr>sv_db = Map.empty, sv_faults = [Lost, Lost, Lost, Lost]\<rparr>, 0)
   in snd (fst (Flush counting_env [] w d)) \<le> 1 \<and> snd (fst (Reset counting_env [] w d)) \<le> 2"
proof -
  have c: "counts_waits (ev_client counting_env) snd" by (simp add: counting_env_def counting_counts)
  let ?d = "consume_all ascii_tables [Text ''a'', Text ''b''] (small_daemon\<lparr>d_initialized := True\<rparr>)"
  have "d_initialized ?d" by simp
  then show ?thesis
    using outage_costs_one_wait [OF c, of "[]" "(\<lparr>sv_db = Map.empty, sv_faults = [Lost, Lost, Lost, Lost]\<rparr>, 0)" ?d]
    by (simp add: Let_def)
qed

subsection \<open>A dead exporter\<close>

lemma run_step_exporter_error:
  assumes "run_step ev s l t" "ru_metricsErr s = Some err"
  shows "ru_result t = None \<and> ru_metricsErr t = Some err \<or>
    (\<exists>rest. l = Stop rest \<and> ru_result t = Some (Returned None)) \<or>
    (\<exists>rest. l = StopExporter rest \<and> ru_result t = Some (Returned (Some err)))"
  using assms by (cases rule: run_step.cases) (auto simp: serve_ended_def split: option.split)

lemma run_trace_exporter_error:
  assumes "run_trace ev s ls t" "ru_metricsErr s = Some err" "ru_result s = None"
  shows "ru_result t = None \<and> ru_metricsErr t = Some err \<or>
    (\<exists>ks rest. ls = ks @ [Stop rest] \<and> ru_result t = Some (Returned None)) \<or>
    (\<exists>ks rest. ls = ks @ [StopExporter rest] \<and> ru_result t = Some (Returned (Some err)))"
  using assms
proof (induction rule: run_trace.induct)
  case (Cons s l t ls u)
  show ?case
  proof (cases "ru_result t = None")
    case True
    with run_step_exporter_error [OF Cons.hyps(1) Cons.prems(1)] have "ru_metricsErr t = Some err" by auto
    from Cons.IH [OF this True] show ?thesis by (metis append_Cons)
  next
    case False
    with Cons.hyps(2) have "ls = [] \<and> u = t" by (cases rule: run_trace.cases) (auto elim: run_step.cases)
    with False run_step_exporter_error [OF Cons.hyps(1) Cons.prems(1)] show ?thesis by (metis append_Nil)
  qed
qed simp

text \<open>
  C13. A dead exporter ends the daemon. Once \<open>Serve\<close> has failed, the error stays until the run ends: until
  then the branch that ends it with this very error can be taken, and when the server answers it writes out
  all that has been counted, the last lines included; the run ends no other way than with this error or,
  if a signal comes first, without one.
\<close>

theorem dead_exporter_ends_the_run:
  assumes "run_trace ev s ls t" "ru_metricsErr s = Some err" "ru_result s = None"
  shows "(ru_result t = None \<longrightarrow> (\<exists>u. run_step ev t (StopExporter rest) u \<and> ru_result u = Some (Returned (Some err)) \<and>
      (healthy (ev_client ev) view \<and> \<not> s_ttl (d_store (ru_d t)) <s 0 \<and> daemon_ok (ev_uc ev) (ru_d t) \<and> bounded_buffer n (ru_d t) \<and>
       n + length (texts rest) < 2 ^ 63 \<and> canonical (s_host (d_store (ru_d t))) (view (ru_w t)) \<and>
       (\<forall>a\<in>set (d_actions (ru_d t)). accounted view t a + int (length (texts rest)) < 2 ^ 63) \<longrightarrow>
       (\<forall>a\<in>set (d_actions (ru_d t)). counter_value (s_host (d_store (ru_d t))) (view (ru_w u)) a =
          accounted view t a + int (arrived (ev_uc ev) (ru_d t) rest a))))) \<and>
    (ru_result t \<noteq> None \<longrightarrow>
      (\<exists>ks rest. ls = ks @ [Stop rest] \<and> ru_result t = Some (Returned None)) \<or>
      (\<exists>ks rest. ls = ks @ [StopExporter rest] \<and> ru_result t = Some (Returned (Some err))))"
proof (cases "ru_result t = None")
  case True
  with run_trace_exporter_error [OF assms] have e: "ru_metricsErr t = Some err" by auto
  let ?d = "emit LevelError ''metrics exporter failed, shutting down'' [(''error'', VError err)] (ru_d t)"
  obtain w' d' where dr: "drain ev None rest (ru_w t) ?d = (w', d')" by fastforce
  have st: "run_step ev t (StopExporter rest) (t\<lparr>ru_w := w', ru_d := stopMetrics None d', ru_metricsErr := None,
      ru_result := Some (Returned (Some err))\<rparr>)" (is "run_step _ _ _ ?u")
    using True e dr by (rule run_step.StopExporter)
  note stop_delivers(1) [OF st disjI2 [OF refl], of view n]
  with st True show ?thesis by (intro conjI impI exI [of _ ?u]) simp_all
qed (use run_trace_exporter_error [OF assms] in auto)

lemma dead_exporter_ends_the_run_witness:
  "\<exists>t u. run_trace up_env ((started old_counters busy_daemon None)\<lparr>ru_metricsErr := Some (ErrText ''accept failed'')\<rparr>) [Cancel] t \<and>
     run_step up_env t (StopExporter [Text ''a'']) u \<and> ru_result u = Some (Returned (Some (ErrText ''accept failed''))) \<and>
     counter_value ''web01'' (ru_w u) ''a'' = 43"
proof -
  let ?s = "(started old_counters busy_daemon None)\<lparr>ru_metricsErr := Some (ErrText ''accept failed'')\<rparr>"
  let ?t = "?s\<lparr>ru_done := True\<rparr>"
  have s: "ru_metricsErr ?s = Some (ErrText ''accept failed'')" "ru_result ?s = None" by (simp_all add: started_def)
  have t: "ru_result ?t = None" "ru_d ?t = busy_daemon" "ru_w ?t = old_counters" by (simp_all add: started_def)
  have tr: "run_trace up_env ?s [Cancel] ?t" using s(2) by (intro run_trace.Cons [OF run_step.Cancel] run_trace.Nil)
  note P = dead_exporter_ends_the_run [OF tr s, of "[Text ''a'']" id 2]
  have "healthy (ev_client up_env) id" using up_client_healthy by (simp add: up_env_def)
  moreover have "\<not> s_ttl (d_store busy_daemon) <s 0" by code_simp
  moreover have "daemon_ok (ev_uc up_env) busy_daemon" using busy_facts(1) by (simp add: up_env_def)
  moreover have "bounded_buffer 2 busy_daemon" using busy_facts by (simp add: bounded_buffer_def)
  moreover have "2 + length (texts [Text ''a'']) < 2 ^ 63" by simp
  moreover have "canonical (s_host (d_store busy_daemon)) (id old_counters)" using old_counters_canonical by simp
  moreover have "\<forall>a\<in>set (d_actions busy_daemon). accounted id ?t a + int (length (texts [Text ''a''])) < 2 ^ 63"
    "accounted id ?t ''a'' = 42" using busy_facts by (simp_all add: accounted_def t)
  moreover have "''a'' \<in> set (d_actions busy_daemon)" using busy_facts by simp
  moreover have "arrived (ev_uc up_env) busy_daemon [Text ''a''] ''a'' = 1" by code_simp
  ultimately obtain u where "run_step up_env ?t (StopExporter [Text ''a'']) u"
    "ru_result u = Some (Returned (Some (ErrText ''accept failed'')))" "counter_value ''web01'' (ru_w u) ''a'' = 43"
    using P t busy_facts(3) by fastforce
  with tr show ?thesis by blast
qed

subsection \<open>An expiry that has wrapped around\<close>

lemma Init_negative_ttl:
  assumes "redis_contract cl view" "s_ttl s <s 0" "as \<noteq> []" "Init cl s w as ts = (w', r)"
  shows "r \<noteq> None"
proof -
  from assms(3) obtain a as' where as: "as = a # as'" by (cases as) auto
  obtain w1 r1 where x: "rdb_do cl w (SetNX (CounterKey (s_host s) a) ''0'' (s_ttl s)) = (w1, r1)" by fastforce
  have "\<exists>e. r1 = Inl e"
    using cmd_outcome_once [OF redis_contractD(1) [OF assms(1) x]] assms(2)
    by (cases r1) (auto simp: applied_def)
  with assms(4) x show ?thesis by (auto simp: as)
qed

text \<open>
  C14. A \<open>redis.ttl\<close> that is accepted but wraps around to a negative duration stops the counting: go-redis
  passes the negative expiry of \<open>SetNX\<close> on, the server refuses it, \<open>Init\<close> never succeeds, and every flush is
  deferred: the counters do not move and the buffer only grows.
\<close>

theorem negative_ttl_never_counts:
  assumes "redis_contract (ev_client ev) view" "s_ttl (d_store d) <s 0" "d_actions d \<noteq> []" "\<not> d_initialized d"
    "Flush ev arr w d = (w', d')"
  shows "\<not> d_initialized d' \<and> d_cnt d' = ProcessLines (ev_uc ev) (texts arr) (d_cnt d) \<and>
    counter_value (s_host (d_store d)) (view w') a = counter_value (s_host (d_store d)) (view w) a"
proof -
  obtain w1 e1 where 1: "Init (ev_client ev) (d_store d) w (d_actions d) (ev_now ev w) = (w1, e1)" by fastforce
  have "e1 \<noteq> None" by (rule Init_negative_ttl [OF assms(1-3) 1])
  then obtain e where "e1 = Some e" by blast
  with 1 assms(4) have i: "ensureInit ev w d = (w1, noteRedisError ''init keys'' e d, False)" by (simp add: ensureInit_def)
  from assms(5) show ?thesis
  proof (cases rule: Flush_cases)
    case (deferred d1)
    with i have d: "w' = w1" "d1 = noteRedisError ''init keys'' e d" by simp_all
    show ?thesis using Init_val [OF assms(1) 1] assms(4) by (simp add: deferred(2) d)
  qed (use i in simp_all)
qed

definition huge_ttl :: config where
  "huge_ttl = small_config\<lparr>cfg_redis := (cfg_redis Default)\<lparr>r_ttl := 10000000000\<rparr>\<rparr>"

definition huge_ttl_daemon :: daemon where
  "huge_ttl_daemon = consume_all ascii_tables [Text ''a'']
     (Daemon_New server_env \<lparr>sv_db = Map.empty, sv_faults = []\<rparr> huge_ttl (Store_New (cfg_redis huge_ttl) ''web01'' False) [])"

lemma negative_ttl_never_counts_witness:
  "snd (snd (Validate ascii_tables example_libs huge_ttl)) = None \<and>
   counter_value ''web01'' (sv_db (fst (Flush server_env [] \<lparr>sv_db = Map.empty, sv_faults = []\<rparr> huge_ttl_daemon))) ''a'' = 0 \<and>
   \<not> d_initialized (snd (Flush server_env [] \<lparr>sv_db = Map.empty, sv_faults = []\<rparr> huge_ttl_daemon))"
proof -
  let ?w = "\<lparr>sv_db = Map.empty, sv_faults = []\<rparr>"
  obtain w' d' where f: "Flush server_env [] ?w huge_ttl_daemon = (w', d')" by fastforce
  have "valid_config example_libs huge_ttl" by code_simp
  moreover have "redis_contract (ev_client server_env) sv_db" by (simp add: server_env_def server_contract)
  moreover have "s_ttl (d_store huge_ttl_daemon) <s 0" "d_actions huge_ttl_daemon \<noteq> []" "\<not> d_initialized huge_ttl_daemon"
    "s_host (d_store huge_ttl_daemon) = ''web01''" by code_simp+
  ultimately show ?thesis
    using negative_ttl_never_counts [of server_env sv_db huge_ttl_daemon "[]" ?w w' d' "''a''"] f
    by (simp add: Validate_accepts_iff counter_value_def)
qed

end
