(* ===== verification/Metrics.thy ===== *)
theory Metrics
  imports Counter Reader Go_Time
begin

section \<open>The exporter (internal/metrics)\<close>

text \<open>
  \<open>collector\<close> is the struct \<open>Collector\<close> without its pointers: the counter, the reader and the logger
  are arguments. \<open>Collect\<close> returns the samples in the order in which they are sent to the channel. A
  \<open>float64\<close> is kept as the exact number it was converted from: \<open>F64 n\<close> for \<open>float64(n)\<close> and
  \<open>Secs d\<close> for \<open>d.Seconds()\<close>. \<open>status\<close> is the data of the page, whose template is in \<open>Status_Page\<close>.
\<close>

subsection \<open>format.go\<close>

datatype f64 = F64 int | Secs int64

definition boolValue :: "bool \<Rightarrow> f64" where "boolValue b = F64 (if b then 1 else 0)"
definition boolLabel :: "bool \<Rightarrow> string" where "boolLabel b = (if b then ''true'' else ''false'')"
definition yesNo :: "bool \<Rightarrow> string" where "yesNo b = (if b then ''yes'' else ''no'')"
definition setOrNot :: "bool \<Rightarrow> string" where "setOrNot b = (if b then ''set'' else ''not set'')"

text \<open>
  \<open>d.Minutes()\<close> and \<open>d.Hours()\<close> are floating-point numbers truncated by \<open>int\<close>; the model divides
  exactly.
\<close>

definition formatUptime :: "int64 \<Rightarrow> string" where
  "formatUptime d0 =
     (let d = (if sint d0 < 0 then 0 else sint d0);
          s = d div 10 ^ 9; m = d div (60 * 10 ^ 9); h = d div (3600 * 10 ^ 9)
      in if d < 60 * 10 ^ 9 then itoa s @ ''s''
         else if d < 3600 * 10 ^ 9 then itoa m @ ''m '' @ pad0 2 (itoa (s mod 60)) @ ''s''
         else if d < 24 * (3600 * 10 ^ 9) then itoa h @ ''h '' @ pad0 2 (itoa (m mod 60)) @ ''m''
         else itoa (h div 24) @ ''d '' @ pad0 2 (itoa (h mod 24)) @ ''h'')"

definition formatTTL :: "int64 \<Rightarrow> string" where
  "formatTTL n = (if n = 0 then ''no expiry'' else Duration_String (seconds n))"

definition formatReset :: "bool \<Rightarrow> string \<Rightarrow> string" where
  "formatReset enabled schedule = (if \<not> enabled then ''disabled (zeroed externally)'' else schedule)"

definition arrow :: string where "arrow = [CHR '' '', CHR 0xE2, CHR 0x86, CHR 0x92, CHR '' '']"

definition formatLogging :: "string \<Rightarrow> string \<Rightarrow> string \<Rightarrow> string" where
  "formatLogging level out file =
     (if file \<noteq> [] then level @ arrow @ out @ '' ('' @ file @ '')'' else level @ arrow @ out)"

subsection \<open>The collector\<close>

record 'w options =
  opt_start :: gotime
  opt_now :: "('w \<Rightarrow> gotime) option"
  opt_timeout :: int64
  opt_version :: string

record 'w collector =
  co_cfg :: config
  co_start :: gotime
  co_now :: "'w \<Rightarrow> gotime"
  co_timeout :: int64
  co_version :: string
  co_redisErrors :: int64

definition defaultTimeout :: int64 where "defaultTimeout = 2 * Second"

text \<open>\<open>time_now\<close> is \<open>time.Now\<close>.\<close>

definition NewCollector :: "('w \<Rightarrow> gotime) \<Rightarrow> 'w \<Rightarrow> config \<Rightarrow> 'w options \<Rightarrow> 'w collector" where
  "NewCollector time_now w cfg opts =
     (let now = (case opt_now opts of None \<Rightarrow> time_now | Some f \<Rightarrow> f) in
      \<lparr>co_cfg = cfg,
       co_start = (if IsZero (opt_start opts) then now w else opt_start opts),
       co_now = now,
       co_timeout = (if opt_timeout opts \<le>s 0 then defaultTimeout else opt_timeout opts),
       co_version = (if opt_version opts = [] then ''dev'' else opt_version opts),
       co_redisErrors = 0\<rparr>)"

text \<open>The descriptors: the name and the label names, in the order of \<open>Describe\<close>.\<close>

datatype desc = Desc string "string list"

definition namespace :: string where "namespace = ''logstat_''"

definition gauge :: "string \<Rightarrow> string list \<Rightarrow> desc" where
  "gauge name labels = Desc (namespace @ name) labels"

definition configInfoLabels :: "string list" where
  "configInfoLabels = [''log_path'', ''host'', ''redis_addr'', ''redis_db'', ''redis_password_set'',
     ''logging_output'', ''reset_schedule'']"

definition uptime :: desc where "uptime = gauge ''uptime_seconds'' []"
definition startTime :: desc where "startTime = gauge ''start_time_seconds'' []"
definition configInfo :: desc where "configInfo = gauge ''config_info'' configInfoLabels"
definition flushInterval :: desc where "flushInterval = gauge ''config_flush_interval_seconds'' []"
definition redisTTL :: desc where "redisTTL = gauge ''config_redis_ttl_seconds'' []"
definition caseSensitiveDesc :: desc where "caseSensitiveDesc = gauge ''config_case_sensitive'' []"
definition pollDesc :: desc where "pollDesc = gauge ''config_poll'' []"
definition heartbeatKey :: desc where "heartbeatKey = gauge ''config_heartbeat_key'' []"
definition resetEnabled :: desc where "resetEnabled = gauge ''config_reset_enabled'' []"
definition actionsDesc :: desc where "actionsDesc = gauge ''config_actions'' []"
definition linesRead :: desc where "linesRead = gauge ''lines_read_total'' []"
definition matchedLines :: desc where "matchedLines = gauge ''matched_lines_total'' [''action'']"
definition pendingDesc :: desc where "pendingDesc = gauge ''pending_increments'' [''action'']"
definition redisCounter :: desc where "redisCounter = gauge ''redis_counter'' [''action'']"
definition redisUpDesc :: desc where "redisUpDesc = gauge ''redis_up'' []"
definition redisScrapeErrs :: desc where "redisScrapeErrs = gauge ''redis_scrape_errors_total'' []"

definition Describe :: "desc list" where
  "Describe = [uptime, startTime, configInfo, flushInterval, redisTTL, caseSensitiveDesc, pollDesc,
     heartbeatKey, resetEnabled, actionsDesc, linesRead, matchedLines, pendingDesc, redisCounter,
     redisUpDesc, redisScrapeErrs]"

datatype value_type = GaugeValue | CounterValue

datatype sample = Sample (sample_desc: desc) (sample_type: value_type) (sample_value: f64) (sample_labels: "string list")

definition collectProcess :: "'w \<Rightarrow> 'w collector \<Rightarrow> sample list" where
  "collectProcess w c =
     [Sample uptime GaugeValue (Secs (Sub (co_now c w) (co_start c))) [],
      Sample startTime GaugeValue (F64 (Unix (co_start c))) []]"

definition collectConfig :: "string \<Rightarrow> config \<Rightarrow> sample list" where
  "collectConfig host cfg =
     [Sample configInfo GaugeValue (F64 1)
        [cfg_log_path cfg, host, Addr (cfg_redis cfg), itoa (sint (r_db (cfg_redis cfg))),
         boolLabel (r_password (cfg_redis cfg) \<noteq> []), l_output (cfg_logging cfg), rs_schedule (cfg_reset cfg)],
      Sample flushInterval GaugeValue (F64 (sint (cfg_flush_interval cfg))) [],
      Sample redisTTL GaugeValue (F64 (sint (r_ttl (cfg_redis cfg)))) [],
      Sample caseSensitiveDesc GaugeValue (boolValue (cfg_case_sensitive cfg)) [],
      Sample pollDesc GaugeValue (boolValue (cfg_poll cfg)) [],
      Sample heartbeatKey GaugeValue (boolValue (cfg_heartbeat_key cfg)) [],
      Sample resetEnabled GaugeValue (boolValue (rs_enabled (cfg_reset cfg))) [],
      Sample actionsDesc GaugeValue (F64 (int (length (cfg_actions cfg)))) []]"

definition per_action :: "desc \<Rightarrow> value_type \<Rightarrow> int64 gomap \<Rightarrow> sample list" where
  "per_action ds ty m = map (\<lambda>(action, n). Sample ds ty (F64 (sint n)) [action]) m"

definition collectCounter :: "counter \<Rightarrow> sample list" where
  "collectCounter cnt =
     Sample linesRead CounterValue (F64 (sint (Lines cnt))) [] #
     per_action matchedLines CounterValue (Matched cnt) @
     per_action pendingDesc GaugeValue (PendingByAction cnt)"

text \<open>\<open>collectRedis\<close>: the samples, the collector with its error count, and the error that is logged.\<close>

definition collectRedis ::
  "'w client \<Rightarrow> store \<Rightarrow> 'w \<Rightarrow> 'w collector \<Rightarrow> 'w \<times> 'w collector \<times> goerr option \<times> sample list" where
  "collectRedis cl st w c =
     (case Counters cl st w (cfg_actions (co_cfg c)) of (w1, counters, err) \<Rightarrow>
      let c1 = (if err \<noteq> None then c\<lparr>co_redisErrors := co_redisErrors c + 1\<rparr> else c) in
      (w1, c1, err,
       Sample redisUpDesc GaugeValue (boolValue (\<not> IsUnavailable err)) [] #
       per_action redisCounter GaugeValue counters @
       [Sample redisScrapeErrs CounterValue (F64 (uint (co_redisErrors c1))) []]))"

definition Collect ::
  "'w client \<Rightarrow> store \<Rightarrow> counter \<Rightarrow> 'w \<Rightarrow> 'w collector \<Rightarrow> 'w \<times> 'w collector \<times> goerr option \<times> sample list" where
  "Collect cl st cnt w c =
     (case collectRedis cl st w c of (w1, c1, err, redis) \<Rightarrow>
        (w1, c1, err,
         collectProcess w c @ collectConfig (s_host st) (co_cfg c) @ collectCounter cnt @ redis))"

subsection \<open>The status page\<close>

record word_row =
  row_action :: string
  row_matched :: int64
  row_pending :: int64
  row_redis :: string

record status_data =
  sd_version :: string
  sd_host :: string
  sd_uptime :: string
  sd_started :: string
  sd_rendered :: string
  sd_metrics_path :: string
  sd_redis_addr :: string
  sd_redis_db :: int64
  sd_redis_up :: bool
  sd_redis_note :: string
  sd_words :: "word_row list"
  sd_config :: "(string \<times> string) list"

definition missing :: string where "missing = [CHR 0xE2, CHR 0x80, CHR 0x94]"

definition config_rows :: "config \<Rightarrow> (string \<times> string) list" where
  "config_rows cfg =
     [(''log_path'', cfg_log_path cfg),
      (''lock_file'', cfg_lock_file cfg),
      (''case_sensitive'', yesNo (cfg_case_sensitive cfg)),
      (''flush_interval'', itoa (sint (cfg_flush_interval cfg)) @ ''s''),
      (''poll'', yesNo (cfg_poll cfg)),
      (''heartbeat_key'', yesNo (cfg_heartbeat_key cfg)),
      (''redis.ttl'', formatTTL (r_ttl (cfg_redis cfg))),
      (''redis.password'', setOrNot (r_password (cfg_redis cfg) \<noteq> [])),
      (''reset'', formatReset (rs_enabled (cfg_reset cfg)) (rs_schedule (cfg_reset cfg))),
      (''logging'', formatLogging (l_level (cfg_logging cfg)) (l_output (cfg_logging cfg)) (l_file (cfg_logging cfg))),
      (''metrics.listen'', m_listen (cfg_metrics cfg))]"

definition word_row_of :: "counter \<Rightarrow> int64 gomap \<Rightarrow> string \<Rightarrow> word_row" where
  "word_row_of cnt counters a =
     \<lparr>row_action = a, row_matched = mget 0 (Matched cnt) a, row_pending = mget 0 (PendingByAction cnt) a,
      row_redis = (case map_of counters a of Some n \<Rightarrow> itoa (sint n) | None \<Rightarrow> missing)\<rparr>"

definition status :: "unicode \<Rightarrow> 'w client \<Rightarrow> store \<Rightarrow> counter \<Rightarrow> 'w \<Rightarrow> 'w collector \<Rightarrow> 'w \<times> status_data" where
  "status uc cl st cnt w c =
     (case Counters cl st w (cfg_actions (co_cfg c)) of (w1, counters, err) \<Rightarrow>
      let redisUp = (\<not> IsUnavailable err); cfg = co_cfg c; now = co_now c w1 in
      (w1,
       \<lparr>sd_version = co_version c, sd_host = s_host st,
        sd_uptime = formatUptime (Sub now (co_start c)),
        sd_started = human_time (co_start c), sd_rendered = human_time now,
        sd_metrics_path = m_path (cfg_metrics cfg),
        sd_redis_addr = Addr (cfg_redis cfg), sd_redis_db = r_db (cfg_redis cfg),
        sd_redis_up = redisUp,
        sd_redis_note = (case err of Some e \<Rightarrow> if redisUp then err_msg uc e @ '' (shown as unreadable)'' else []
                                    | None \<Rightarrow> []),
        sd_words = map (word_row_of cnt counters) (cfg_actions cfg),
        sd_config = config_rows cfg\<rparr>))"

end
