(* ===== verification/Status_Page.thy ===== *)
theory Status_Page
  imports Metrics Go_Http Logging
begin

section \<open>The status page (internal/metrics/status.go)\<close>

text \<open>
  \<open>statusTemplate\<close> and the handler that executes it. A chunk is what one write of the template engine
  carries: the text between two actions, or the value of an action behind the escaping that
  \<open>html/template\<close> chooses from its context, \<open>html_escape\<close> in text and in the title and \<open>url_attr\<close> in
  the link. The engine leaves the comment out of the style sheet, for which it writes a blank.
\<close>

datatype chunk = Markup string | Data string | Url string

fun chunk_bytes :: "chunk \<Rightarrow> string" where
  "chunk_bytes (Markup s) = s"
| "chunk_bytes (Data s) = html_escape s"
| "chunk_bytes (Url s) = url_attr s"

text \<open>Lines of the template: each but the last ends in a newline.\<close>

definition text_lines :: "string list \<Rightarrow> string" where
  "text_lines ls = join [CHR 0x0A] ls"

definition middle_dot :: string where "middle_dot = [CHR 0xC2, CHR 0xB7]"
definition right_arrow :: string where "right_arrow = [CHR 0xE2, CHR 0x86, CHR 0x92]"

definition page_head :: string where
  "page_head = text_lines [
     ''<!doctype html>'',
     ''<html lang=\"en\">'',
     ''<head>'',
     ''<meta charset=\"utf-8\">'',
     ''<meta name=\"viewport\" content=\"width=device-width, initial-scale=1\">'',
     ''<title>logstat '' @ middle_dot @ '' '']"

definition page_style :: string where
  "page_style = text_lines [
     ''</title>'',
     ''<style>'',
     '':root { color-scheme: light dark; }'',
     ''body { font: 14px/1.5 ui-monospace, SFMono-Regular, Menlo, Consolas, monospace;'',
     ''       margin: 2rem auto; max-width: 46rem; padding: 0 1rem; }'',
     ''h1 { font-size: 1.1rem; margin: 0; display: inline; }'',
     ''h2 { font-size: .95rem; margin: 2rem 0 .5rem; font-weight: 600; opacity: .7; }'',
     ''header { display: flex; justify-content: space-between; align-items: baseline;'',
     ''         border-bottom: 1px solid currentColor; padding-bottom: .5rem; }'',
     ''.dim { opacity: .6; }'',
     ''.ok { color: light-dark(#128a35, #4ec97a); }'',
     ''.bad { color: light-dark(#c02626, #ff7b72); font-weight: 600; }'',
     ''table { border-collapse: collapse; width: 100%; }'',
     ''th, td { text-align: right; padding: .25rem .5rem; }'',
     ''th:first-child, td:first-child { text-align: left; }'',
     ''thead th { font-weight: 600; opacity: .7; border-bottom: 1px solid currentColor; }'',
     '' '',
     ''th:first-child, td:first-child { width: 100%; }'',
     ''th + th, td + td { white-space: nowrap; }'',
     ''tbody tr:nth-child(even) { background: rgba(127,127,127,.12); }'',
     ''.cfg td { text-align: left; }'',
     ''.cfg td:first-child { opacity: .7; width: 12rem; }'',
     ''footer { margin-top: 2rem; }'',
     ''</style>'',
     ''</head>'',
     ''<body>'',
     ''<header>'',
     ''  <div><h1>logstat</h1> <span class=\"dim\">'']"

definition status_line :: "status_data \<Rightarrow> chunk list" where
  "status_line d =
     [Data (sd_version d), Markup ('' '' @ middle_dot @ '' ''), Data (sd_host d),
      Markup (text_lines [''</span></div>'', ''  <a href=\"'']), Url (sd_metrics_path d), Markup ''\">'',
      Data (sd_metrics_path d),
      Markup (text_lines ['' '' @ right_arrow @ ''</a>'', ''</header>'', '''', ''<p>up '']),
      Data (sd_uptime d), Markup '' <span class=\"dim\">(since '', Data (sd_started d),
      Markup (text_lines ['')</span> '' @ middle_dot, ''redis '']), Data (sd_redis_addr d), Markup '' db '',
      Data (itoa (sint (sd_redis_db d))), Markup (text_lines ['' '' @ middle_dot, ''''])] @
     (if sd_redis_up d then [Markup ''<span class=\"ok\">up</span>'']
      else [Markup ''<span class=\"bad\">unreachable</span>'']) @
     [Markup (text_lines ['''', ''''])] @
     (if sd_redis_note d \<noteq> []
      then [Markup ''<br><span class=\"bad\">'', Data (sd_redis_note d), Markup ''</span>''] else [])"

definition word_tr :: "word_row \<Rightarrow> chunk list" where
  "word_tr r =
     [Markup ''<tr><td>'', Data (row_action r), Markup ''</td><td>'', Data (itoa (sint (row_matched r))),
      Markup ''</td><td>'', Data (itoa (sint (row_pending r))), Markup ''</td><td>'', Data (row_redis r),
      Markup (text_lines [''</td></tr>'', ''  ''])]"

definition words_table :: "status_data \<Rightarrow> chunk list" where
  "words_table d =
     [Markup (text_lines [''</p>'', '''', ''<h2>code words</h2>'', ''<table>'',
        ''  <thead><tr><th>word</th><th>in memory</th><th>buffered</th><th>in redis</th></tr></thead>'',
        ''  <tbody>'', ''  ''])] @
     concat (map word_tr (sd_words d)) @
     [Markup (text_lines [''</tbody>'', ''</table>'',
        ''<p class=\"dim\">in memory: matched since this process started '' @ middle_dot @
          '' buffered: waiting for the next flush '' @ middle_dot,
        ''in redis: the shared total the external reader sees, '']),
      Data (sd_metrics_path d)]"

definition config_tr :: "string \<times> string \<Rightarrow> chunk list" where
  "config_tr kv =
     [Markup ''<tr><td>'', Data (fst kv), Markup ''</td><td>'', Data (snd kv),
      Markup (text_lines [''</td></tr>'', ''''])]"

definition config_table :: "status_data \<Rightarrow> chunk list" where
  "config_table d =
     [Markup (text_lines ['' carries the same numbers.'', missing @ '' means the key does not exist.</p>'', '''',
        ''<h2>configuration</h2>'', ''<table class=\"cfg\"><tbody>'', ''''])] @
     concat (map config_tr (sd_config d)) @
     [Markup (text_lines [''</tbody></table>'', '''', ''<footer class=\"dim\">rendered '']), Data (sd_rendered d),
      Markup (text_lines ['' '' @ middle_dot @ '' reload to refresh</footer>'', ''</body>'', ''</html>'', ''''])]"

definition statusTemplate :: "status_data \<Rightarrow> chunk list" where
  "statusTemplate d =
     [Markup page_head, Data (sd_host d), Markup page_style] @ status_line d @ words_table d @ config_table d"

definition page_bytes :: "chunk list \<Rightarrow> string" where
  "page_bytes cs = concat (map chunk_bytes cs)"

text \<open>
  \<open>Template.Execute\<close>: the chunks are written in order until a write fails. The response is a writer on
  a state of its own.
\<close>

fun Execute :: "('v \<Rightarrow> string \<Rightarrow> 'v \<times> goerr option) \<Rightarrow> 'v \<Rightarrow> chunk list \<Rightarrow> 'v \<times> goerr option" where
  "Execute write v [] = (v, None)"
| "Execute write v (c # cs) =
     (case write v (chunk_bytes c) of
        (v1, Some err) \<Rightarrow> (v1, Some err)
      | (v1, None) \<Rightarrow> Execute write v1 cs)"

text \<open>
  \<open>statusHandler\<close>: the world, the header it sets, the response and what it logs.
\<close>

definition statusHandler ::
  "unicode \<Rightarrow> 'w client \<Rightarrow> store \<Rightarrow> counter \<Rightarrow> ('v \<Rightarrow> string \<Rightarrow> 'v \<times> goerr option) \<Rightarrow> 'w \<Rightarrow> 'v \<Rightarrow> 'w collector \<Rightarrow>
   'w \<times> (string \<times> string) \<times> 'v \<times> log_call list" where
  "statusHandler uc cl st cnt write w v c =
     (case status uc cl st cnt w c of (w1, d) \<Rightarrow>
      case Execute write v (statusTemplate d) of (v1, err) \<Rightarrow>
        (w1, (''Content-Type'', ''text/html; charset=utf-8''), v1,
         (case err of None \<Rightarrow> []
          | Some e \<Rightarrow> [(LevelWarn, ''cannot render the status page'', [(''error'', VError e)])])))"

subsection \<open>Markup\<close>

text \<open>The markup characters of a page: those of its fixed texts.\<close>

abbreviation tags :: "string \<Rightarrow> string" where
  "tags \<equiv> filter (\<lambda>c. c \<in> markup)"

fun chunk_shape :: "chunk \<Rightarrow> chunk" where
  "chunk_shape (Markup s) = Markup s"
| "chunk_shape (Data s) = Data []"
| "chunk_shape (Url s) = Url []"

lemma tags_chunk: "tags (chunk_bytes (chunk_shape c)) = tags (chunk_bytes c)"
  by (cases c) simp_all

lemma tags_shape: "tags (page_bytes (map chunk_shape cs)) = tags (page_bytes cs)"
  by (induction cs) (simp_all add: page_bytes_def tags_chunk)

lemma shape_rows:
  "map chunk_shape (concat (map word_tr rs)) = concat (map (\<lambda>r. map chunk_shape (word_tr r)) rs)"
  "map chunk_shape (concat (map config_tr kvs)) = concat (map (\<lambda>kv. map chunk_shape (config_tr kv)) kvs)"
  by (simp_all add: map_concat comp_def)

lemma shape_word_tr: "map chunk_shape (word_tr r) = map chunk_shape (word_tr r')"
  by (simp add: word_tr_def)

lemma shape_config_tr: "map chunk_shape (config_tr kv) = map chunk_shape (config_tr kv')"
  by (simp add: config_tr_def)

lemma map_same_length: "length xs = length ys \<Longrightarrow> (\<And>x y. f x = f y) \<Longrightarrow> map f xs = map f ys"
  by (induction xs ys rule: list_induct2) auto

lemma Execute_all:
  "Execute (\<lambda>v s. (v @ s, None)) v cs = (v @ page_bytes cs, None)"
  by (induction cs arbitrary: v) (simp_all add: page_bytes_def)

text \<open>A writer that fails once it holds too much keeps a prefix of the page.\<close>

lemma Execute_prefix:
  assumes "\<And>v s v' e. write v s = (v', e) \<Longrightarrow> \<exists>t. prefix t s \<and> out v' = out v @ t \<and> (e = None \<longrightarrow> t = s)"
    "Execute write v cs = (v', e)"
  shows "\<exists>t. prefix t (page_bytes cs) \<and> out v' = out v @ t \<and> (e = None \<longrightarrow> t = page_bytes cs)"
  using assms(2)
proof (induction cs arbitrary: v)
  case (Cons c cs)
  obtain v1 e1 where w: "write v (chunk_bytes c) = (v1, e1)" by fastforce
  obtain t where t: "prefix t (chunk_bytes c)" "out v1 = out v @ t" "e1 = None \<Longrightarrow> t = chunk_bytes c"
    using assms(1) [OF w] by blast
  show ?case
  proof (cases e1)
    case None
    with Cons.prems w have "Execute write v1 cs = (v', e)" by simp
    from Cons.IH [OF this] t None show ?thesis by (auto simp: page_bytes_def)
  next
    case (Some err)
    with Cons.prems w have "v' = v1" "e = Some err" by auto
    with t show ?thesis by (auto simp: page_bytes_def)
  qed
qed (simp add: page_bytes_def)

end
