(* ===== verification/Metrics_Props.thy ===== *)
theory Metrics_Props
  imports Metrics Config_Props Store_Props
begin

section \<open>Properties of the exporter\<close>

text \<open>
  A scrape is well formed for the registry, reports an outage as data, never depends on the Redis
  password, and the status page shows the same numbers. What is read from Redis enters through the
  contract \<open>counter_reader\<close>, interpreted on \<open>Counters\<close>.
\<close>

subsection \<open>A scrape the registry accepts\<close>

primrec desc_arity :: "desc \<Rightarrow> nat" where
  "desc_arity (Desc name labels) = length labels"

text \<open>What the registry checks of a scrape: described metrics, the right number of labels, no metric twice.\<close>

definition well_formed :: "sample list \<Rightarrow> bool" where
  "well_formed ss \<longleftrightarrow>
     (\<forall>s\<in>set ss. sample_desc s \<in> set Describe \<and> length (sample_labels s) = desc_arity (sample_desc s)) \<and>
     distinct (map (\<lambda>s. (sample_desc s, sample_labels s)) ss)"

lemmas desc_defs = uptime_def startTime_def configInfo_def flushInterval_def redisTTL_def caseSensitiveDesc_def
  pollDesc_def heartbeatKey_def resetEnabled_def actionsDesc_def linesRead_def matchedLines_def pendingDesc_def
  redisCounter_def redisUpDesc_def redisScrapeErrs_def gauge_def namespace_def configInfoLabels_def

lemma Describe_distinct: "distinct Describe"
  by code_simp

lemma per_action_facts:
  "gomap_ok m \<Longrightarrow> distinct (map (\<lambda>s. (sample_desc s, sample_labels s)) (per_action ds ty m))"
  "s \<in> set (per_action ds ty m) \<Longrightarrow> sample_desc s = ds \<and> length (sample_labels s) = 1"
proof -
  have "map (\<lambda>s. (sample_desc s, sample_labels s)) (per_action ds ty m) = map (\<lambda>a. (ds, [a])) (map fst m)"
    by (simp add: per_action_def split_beta)
  then show "gomap_ok m \<Longrightarrow> distinct (map (\<lambda>s. (sample_desc s, sample_labels s)) (per_action ds ty m))"
    by (simp add: gomap_ok_def distinct_map inj_on_def)
qed (auto simp: per_action_def)

text \<open>Two lists of samples of different descriptors.\<close>

lemma well_formed_append:
  "well_formed xs \<Longrightarrow> well_formed ys \<Longrightarrow> sample_desc ` set xs \<inter> sample_desc ` set ys = {} \<Longrightarrow> well_formed (xs @ ys)"
  unfolding well_formed_def by (auto simp: disjoint_iff image_iff)

lemma well_formed_per_action:
  "gomap_ok m \<Longrightarrow> ds \<in> set Describe \<Longrightarrow> desc_arity ds = 1 \<Longrightarrow> well_formed (per_action ds ty m)"
  using per_action_facts by (fastforce simp: well_formed_def)

lemma per_action_descs: "sample_desc ` set (per_action ds ty m) \<subseteq> {ds}"
  by (auto simp: per_action_def)

lemma gomap_ok_snapshots: "counter_ok uc cnt \<Longrightarrow> gomap_ok (Matched cnt) \<and> gomap_ok (PendingByAction cnt)"
  by (simp add: Matched_def PendingByAction_def)

lemma collectConfig_well_formed: "well_formed (collectProcess w c @ collectConfig host cfg)"
proof -
  have "map sample_desc (collectProcess w c @ collectConfig host cfg) = take 10 Describe"
    by (simp add: collectProcess_def collectConfig_def Describe_def)
  moreover have "distinct (take 10 Describe)" using Describe_distinct by (rule distinct_take)
  ultimately have d: "distinct (map sample_desc (collectProcess w c @ collectConfig host cfg))" by metis
  have "distinct (map (\<lambda>s. (sample_desc s, sample_labels s)) (collectProcess w c @ collectConfig host cfg))"
    using d unfolding distinct_map by (auto simp: inj_on_def)
  moreover have "\<forall>s\<in>set (collectProcess w c @ collectConfig host cfg). sample_desc s \<in> set Describe \<and>
      length (sample_labels s) = desc_arity (sample_desc s)"
    by (auto simp: collectProcess_def collectConfig_def Describe_def desc_defs)
  ultimately show ?thesis unfolding well_formed_def by blast
qed

lemma well_formed_single: "ds \<in> set Describe \<Longrightarrow> desc_arity ds = 0 \<Longrightarrow> well_formed [Sample ds ty v []]"
  by (simp add: well_formed_def)

text \<open>The descriptors of the variable part: all different, with the number of labels they are used with.\<close>

lemma desc_facts:
  "{linesRead, matchedLines, pendingDesc, redisCounter, redisUpDesc, redisScrapeErrs} \<subseteq> set Describe"
  "distinct [linesRead, matchedLines, pendingDesc, redisCounter, redisUpDesc, redisScrapeErrs]"
  "desc_arity linesRead = 0" "desc_arity redisUpDesc = 0" "desc_arity redisScrapeErrs = 0"
  "desc_arity matchedLines = 1" "desc_arity pendingDesc = 1" "desc_arity redisCounter = 1"
  by (simp add: Describe_def, code_simp+)

lemma collectCounter_facts:
  assumes "counter_ok uc cnt"
  shows "well_formed (collectCounter cnt)" "sample_desc ` set (collectCounter cnt) \<subseteq> {linesRead, matchedLines, pendingDesc}"
proof -
  have split: "collectCounter cnt = [Sample linesRead CounterValue (F64 (sint (Lines cnt))) []] @
      per_action matchedLines CounterValue (Matched cnt) @ per_action pendingDesc GaugeValue (PendingByAction cnt)"
    by (simp add: collectCounter_def)
  show "sample_desc ` set (collectCounter cnt) \<subseteq> {linesRead, matchedLines, pendingDesc}"
    by (auto simp: collectCounter_def per_action_def)
  show "well_formed (collectCounter cnt)"
    unfolding split using gomap_ok_snapshots [OF assms] desc_facts
    by (intro well_formed_append well_formed_single well_formed_per_action) (auto simp: per_action_def)
qed

lemma collectRedis_facts:
  assumes "env_good (cl, view)" "collectRedis cl st w c = (w', c', err, ss)"
  shows "well_formed ss" "sample_desc ` set ss \<subseteq> {redisUpDesc, redisCounter, redisScrapeErrs}"
proof -
  obtain out where r: "Counters cl st w (cfg_actions (co_cfg c)) = (w', out, err)"
    and ss: "ss = [Sample redisUpDesc GaugeValue (boolValue (\<not> IsUnavailable err)) []] @
       per_action redisCounter GaugeValue out @ [Sample redisScrapeErrs CounterValue (F64 (uint (co_redisErrors c'))) []]"
    using assms(2) by (auto simp: collectRedis_def Let_def split: prod.split_asm)
  from r have "Counters (fst (cl, view)) st w (cfg_actions (co_cfg c)) = (w', out, err)" by simp
  then have ok: "gomap_ok out" by (rule rd.keys_once [OF assms(1)])
  show "sample_desc ` set ss \<subseteq> {redisUpDesc, redisCounter, redisScrapeErrs}"
    by (auto simp: ss per_action_def)
  show "well_formed ss"
    unfolding ss using ok desc_facts
    by (intro well_formed_append well_formed_single well_formed_per_action) (auto simp: per_action_def)
qed

lemma process_descs: "sample_desc ` set (collectProcess w c @ collectConfig host cfg) = set (take 10 Describe)"
  by (simp add: collectProcess_def collectConfig_def Describe_def)

lemma process_disjoint:
  "set (take 10 Describe) \<inter> {linesRead, matchedLines, pendingDesc, redisUpDesc, redisCounter, redisScrapeErrs} = {}"
  by code_simp

text \<open>
  C23. Every scrape is one the registry accepts: each sample belongs to a described metric and carries
  exactly the labels of its descriptor, and no metric appears twice, whatever Redis holds or answers.
\<close>

theorem scrape_is_well_formed:
  assumes "redis_contract cl view" "counter_ok uc cnt" "Collect cl st cnt w c = (w', c', err, samples)"
  shows "(\<forall>s\<in>set samples. sample_desc s \<in> set Describe \<and> length (sample_labels s) = desc_arity (sample_desc s)) \<and>
    distinct (map (\<lambda>s. (sample_desc s, sample_labels s)) samples)"
proof -
  obtain redis where r: "collectRedis cl st w c = (w', c', err, redis)"
    and s: "samples = (collectProcess w c @ collectConfig (s_host st) (co_cfg c)) @ collectCounter cnt @ redis"
    using assms(3) by (auto simp: Collect_def split: prod.split_asm)
  have "env_good (cl, view)" using assms(1) by (simp add: env_good_def)
  note rf = collectRedis_facts [OF this r] and cf = collectCounter_facts [OF assms(2)]
  have "well_formed (collectCounter cnt @ redis)"
  proof (intro well_formed_append)
    have "{linesRead, matchedLines, pendingDesc} \<inter> {redisUpDesc, redisCounter, redisScrapeErrs} = {}"
      using desc_facts(2) by auto
    with cf(2) rf(2) show "sample_desc ` set (collectCounter cnt) \<inter> sample_desc ` set redis = {}" by blast
  qed (fact cf rf)+
  then have "well_formed samples"
    unfolding s
  proof (rule well_formed_append [OF collectConfig_well_formed])
    have "sample_desc ` set (collectCounter cnt @ redis) \<subseteq>
        {linesRead, matchedLines, pendingDesc, redisUpDesc, redisCounter, redisScrapeErrs}"
      using rf(2) cf(2) by (simp only: set_append image_Un) blast
    then show "sample_desc ` set (collectProcess w c @ collectConfig (s_host st) (co_cfg c)) \<inter>
        sample_desc ` set (collectCounter cnt @ redis) = {}"
      using process_disjoint unfolding process_descs by blast
  qed
  then show ?thesis unfolding well_formed_def .
qed

definition scraped_counter :: counter where
  "scraped_counter = fst (ProcessLine ascii_tables ''aab'' (Counter_New ascii_tables [''a'', ''b''] True))"

definition scraper :: "server collector" where
  "scraper = NewCollector (\<lambda>w. noon) \<lparr>sv_db = Map.empty, sv_faults = []\<rparr> (Default\<lparr>cfg_actions := [''a'', ''b'']\<rparr>)
     \<lparr>opt_start = noon, opt_now = None, opt_timeout = 0, opt_version = []\<rparr>"

lemma scrape_is_well_formed_witness:
  "\<exists>w' c' err samples. Collect server_client web_store scraped_counter \<lparr>sv_db = Map.empty, sv_faults = [Lost]\<rparr> scraper =
     (w', c', err, samples) \<and> length samples = 17 \<and> distinct (map (\<lambda>s. (sample_desc s, sample_labels s)) samples)"
proof -
  let ?w = "\<lparr>sv_db = Map.empty, sv_faults = [Lost]\<rparr>"
  obtain w' c' err samples where c: "Collect server_client web_store scraped_counter ?w scraper = (w', c', err, samples)"
    by (metis prod_cases4)
  have "case Collect server_client web_store scraped_counter ?w scraper of (w', c', err, samples) \<Rightarrow> length samples = 17"
    by code_simp
  with c have "length samples = 17" by simp
  moreover have "counter_ok ascii_tables scraped_counter" by (simp add: scraped_counter_def counter_ok_ProcessLine)
  ultimately show ?thesis using scrape_is_well_formed [OF server_contract _ c] c by blast
qed

subsection \<open>Redis as data\<close>

lemma sint_inj: "sint (x :: int64) = sint y \<longleftrightarrow> x = y"
  using sint_eq_iff [of x "sint y"] by auto

text \<open>A scrape: what does not come from Redis, and the answer of one call of \<open>Counters\<close>.\<close>

definition redis_samples :: "(string \<times> int64) list \<Rightarrow> goerr option \<Rightarrow> int64 \<Rightarrow> sample list" where
  "redis_samples out err n = Sample redisUpDesc GaugeValue (boolValue (\<not> IsUnavailable err)) [] #
     per_action redisCounter GaugeValue out @ [Sample redisScrapeErrs CounterValue (F64 (uint n)) []]"

lemma Collect_samples:
  assumes "Collect cl st cnt w c = (w', c', err, samples)"
  obtains out where "Counters cl st w (cfg_actions (co_cfg c)) = (w', out, err)"
    "samples = collectProcess w c @ collectConfig (s_host st) (co_cfg c) @ collectCounter cnt @
       redis_samples out err (if err \<noteq> None then co_redisErrors c + 1 else co_redisErrors c)"
proof -
  obtain w1 out e1 where r: "Counters cl st w (cfg_actions (co_cfg c)) = (w1, out, e1)" by (metis prod_cases3)
  let ?c1 = "if e1 \<noteq> None then c\<lparr>co_redisErrors := co_redisErrors c + 1\<rparr> else c"
  have "Collect cl st cnt w c = (w1, ?c1, e1, collectProcess w c @ collectConfig (s_host st) (co_cfg c) @
      collectCounter cnt @ redis_samples out e1 (co_redisErrors ?c1))"
    by (simp only: r Collect_def collectRedis_def fst_conv prod.case Let_def redis_samples_def)
  with assms r show thesis by (intro that [of out]) (auto simp: redis_samples_def)
qed

text \<open>
  C24. What does not come from Redis is exported the same whatever Redis does. When the server answers,
  \<open>redis_up\<close> is 1 and there is one \<open>redis_counter\<close> sample for each configured word with a readable key,
  with its stored value; when it does not, \<open>redis_up\<close> is 0, there is no \<open>redis_counter\<close> sample at all, and
  the error is counted.
\<close>

theorem outage_is_reported_as_data:
  assumes "redis_contract cl view" "Collect cl st cnt w c = (w', c', err, samples)"
  shows "\<exists>redis. samples = collectProcess w c @ collectConfig (s_host st) (co_cfg c) @ collectCounter cnt @ redis \<and>
    (if redis_answers (cl, view) st w (cfg_actions (co_cfg c))
     then Sample redisUpDesc GaugeValue (F64 1) [] \<in> set redis \<and>
       (\<forall>a n. Sample redisCounter GaugeValue (F64 (sint n)) [a] \<in> set redis \<longleftrightarrow>
          a \<in> set (cfg_actions (co_cfg c)) \<and> readable (s_host st) (view w) a = Some n)
     else redis = [Sample redisUpDesc GaugeValue (F64 (if IsUnavailable err then 0 else 1)) [],
                   Sample redisScrapeErrs CounterValue (F64 (uint (co_redisErrors c + 1))) []] \<and> err \<noteq> None)"
proof -
  obtain out where r: "Counters (fst (cl, view)) st w (cfg_actions (co_cfg c)) = (w', out, err)"
    and s: "samples = collectProcess w c @ collectConfig (s_host st) (co_cfg c) @ collectCounter cnt @
       redis_samples out err (if err \<noteq> None then co_redisErrors c + 1 else co_redisErrors c)" (is "_ = _ @ _ @ _ @ ?redis")
    using Collect_samples [OF assms(2)] by auto
  have good: "env_good (cl, view)" using assms(1) by (simp add: env_good_def)
  have "if redis_answers (cl, view) st w (cfg_actions (co_cfg c))
     then Sample redisUpDesc GaugeValue (F64 1) [] \<in> set (?redis) \<and>
       (\<forall>a n. Sample redisCounter GaugeValue (F64 (sint n)) [a] \<in> set (?redis) \<longleftrightarrow>
          a \<in> set (cfg_actions (co_cfg c)) \<and> readable (s_host st) (view w) a = Some n)
     else ?redis = [Sample redisUpDesc GaugeValue (F64 (if IsUnavailable err then 0 else 1)) [],
                   Sample redisScrapeErrs CounterValue (F64 (uint (co_redisErrors c + 1))) []] \<and> err \<noteq> None"
  proof (cases "redis_answers (cl, view) st w (cfg_actions (co_cfg c))")
    case False
    from rd.unanswered [OF good r False] False show ?thesis
      by (auto simp: redis_samples_def boolValue_def per_action_def)
  next
    case True
    have m: "map_of out a = (if a \<in> set (cfg_actions (co_cfg c)) then readable (s_host st) (view w) a else None)" for a
      using rd.answered [OF good r True, of a] rd.nothing_else [OF good r, of a] by (simp add: env_stored_def)
    have o: "(a, n) \<in> set out \<longleftrightarrow> map_of out a = Some n" for a n
      using rd.keys_once [OF good r] by (simp add: gomap_ok_def)
    have p: "Sample redisCounter GaugeValue (F64 (sint n)) [a] \<in> set (per_action redisCounter GaugeValue out) \<longleftrightarrow>
        (a, n) \<in> set out" for a n
      by (auto simp: per_action_def image_iff sint_inj intro: bexI [of _ "(a, n)"])
    have ne: "redisCounter \<noteq> redisUpDesc" "redisCounter \<noteq> redisScrapeErrs" using desc_facts(2) by auto
    have "Sample redisCounter GaugeValue (F64 (sint n)) [a] \<in> set (?redis) \<longleftrightarrow>
        a \<in> set (cfg_actions (co_cfg c)) \<and> readable (s_host st) (view w) a = Some n" for a n
      using p [of n a] m [of a] by (simp add: redis_samples_def ne o split: if_split_asm)
    moreover have "Sample redisUpDesc GaugeValue (F64 1) [] \<in> set (?redis)"
      using rd.malformed_is_up [OF good r True] by (simp add: redis_samples_def boolValue_def)
    ultimately show ?thesis using True by simp
  qed
  with s show ?thesis by blast
qed

lemma outage_is_reported_as_data_witness:
  "\<exists>w' c' err samples redis. Collect server_client web_store scraped_counter \<lparr>sv_db = Map.empty, sv_faults = [Lost]\<rparr> scraper =
     (w', c', err, samples @ redis) \<and>
   redis = [Sample redisUpDesc GaugeValue (F64 0) [], Sample redisScrapeErrs CounterValue (F64 1) []]"
proof -
  let ?w = "\<lparr>sv_db = Map.empty, sv_faults = [Lost]\<rparr>"
  obtain w' c' err samples where c: "Collect server_client web_store scraped_counter ?w scraper = (w', c', err, samples)"
    by (metis prod_cases4)
  have "case Collect server_client web_store scraped_counter ?w scraper of (w', c', err, samples) \<Rightarrow> IsUnavailable err"
    by code_simp
  with c have "IsUnavailable err" by simp
  moreover have "\<not> redis_answers (server_client, sv_db) web_store ?w (cfg_actions (co_cfg scraper))" by code_simp
  moreover have "uint (co_redisErrors scraper + 1) = 1" by code_simp
  ultimately obtain redis where "samples = collectProcess ?w scraper @ collectConfig (s_host web_store) (co_cfg scraper) @
      collectCounter scraped_counter @ redis"
    "redis = [Sample redisUpDesc GaugeValue (F64 0) [], Sample redisScrapeErrs CounterValue (F64 1) []]"
    using outage_is_reported_as_data [OF server_contract c] by auto
  then show ?thesis using c by (metis append.assoc)
qed

subsection \<open>The password\<close>

text \<open>
  C25. The exporter never gives the Redis password away: two configurations that differ in nothing but a
  non-empty password yield the same scrape and the same status page.
\<close>

theorem password_does_not_show:
  "snd (snd (snd (Collect cl st cnt w (c\<lparr>co_cfg := cfg\<lparr>cfg_redis := r\<lparr>r_password := x # p\<rparr>\<rparr>\<rparr>)))) =
     snd (snd (snd (Collect cl st cnt w (c\<lparr>co_cfg := cfg\<lparr>cfg_redis := r\<lparr>r_password := y # q\<rparr>\<rparr>\<rparr>)))) \<and>
   snd (status uc cl st cnt w (c\<lparr>co_cfg := cfg\<lparr>cfg_redis := r\<lparr>r_password := x # p\<rparr>\<rparr>\<rparr>)) =
     snd (status uc cl st cnt w (c\<lparr>co_cfg := cfg\<lparr>cfg_redis := r\<lparr>r_password := y # q\<rparr>\<rparr>\<rparr>))"
  by (simp add: Collect_def collectRedis_def collectProcess_def collectConfig_def Addr_def status_def config_rows_def
      Let_def split: prod.split)

subsection \<open>The status page\<close>

text \<open>
  C26. The status page has one row for each configured word, in their order, with the totals of the
  running process and, when Redis answers, its stored value; a word shows a dash for a key that does not
  exist, but also for one that is unreadable and for every word while Redis does not answer.
\<close>

theorem status_rows_are_the_counters:
  assumes "redis_contract cl view" "counter_ok uc cnt" "cfg_actions (co_cfg c) = c_actions cnt"
    "status uc cl st cnt w c = (w', page)"
  shows "map row_action (sd_words page) = c_actions cnt \<and>
    (\<forall>row\<in>set (sd_words page). row_matched row = mget 0 (matched cnt) (row_action row) \<and>
       row_pending row = buffered cnt (row_action row) \<and>
       row_redis row = (case readable (s_host st) (view w) (row_action row) of
         Some n \<Rightarrow> if redis_answers (cl, view) st w (c_actions cnt) then itoa (sint n) else missing
       | None \<Rightarrow> missing))"
proof -
  obtain w1 out err where r: "Counters (fst (cl, view)) st w (cfg_actions (co_cfg c)) = (w1, out, err)"
    by (metis prod_cases3)
  with assms(4) have words: "sd_words page = map (word_row_of cnt out) (c_actions cnt)"
    by (auto simp: status_def Let_def assms(3))
  have good: "env_good (cl, view)" using assms(1) by (simp add: env_good_def)
  have redis: "map_of out a = (if redis_answers (cl, view) st w (c_actions cnt) then readable (s_host st) (view w) a else None)"
    if "a \<in> set (c_actions cnt)" for a
    using rd.answered [OF good r, of a] rd.unanswered [OF good r] that
    by (simp add: env_stored_def assms(3))
  have "mget 0 (Matched cnt) a = mget 0 (matched cnt) a" "mget 0 (PendingByAction cnt) a = buffered cnt a"
    if "a \<in> set (c_actions cnt)" for a
    using that assms(2) by (auto simp: Matched_def PendingByAction_def buffered_def gomap_simps counter_ok_def mget_notin)
  then show ?thesis
    by (auto simp: words word_row_of_def comp_def redis split: option.split)
qed

definition foreign_value :: server where
  "foreign_value = \<lparr>sv_db = Map.empty(CounterKey ''web01'' ''a'' \<mapsto> set_entry ''x'' 0, CounterKey ''web01'' ''b'' \<mapsto> set_entry ''3'' 0),
     sv_faults = []\<rparr>"

lemma status_rows_are_the_counters_witness:
  "map row_redis (sd_words (snd (status ascii_tables server_client web_store scraped_counter foreign_value scraper))) =
     [missing, ''3''] \<and>
   sd_redis_note (snd (status ascii_tables server_client web_store scraped_counter foreign_value scraper)) =
     ''read counters of a: counter value is not an integer (shown as unreadable)''"
proof -
  obtain w' page where s: "status ascii_tables server_client web_store scraped_counter foreign_value scraper = (w', page)"
    by fastforce
  have ok: "counter_ok ascii_tables scraped_counter" by (simp add: scraped_counter_def counter_ok_ProcessLine)
  have acts: "cfg_actions (co_cfg scraper) = c_actions scraped_counter" by code_simp
  have as: "c_actions scraped_counter = [''a'', ''b'']" by code_simp
  note rows = status_rows_are_the_counters [OF server_contract ok acts s, unfolded as]
  have "readable (s_host web_store) (sv_db foreign_value) ''a'' = None"
    "readable (s_host web_store) (sv_db foreign_value) ''b'' = Some 3"
    "redis_answers (server_client, sv_db) web_store foreign_value [''a'', ''b'']"
    "itoa (sint (3 :: int64)) = ''3''" by code_simp+
  moreover obtain r1 r2 where "sd_words page = [r1, r2]" "row_action r1 = ''a''" "row_action r2 = ''b''"
    using rows by (auto simp: map_eq_Cons_conv)
  ultimately have "map row_redis (sd_words page) = [missing, ''3'']" using rows by simp
  moreover have "sd_redis_note (snd (status ascii_tables server_client web_store scraped_counter foreign_value scraper)) =
     ''read counters of a: counter value is not an integer (shown as unreadable)''" by code_simp
  ultimately show ?thesis using s by simp
qed

end
