(* ===== verification/Status_Page_Props.thy ===== *)
theory Status_Page_Props
  imports Status_Page Metrics_Props
begin

section \<open>Properties of the status page\<close>

text \<open>
  The markup of the page is the template's, whatever host name, words, paths and values it shows, and
  what a client receives is a prefix of the page.
\<close>

lemma statusTemplate_shape:
  assumes "length (sd_words d) = length (sd_words d')" "length (sd_config d) = length (sd_config d')"
    "sd_redis_up d = sd_redis_up d'" "sd_redis_note d = [] \<longleftrightarrow> sd_redis_note d' = []"
  shows "map chunk_shape (statusTemplate d) = map chunk_shape (statusTemplate d')"
proof -
  have w: "map (\<lambda>r. map chunk_shape (word_tr r)) (sd_words d) = map (\<lambda>r. map chunk_shape (word_tr r)) (sd_words d')"
    using assms(1) shape_word_tr by (rule map_same_length)
  have c: "map (\<lambda>kv. map chunk_shape (config_tr kv)) (sd_config d) = map (\<lambda>kv. map chunk_shape (config_tr kv)) (sd_config d')"
    using assms(2) shape_config_tr by (rule map_same_length)
  have "map chunk_shape (status_line d) = map chunk_shape (status_line d')"
    using assms(3,4) by (simp add: status_line_def)
  moreover have "map chunk_shape (words_table d) = map chunk_shape (words_table d')"
    by (simp add: words_table_def shape_rows w)
  moreover have "map chunk_shape (config_table d) = map chunk_shape (config_table d')"
    by (simp add: config_table_def shape_rows c)
  ultimately show ?thesis by (simp add: statusTemplate_def)
qed

lemma status_lengths:
  "length (sd_words (snd (status uc cl st cnt w c))) = length (cfg_actions (co_cfg c))"
  "length (sd_config (snd (status uc cl st cnt w c))) = 11"
  by (simp_all add: status_def config_rows_def Let_def split: prod.split)

text \<open>
  C28. Nothing the page shows can become markup: two pages for the same number of words, with the same
  verdict on Redis, hold exactly the same angle brackets and quotes in the same order, whatever the host
  name, the words, the paths and the error text are. The whole page is written and nothing is logged.
\<close>

theorem status_page_holds_no_foreign_markup:
  assumes "statusHandler uc cl st cnt (\<lambda>v s. (v @ s, None)) w [] c = (w1, header, page, logged)"
    "statusHandler uc' cl' st' cnt' (\<lambda>v s. (v @ s, None)) w' [] c' = (w1', header', page', logged')"
    "length (cfg_actions (co_cfg c)) = length (cfg_actions (co_cfg c'))"
    "sd_redis_up (snd (status uc cl st cnt w c)) = sd_redis_up (snd (status uc' cl' st' cnt' w' c'))"
    "sd_redis_note (snd (status uc cl st cnt w c)) = [] \<longleftrightarrow> sd_redis_note (snd (status uc' cl' st' cnt' w' c')) = []"
  shows "tags page = tags page' \<and> header = header' \<and> logged = []"
proof -
  let ?d = "snd (status uc cl st cnt w c)" and ?d' = "snd (status uc' cl' st' cnt' w' c')"
  have p: "page = page_bytes (statusTemplate ?d)" "header = (''Content-Type'', ''text/html; charset=utf-8'')" "logged = []"
    using assms(1) by (auto simp: statusHandler_def Execute_all split: prod.split_asm)
  have p': "page' = page_bytes (statusTemplate ?d')" "header' = (''Content-Type'', ''text/html; charset=utf-8'')"
    using assms(2) by (auto simp: statusHandler_def Execute_all split: prod.split_asm)
  have "map chunk_shape (statusTemplate ?d) = map chunk_shape (statusTemplate ?d')"
    using assms(3-5) by (intro statusTemplate_shape) (simp_all add: status_lengths)
  then have "tags page = tags page'" unfolding p p' by (metis tags_shape)
  with p p' show ?thesis by simp
qed

text \<open>A host name and a word full of markup.\<close>

definition hostile_store :: store where
  "hostile_store = web_store\<lparr>s_host := ''</title><script>''\<rparr>"

definition hostile_counter :: counter where
  "hostile_counter = Counter_New ascii_tables [''<b>'', ''\"''] True"

definition hostile_scraper :: "server collector" where
  "hostile_scraper = scraper\<lparr>co_cfg := (co_cfg scraper)\<lparr>cfg_actions := [''<b>'', ''\"'']\<rparr>\<rparr>"

lemma status_page_holds_no_foreign_markup_witness:
  "let w = \<lparr>sv_db = Map.empty, sv_faults = []\<rparr>;
       body = \<lambda>(_, _, page, _). page
   in tags (body (statusHandler ascii_tables server_client hostile_store hostile_counter (\<lambda>v s. (v @ s, None)) w [] hostile_scraper)) =
      tags (body (statusHandler ascii_tables server_client web_store scraped_counter (\<lambda>v s. (v @ s, None)) w [] scraper))"
proof -
  let ?w = "\<lparr>sv_db = Map.empty, sv_faults = []\<rparr> :: server"
  obtain w1 h1 p1 l1 where 1: "statusHandler ascii_tables server_client hostile_store hostile_counter (\<lambda>v s. (v @ s, None)) ?w []
      hostile_scraper = (w1, h1, p1, l1)" by (metis prod_cases4)
  obtain w2 h2 p2 l2 where 2: "statusHandler ascii_tables server_client web_store scraped_counter (\<lambda>v s. (v @ s, None)) ?w []
      scraper = (w2, h2, p2, l2)" by (metis prod_cases4)
  have "length (cfg_actions (co_cfg hostile_scraper)) = length (cfg_actions (co_cfg scraper))" by code_simp
  moreover have "sd_redis_up (snd (status ascii_tables server_client hostile_store hostile_counter ?w hostile_scraper))"
    "sd_redis_up (snd (status ascii_tables server_client web_store scraped_counter ?w scraper))"
    "sd_redis_note (snd (status ascii_tables server_client hostile_store hostile_counter ?w hostile_scraper)) = []"
    "sd_redis_note (snd (status ascii_tables server_client web_store scraped_counter ?w scraper)) = []"
    by code_simp+
  ultimately show ?thesis
    using status_page_holds_no_foreign_markup [OF 1 2] by (simp add: 1 2)
qed

text \<open>The words and the host name are on the page, escaped: a fragment of the hostile page.\<close>

lemma hostile_word_row:
  "page_bytes (word_tr \<lparr>row_action = ''<b>'', row_matched = 2, row_pending = 0, row_redis = ''7''\<rparr>) =
     text_lines [''<tr><td>&lt;b&gt;</td><td>2</td><td>0</td><td>7</td></tr>'', ''  '']"
  by code_simp

text \<open>
  Whatever the connection does, the client receives a prefix of the page, and a warning is logged if it
  is not the whole page.
\<close>

lemma client_receives_a_prefix:
  assumes "\<And>v s v' e. write v s = (v', e) \<Longrightarrow> \<exists>t. prefix t s \<and> out v' = out v @ t \<and> (e = None \<longrightarrow> t = s)"
    "statusHandler uc cl st cnt write w v c = (w', header, v', logged)"
  shows "\<exists>t. prefix t (page_bytes (statusTemplate (snd (status uc cl st cnt w c)))) \<and> out v' = out v @ t \<and>
    (logged = [] \<longrightarrow> t = page_bytes (statusTemplate (snd (status uc cl st cnt w c))))"
proof -
  obtain e where x: "Execute write v (statusTemplate (snd (status uc cl st cnt w c))) = (v', e)"
    and l: "logged = [] \<longleftrightarrow> e = None"
    using assms(2) by (auto simp: statusHandler_def split: prod.split_asm option.split_asm)
  from Execute_prefix [where out = out, OF assms(1) x] l show ?thesis by blast
qed

end
