(* ===== verification/Lockfile.thy ===== *)
theory Lockfile
  imports Os
begin

section \<open>The lock file (internal/lockfile)\<close>

text \<open>
  \<open>lock\<close> is the struct \<open>Lock\<close>; a \<open>*Lock\<close> is an option, a nil \<open>f\<close> is \<open>None\<close>. \<open>Acquire\<close> and
  \<open>Release\<close> act on the world of \<open>Os\<close>.

  The contract of \<open>flock(2)\<close> is \<open>flock_contract\<close>, over two views of the world: \<open>file_of\<close>, the file an
  open descriptor leads to, and \<open>holder\<close>, the descriptor that holds the lock of a file. \<open>ino\<close> is the file
  a path leads to; it is the same throughout, because nothing removes or replaces the lock file. The
  locale \<open>exclusive_lock\<close> is what the command line relies on, and \<open>lock_step\<close> lets any number of
  instances acquire, release and die in any order.
\<close>

subsection \<open>Operations\<close>

record lock =
  lk_path :: string
  lk_f :: "fd option"

definition Acquire :: "'w os \<Rightarrow> 'w \<Rightarrow> string \<Rightarrow> 'w \<times> (goerr + lock)" where
  "Acquire os w path =
     (case os_mkdir_all os w (Dir path) of
        (w1, Some err) \<Rightarrow> (w1, Inl (Errorf ''create lock directory for %s: %w'' [AS path] (Some err)))
      | (w1, None) \<Rightarrow>
          (case os_open_rdwr os w1 path of
             (w2, Inl err) \<Rightarrow> (w2, Inl (Errorf ''open lock file %s: %w'' [AS path] (Some err)))
           | (w2, Inr f) \<Rightarrow>
               (case os_flock os w2 f of
                  (w3, Some err) \<Rightarrow>
                    (fst (os_close os w3 f),
                     Inl (if errors_Is err EWOULDBLOCK
                          then Errorf ''%s: %w'' [AS path] (Some (Sentinel ErrLocked))
                          else Errorf ''flock %s: %w'' [AS path] (Some err)))
                | (w3, None) \<Rightarrow>
                    (case os_truncate os w3 f of
                       (w4, Some err) \<Rightarrow> (w4, Inr \<lparr>lk_path = path, lk_f = Some f\<rparr>)
                     | (w4, None) \<Rightarrow>
                         (fst (os_write_at os w4 f (itoa (os_getpid os w4) @ [CHR 0x0A]) 0),
                          Inr \<lparr>lk_path = path, lk_f = Some f\<rparr>)))))"

definition Release :: "'w os \<Rightarrow> 'w \<Rightarrow> lock option \<Rightarrow> 'w \<times> lock option \<times> goerr option" where
  "Release os w l =
     (case l of
        None \<Rightarrow> (w, l, None)
      | Some lk \<Rightarrow>
          (case lk_f lk of
             None \<Rightarrow> (w, l, None)
           | Some f \<Rightarrow>
               (case os_funlock os w f of (w1, err) \<Rightarrow>
                (case os_close os w1 f of (w2, cerr) \<Rightarrow>
                  (w2, Some (lk\<lparr>lk_f := None\<rparr>), if err = None then cerr else err)))))"

subsection \<open>The contract of flock\<close>

record 'w lock_view =
  lv_file_of :: "'w \<Rightarrow> fd \<Rightarrow> nat option"
  lv_holder :: "'w \<Rightarrow> nat \<Rightarrow> fd option"
  lv_ino :: "string \<Rightarrow> nat"

definition same_locks :: "'w lock_view \<Rightarrow> 'w \<Rightarrow> 'w \<Rightarrow> bool" where
  "same_locks lv w w' \<longleftrightarrow> lv_file_of lv w' = lv_file_of lv w \<and> lv_holder lv w' = lv_holder lv w"

text \<open>A descriptor that is closed holds no lock, and a lock is held through an open descriptor of the file.\<close>

definition view_ok :: "'w lock_view \<Rightarrow> 'w \<Rightarrow> bool" where
  "view_ok lv w \<longleftrightarrow> (\<forall>i f. lv_holder lv w i = Some f \<longrightarrow> lv_file_of lv w f = Some i)"

text \<open>
  An open returns a new descriptor of the file; an exclusive non-blocking lock is granted when no other
  descriptor holds it, is refused with \<open>EWOULDBLOCK\<close> only when one does, and leaves everything alone
  when it fails; closing the descriptor drops its lock, also when the close reports an error. The
  errors of the system are not the package's own \<open>ErrLocked\<close>.
\<close>

definition foreign_err :: "goerr option \<Rightarrow> bool" where
  "foreign_err r \<longleftrightarrow> (case r of None \<Rightarrow> True | Some e \<Rightarrow> \<not> errors_Is e ErrLocked)"

definition dropped :: "'w lock_view \<Rightarrow> fd \<Rightarrow> 'w \<Rightarrow> 'w \<Rightarrow> bool" where
  "dropped lv f w w' \<longleftrightarrow>
     (\<forall>i. lv_holder lv w' i = (if lv_holder lv w i = Some f then None else lv_holder lv w i))"

definition open_outcome :: "'w lock_view \<Rightarrow> string \<Rightarrow> 'w \<Rightarrow> 'w \<Rightarrow> goerr + fd \<Rightarrow> bool" where
  "open_outcome lv p w w' r = (case r of
       Inl e \<Rightarrow> same_locks lv w w' \<and> \<not> errors_Is e ErrLocked
     | Inr f \<Rightarrow> lv_file_of lv w f = None \<and> lv_file_of lv w' = (lv_file_of lv w)(f \<mapsto> lv_ino lv p) \<and>
         lv_holder lv w' = lv_holder lv w)"

definition flock_outcome :: "'w lock_view \<Rightarrow> fd \<Rightarrow> nat \<Rightarrow> 'w \<Rightarrow> 'w \<Rightarrow> goerr option \<Rightarrow> bool" where
  "flock_outcome lv f i w w' r = (case r of
       None \<Rightarrow> lv_file_of lv w' = lv_file_of lv w \<and> lv_holder lv w i \<in> {None, Some f} \<and>
         lv_holder lv w' = (lv_holder lv w)(i \<mapsto> f)
     | Some e \<Rightarrow> same_locks lv w w' \<and> \<not> errors_Is e ErrLocked \<and>
         (errors_Is e EWOULDBLOCK \<longrightarrow> (\<exists>g. lv_holder lv w i = Some g \<and> g \<noteq> f)))"

definition funlock_outcome :: "'w lock_view \<Rightarrow> fd \<Rightarrow> 'w \<Rightarrow> 'w \<Rightarrow> goerr option \<Rightarrow> bool" where
  "funlock_outcome lv f w w' r = (case r of
       None \<Rightarrow> lv_file_of lv w' = lv_file_of lv w \<and> dropped lv f w w'
     | Some e \<Rightarrow> same_locks lv w w')"

definition close_outcome :: "'w lock_view \<Rightarrow> fd \<Rightarrow> 'w \<Rightarrow> 'w \<Rightarrow> bool" where
  "close_outcome lv f w w' \<longleftrightarrow> lv_file_of lv w' = (lv_file_of lv w)(f := None) \<and> dropped lv f w w'"

definition flock_contract :: "'w os \<Rightarrow> 'w lock_view \<Rightarrow> bool" where
  "flock_contract os lv \<longleftrightarrow>
     (\<forall>w. view_ok lv w) \<and>
     (\<forall>w p w' r. os_mkdir_all os w p = (w', r) \<longrightarrow> same_locks lv w w' \<and> foreign_err r) \<and>
     (\<forall>w p w' r. os_open_rdwr os w p = (w', r) \<longrightarrow> open_outcome lv p w w' r) \<and>
     (\<forall>w f i w' r. lv_file_of lv w f = Some i \<longrightarrow> os_flock os w f = (w', r) \<longrightarrow> flock_outcome lv f i w w' r) \<and>
     (\<forall>w f w' r. os_funlock os w f = (w', r) \<longrightarrow> funlock_outcome lv f w w' r) \<and>
     (\<forall>w f w' r. os_close os w f = (w', r) \<longrightarrow> close_outcome lv f w w') \<and>
     (\<forall>w f w' r. os_truncate os w f = (w', r) \<longrightarrow> same_locks lv w w') \<and>
     (\<forall>w f s n w' r. os_write_at os w f s n = (w', r) \<longrightarrow> same_locks lv w w')"

lemma same_locks_refl [simp]: "same_locks lv w w"
  by (simp add: same_locks_def)

lemma same_locks_trans: "same_locks lv w1 w2 \<Longrightarrow> same_locks lv w2 w3 \<Longrightarrow> same_locks lv w1 w3"
  by (simp add: same_locks_def)

lemma flock_contractD:
  assumes "flock_contract os lv"
  shows view_okD: "view_ok lv w"
    and mkdirD: "os_mkdir_all os w p = (w', r) \<Longrightarrow> same_locks lv w w' \<and> foreign_err r"
    and openD: "os_open_rdwr os w p = (w', ro) \<Longrightarrow> open_outcome lv p w w' ro"
    and flockD: "lv_file_of lv w f = Some i \<Longrightarrow> os_flock os w f = (w', r) \<Longrightarrow> flock_outcome lv f i w w' r"
    and funlockD: "os_funlock os w f = (w', r) \<Longrightarrow> funlock_outcome lv f w w' r"
    and closeD: "os_close os w f = (w', r) \<Longrightarrow> close_outcome lv f w w'"
    and truncateD: "os_truncate os w f = (w', r) \<Longrightarrow> same_locks lv w w'"
    and write_atD: "os_write_at os w f s n = (w', r) \<Longrightarrow> same_locks lv w w'"
  using assms unfolding flock_contract_def by (elim conjE, simp; fail | elim conjE, blast)+

subsection \<open>The contract of the lock\<close>

text \<open>
  What a user of the package relies on. \<open>holder e w i\<close> is the handle that holds the lock of the file
  \<open>i\<close>; \<open>handle l\<close> is the one a lock object carries, none once it is released.
\<close>

locale exclusive_lock =
  fixes good :: "'e \<Rightarrow> bool"
    and holder :: "'e \<Rightarrow> 'w \<Rightarrow> 'i \<Rightarrow> 'h option"
    and target :: "'e \<Rightarrow> 'l \<Rightarrow> 'i"
    and handle :: "'l \<Rightarrow> 'h option"
    and acquire :: "'e \<Rightarrow> 'w \<Rightarrow> 'p \<Rightarrow> 'w \<times> (goerr + 'l)"
    and release :: "'e \<Rightarrow> 'w \<Rightarrow> 'l option \<Rightarrow> 'w \<times> 'l option \<times> goerr option"
  assumes acquire_ok: "good e \<Longrightarrow> acquire e w p = (w', Inr l) \<Longrightarrow>
      \<exists>h. handle l = Some h \<and> (\<forall>i. holder e w i \<noteq> Some h) \<and> holder e w (target e l) = None \<and>
          holder e w' = (holder e w)(target e l \<mapsto> h)"
    and acquire_err: "good e \<Longrightarrow> acquire e w p = (w', Inl err) \<Longrightarrow> holder e w' = holder e w"
    and release_none: "release e w None = (w', l', r) \<Longrightarrow> w' = w \<and> l' = None \<and> r = None"
    and release_some: "good e \<Longrightarrow> release e w (Some l) = (w', l', r) \<Longrightarrow>
      (\<exists>k. l' = Some k \<and> handle k = None) \<and>
      (\<forall>i. holder e w' i = (if handle l \<noteq> None \<and> holder e w i = handle l then None else holder e w i))"
begin

text \<open>Every unreleased lock object holds its file, and no two owners share a handle.\<close>

definition owned :: "'e \<Rightarrow> 'w \<Rightarrow> ('n \<Rightarrow> 'l option) \<Rightarrow> bool" where
  "owned e w own \<longleftrightarrow>
     (\<forall>n l h. own n = Some l \<longrightarrow> handle l = Some h \<longrightarrow> holder e w (target e l) = Some h) \<and>
     (\<forall>m n l k h. own m = Some l \<longrightarrow> own n = Some k \<longrightarrow> handle l = Some h \<longrightarrow> handle k = Some h \<longrightarrow> m = n)"

lemma ownedD: "owned e w own \<Longrightarrow> own n = Some l \<Longrightarrow> handle l = Some h \<Longrightarrow> holder e w (target e l) = Some h"
  unfolding owned_def by blast

lemma owned_same: "owned e w own \<Longrightarrow> own m = Some l \<Longrightarrow> own n = Some k \<Longrightarrow> handle l = Some h \<Longrightarrow>
    handle k = Some h \<Longrightarrow> m = n"
  unfolding owned_def by blast

lemma owned_excludes:
  assumes "owned e w own" "own m = Some l" "own n = Some k" "handle l \<noteq> None" "handle k \<noteq> None"
    "target e l = target e k"
  shows "m = n"
  using assms ownedD [OF assms(1,2)] ownedD [OF assms(1,3)] owned_same [OF assms(1-3)] by fastforce

lemma owned_empty: "owned e w (\<lambda>n. None)"
  by (simp add: owned_def)

lemma owned_acquire:
  assumes "good e" "owned e w own" "acquire e w p = (w', Inr l)"
  shows "owned e w' (own(n \<mapsto> l))"
proof -
  obtain h where h: "handle l = Some h" "\<And>i. holder e w i \<noteq> Some h" "holder e w (target e l) = None"
    "holder e w' = (holder e w)(target e l \<mapsto> h)" using acquire_ok [OF assms(1,3)] by blast
  have old: "holder e w (target e k) = Some g" "g \<noteq> h" "target e k \<noteq> target e l"
    if "own m = Some k" "handle k = Some g" for m k g
    using ownedD [OF assms(2) that] h(2,3) by (auto intro: notI)
  show ?thesis
    unfolding owned_def
  proof (intro conjI allI impI)
    fix m k g assume "(own(n \<mapsto> l)) m = Some k" "handle k = Some g"
    then show "holder e w' (target e k) = Some g"
      using h(1,4) old by (cases "m = n") auto
  next
    fix m m' k k' g
    assume "(own(n \<mapsto> l)) m = Some k" "(own(n \<mapsto> l)) m' = Some k'" "handle k = Some g" "handle k' = Some g"
    then show "m = m'"
      using h(1) old(2) owned_same [OF assms(2)] by (cases "m = n"; cases "m' = n") (fastforce)+
  qed
qed

lemma owned_drop:
  assumes "owned e w own" "own n = Some l" "\<And>k. x = Some k \<Longrightarrow> handle k = None"
    "\<And>i. holder e w' i = (if handle l \<noteq> None \<and> holder e w i = handle l then None else holder e w i)"
  shows "owned e w' (own(n := x))"
  unfolding owned_def
proof (intro conjI allI impI)
  fix m k h assume k: "(own(n := x)) m = Some k" "handle k = Some h"
  with assms(3) have m: "m \<noteq> n" "own m = Some k" by (auto split: if_split_asm)
  have "holder e w (target e k) = Some h" by (rule ownedD [OF assms(1) m(2) k(2)])
  moreover have "handle l \<noteq> Some h" using owned_same [OF assms(1) m(2) assms(2) k(2)] m(1) by blast
  ultimately show "holder e w' (target e k) = Some h" by (simp add: assms(4))
next
  fix m m' k k' g
  assume "(own(n := x)) m = Some k" "(own(n := x)) m' = Some k'" "handle k = Some g" "handle k' = Some g"
  then show "m = m'"
    using assms(3) owned_same [OF assms(1)] by (fastforce split: if_split_asm)
qed

lemma owned_release:
  assumes "good e" "owned e w own" "release e w (own n) = (w', l', r)"
  shows "owned e w' (own(n := l'))"
proof (cases "own n")
  case None
  with release_none assms(3) have "w' = w" "l' = None" by metis+
  then have "own(n := l') = own" using None by auto
  with assms(2) \<open>w' = w\<close> show ?thesis by simp
next
  case (Some l)
  with release_some [OF assms(1)] assms(3) show ?thesis
    by (intro owned_drop [OF assms(2) Some]) (metis option.inject)+
qed

end

subsection \<open>The operations keep the contract\<close>

type_synonym 'w lock_env = "'w os \<times> 'w lock_view"

text \<open>One lemma per branch of \<open>Acquire\<close>: granted, refused because another instance runs, failed.\<close>

lemma Acquire_cases:
  assumes "flock_contract os lv" "Acquire os w p = (w', r)"
  obtains (granted) f where "r = Inr \<lparr>lk_path = p, lk_f = Some f\<rparr>" "lv_file_of lv w f = None"
      "lv_file_of lv w' = (lv_file_of lv w)(f \<mapsto> lv_ino lv p)" "lv_holder lv w (lv_ino lv p) = None"
      "lv_holder lv w' = (lv_holder lv w)(lv_ino lv p \<mapsto> f)"
    | (locked) g where "r = Inl (Errorf ''%s: %w'' [AS p] (Some (Sentinel ErrLocked)))"
      "lv_holder lv w (lv_ino lv p) = Some g" "same_locks lv w w'"
    | (failed) err where "r = Inl err" "\<not> errors_Is err ErrLocked" "same_locks lv w w'"
proof -
  obtain w1 r1 where m: "os_mkdir_all os w (Dir p) = (w1, r1)" by fastforce
  note s1 = mkdirD [OF assms(1) m]
  show thesis
  proof (cases r1)
    case (Some e)
    with m s1 assms(2) show thesis by (intro failed) (auto simp: Acquire_def foreign_err_def)
  next
    case None
    obtain w2 r2 where o: "os_open_rdwr os w1 p = (w2, r2)" by fastforce
    note s2 = openD [OF assms(1) o]
    show thesis
    proof (cases r2)
      case (Inl e)
      with m None o s1 s2 assms(2) show thesis
        by (intro failed) (auto simp: Acquire_def open_outcome_def same_locks_def)
    next
      case (Inr f)
      with s1 s2 have new: "lv_file_of lv w f = None" "lv_file_of lv w2 = (lv_file_of lv w)(f \<mapsto> lv_ino lv p)"
        "lv_holder lv w2 = lv_holder lv w" by (simp_all add: open_outcome_def same_locks_def)
      have unheld: "lv_holder lv w i \<noteq> Some f" for i
        using view_okD [OF assms(1), of w] new(1) by (auto simp: view_ok_def)
      obtain w3 r3 where l: "os_flock os w2 f = (w3, r3)" by fastforce
      from new(2) have i: "lv_file_of lv w2 f = Some (lv_ino lv p)" by simp
      note s3 = flockD [OF assms(1) i l]
      show thesis
      proof (cases r3)
        case (Some e)
        obtain w4 ce where c: "os_close os w3 f = (w4, ce)" by fastforce
        from s3 Some new closeD [OF assms(1) c] unheld have "same_locks lv w w4"
          by (auto simp: flock_outcome_def close_outcome_def dropped_def same_locks_def fun_eq_iff)
        moreover have "w' = w4" "r = Inl (if errors_Is e EWOULDBLOCK
            then Errorf ''%s: %w'' [AS p] (Some (Sentinel ErrLocked)) else Errorf ''flock %s: %w'' [AS p] (Some e))"
          using m None o Inr l Some c assms(2) by (auto simp: Acquire_def)
        ultimately show thesis
          using s3 Some new(3) locked failed by (cases "errors_Is e EWOULDBLOCK") (auto simp: flock_outcome_def)
      next
        case None
        obtain w4 r4 where t: "os_truncate os w3 f = (w4, r4)" by fastforce
        obtain w5 r5 where wr: "os_write_at os w4 f (itoa (os_getpid os w4) @ [CHR 0x0A]) 0 = (w5, r5)" by fastforce
        have "same_locks lv w3 w'" "r = Inr \<lparr>lk_path = p, lk_f = Some f\<rparr>"
          using m \<open>r1 = None\<close> o Inr l None t wr assms(2) truncateD [OF assms(1) t] write_atD [OF assms(1) wr]
          by (cases r4; auto simp: Acquire_def intro: same_locks_trans)+
        with s3 None new unheld show thesis
          by (intro granted) (auto simp: flock_outcome_def same_locks_def)
      qed
    qed
  qed
qed

lemma Release_cases:
  assumes "flock_contract os lv" "Release os w (Some l) = (w', l', r)"
  shows "l' = Some (l\<lparr>lk_f := None\<rparr>)"
    "lv_holder lv w' i = (if lk_f l \<noteq> None \<and> lv_holder lv w i = lk_f l then None else lv_holder lv w i)"
    "lv_file_of lv w' g = (if lk_f l = Some g then None else lv_file_of lv w g)"
proof -
  have "l' = Some (l\<lparr>lk_f := None\<rparr>) \<and>
    lv_holder lv w' i = (if lk_f l \<noteq> None \<and> lv_holder lv w i = lk_f l then None else lv_holder lv w i) \<and>
    lv_file_of lv w' g = (if lk_f l = Some g then None else lv_file_of lv w g)"
  proof (cases "lk_f l")
    case None
    with assms(2) show ?thesis by (auto simp: Release_def)
  next
    case (Some f)
    obtain w1 r1 where u: "os_funlock os w f = (w1, r1)" by fastforce
    obtain w2 r2 where c: "os_close os w1 f = (w2, r2)" by fastforce
    from u c Some assms(2) have "w' = w2" "l' = Some (l\<lparr>lk_f := None\<rparr>)" by (auto simp: Release_def)
    with funlockD [OF assms(1) u] closeD [OF assms(1) c] Some show ?thesis
      by (auto simp: funlock_outcome_def close_outcome_def dropped_def same_locks_def split: option.split_asm)
  qed
  then show "l' = Some (l\<lparr>lk_f := None\<rparr>)"
    "lv_holder lv w' i = (if lk_f l \<noteq> None \<and> lv_holder lv w i = lk_f l then None else lv_holder lv w i)"
    "lv_file_of lv w' g = (if lk_f l = Some g then None else lv_file_of lv w g)" by blast+
qed

interpretation fl: exclusive_lock
  "\<lambda>e :: 'w lock_env. flock_contract (fst e) (snd e)"
  "\<lambda>e. lv_holder (snd e)"
  "\<lambda>e l. lv_ino (snd e) (lk_path l)"
  lk_f
  "\<lambda>e. Acquire (fst e)"
  "\<lambda>e. Release (fst e)"
proof (unfold_locales, goal_cases)
  case (1 e w p w' l)
  from 1(1,2) show ?case
  proof (cases rule: Acquire_cases)
    case (granted f)
    moreover have "lv_holder (snd e) w i \<noteq> Some f" for i
      using view_okD [OF 1(1), of w] granted(2) by (auto simp: view_ok_def)
    ultimately show ?thesis by auto
  qed auto
next
  case (2 e w p w' err)
  from 2(1,2) show ?case by (cases rule: Acquire_cases) (auto simp: same_locks_def)
next
  case (3 e w w' l' r)
  then show ?case by (simp add: Release_def)
next
  case (4 e w l w' l' r)
  from Release_cases [OF 4] show ?case by auto
qed

subsection \<open>Many instances\<close>

text \<open>
  The instances are numbered; \<open>own n\<close> is the lock object of instance \<open>n\<close>, if it has one. An instance
  that dies has its descriptors closed by the kernel.
\<close>

inductive lock_step :: "'w os \<Rightarrow> 'w \<times> (nat \<Rightarrow> lock option) \<Rightarrow> 'w \<times> (nat \<Rightarrow> lock option) \<Rightarrow> bool" for os where
  Granted: "own n = None \<Longrightarrow> Acquire os w p = (w', Inr l) \<Longrightarrow> lock_step os (w, own) (w', own(n \<mapsto> l))"
| Refused: "own n = None \<Longrightarrow> Acquire os w p = (w', Inl err) \<Longrightarrow> lock_step os (w, own) (w', own)"
| Released: "Release os w (own n) = (w', l, err) \<Longrightarrow> lock_step os (w, own) (w', own(n := l))"
| Died: "own n = Some l \<Longrightarrow> lk_f l = Some f \<Longrightarrow> os_close os w f = (w', err) \<Longrightarrow>
    lock_step os (w, own) (w', own(n := None))"

lemma lock_step_owned:
  assumes "flock_contract os lv" "lock_step os s t" "fl.owned (os, lv) (fst s) (snd s)"
  shows "fl.owned (os, lv) (fst t) (snd t)"
  using assms(2,3)
proof cases
  case (Granted own n w p w' l)
  with assms(1,3) show ?thesis by (simp add: fl.owned_acquire)
next
  case (Refused own n w p w' err)
  have "lv_holder lv w' = lv_holder lv w"
    using fl.acquire_err [of "(os, lv)" w p w' err] assms(1) Refused by simp
  with Refused assms(3) show ?thesis by (simp add: fl.owned_def)
next
  case (Released w own n w' l err)
  with assms(1,3) show ?thesis by (simp add: fl.owned_release)
next
  case (Died own n l f w w' err)
  have "lv_holder lv w' i = (if lk_f l \<noteq> None \<and> lv_holder lv w i = lk_f l then None else lv_holder lv w i)" for i
    using closeD [OF assms(1) Died(5)] Died(4) by (simp add: close_outcome_def dropped_def)
  with Died assms(3) show ?thesis by (auto intro: fl.owned_drop)
qed

lemma lock_steps_owned:
  assumes "flock_contract os lv" "(lock_step os)\<^sup>*\<^sup>* s t" "fl.owned (os, lv) (fst s) (snd s)"
  shows "fl.owned (os, lv) (fst t) (snd t)"
  using assms(2,3) by (induction rule: rtranclp_induct) (blast intro: lock_step_owned [OF assms(1)])+

end
