(* ===== verification/Lockfile_Props.thy ===== *)
theory Lockfile_Props
  imports Lockfile
begin

section \<open>Properties of the lock file\<close>

text \<open>
  Mutual exclusion over any interleaving of instances, the outcome of \<open>Acquire\<close> on every path, and the
  round trip of \<open>Acquire\<close> and \<open>Release\<close>. The witnesses run on \<open>lock_os\<close>, a world that is a table of
  open descriptors and a table of locks.
\<close>

subsection \<open>A world of descriptors and locks\<close>

record lock_world =
  kw_files :: "(fd \<times> nat) list"
  kw_locks :: "(nat \<times> fd option) list"

definition kw_holder :: "lock_world \<Rightarrow> nat \<Rightarrow> fd option" where
  "kw_holder w i = (case map_of (kw_locks w) i of
     Some (Some f) \<Rightarrow> if map_of (kw_files w) f = Some i then Some f else None
   | _ \<Rightarrow> None)"

definition the_lock_file :: string where "the_lock_file = ''/run/logstat/web/logstat.lock''"

definition kw_ino :: "string \<Rightarrow> nat" where "kw_ino p = (if p = the_lock_file then 1 else 0)"

definition kw_used :: "lock_world \<Rightarrow> fd list" where
  "kw_used w = map fst (kw_files w) @ map (\<lambda>l. case snd l of None \<Rightarrow> 0 | Some f \<Rightarrow> f) (kw_locks w)"

definition kw_fresh :: "lock_world \<Rightarrow> fd" where
  "kw_fresh w = Suc (foldr max (kw_used w) 2)"

definition kw_unlock :: "fd \<Rightarrow> lock_world \<Rightarrow> lock_world" where
  "kw_unlock f w = w\<lparr>kw_locks := map (\<lambda>(i, g). (i, if g = Some f then None else g)) (kw_locks w)\<rparr>"

definition kw_flock :: "lock_world \<Rightarrow> fd \<Rightarrow> lock_world \<times> goerr option" where
  "kw_flock w f = (case map_of (kw_files w) f of
     None \<Rightarrow> (w, Some (ErrText ''bad file descriptor''))
   | Some i \<Rightarrow> (case kw_holder w i of
       Some g \<Rightarrow> if g = f then (w\<lparr>kw_locks := AList.update i (Some f) (kw_locks w)\<rparr>, None)
                 else (w, Some (Sentinel EWOULDBLOCK))
     | None \<Rightarrow> (w\<lparr>kw_locks := AList.update i (Some f) (kw_locks w)\<rparr>, None)))"

definition lock_os :: "lock_world os" where
  "lock_os =
     \<lparr>os_read_file = (\<lambda>w p. Inr []), os_mkdir_all = (\<lambda>w p. (w, None)),
      os_open_append = (\<lambda>w p. (w, Inl (ErrText ''input/output error''))),
      os_open_rdwr = (\<lambda>w p. (w\<lparr>kw_files := AList.update (kw_fresh w) (kw_ino p) (kw_files w)\<rparr>, Inr (kw_fresh w))),
      os_write = (\<lambda>w f s. (w, None)), os_write_at = (\<lambda>w f s n. (w, None)), os_truncate = (\<lambda>w f. (w, None)),
      os_close = (\<lambda>w f. (w\<lparr>kw_files := AList.delete f (kw_files w)\<rparr>, None)),
      os_flock = kw_flock, os_funlock = (\<lambda>w f. (kw_unlock f w, None)),
      os_getpid = (\<lambda>w. 4711), os_stat = (\<lambda>w p. True), os_hostname = (\<lambda>w. Inr ''web01'')\<rparr>"

definition lock_os_view :: "lock_world lock_view" where
  "lock_os_view = \<lparr>lv_file_of = (\<lambda>w. map_of (kw_files w)), lv_holder = kw_holder, lv_ino = kw_ino\<rparr>"

lemma foldr_max_ge: "x \<in> set xs \<Longrightarrow> x \<le> foldr max xs (a :: nat)"
  by (induction xs) auto

lemma kw_fresh_unused: "kw_fresh w \<notin> set (kw_used w)"
  using foldr_max_ge [of "kw_fresh w" "kw_used w" 2] by (auto simp: kw_fresh_def)

lemma kw_fresh_new:
  "map_of (kw_files w) (kw_fresh w) = None" "map_of (kw_locks w) i \<noteq> Some (Some (kw_fresh w))"
proof -
  have "fst ` set (kw_files w) \<subseteq> set (kw_used w)" by (auto simp: kw_used_def)
  then show "map_of (kw_files w) (kw_fresh w) = None"
    using kw_fresh_unused [of w] unfolding map_of_eq_None_iff by blast
  have used: "f \<in> set (kw_used w)" if "map_of (kw_locks w) i = Some (Some f)" for f
  proof -
    have "(i, Some f) \<in> set (kw_locks w)" using that by (rule map_of_SomeD)
    then show ?thesis unfolding kw_used_def by force
  qed
  show "map_of (kw_locks w) i \<noteq> Some (Some (kw_fresh w))" using used kw_fresh_unused by blast
qed

lemma kw_unlock_locks:
  "map_of (kw_locks (kw_unlock f w)) i = map_option (\<lambda>g. if g = Some f then None else g) (map_of (kw_locks w) i)"
  by (simp add: kw_unlock_def map_of_map)

lemma kw_unlock_files [simp]: "kw_files (kw_unlock f w) = kw_files w"
  by (simp add: kw_unlock_def)

lemma lock_os_contract: "flock_contract lock_os lock_os_view"
proof -
  have holder_open: "kw_holder (w\<lparr>kw_files := AList.update (kw_fresh w) j (kw_files w)\<rparr>) i = kw_holder w i" for w j i
    using kw_fresh_new(2) [of w i] by (auto simp: kw_holder_def AList.update_conv' kw_fresh_new(1) split: option.split)
  have holder_close: "kw_holder (w\<lparr>kw_files := AList.delete f (kw_files w)\<rparr>) i =
      (if kw_holder w i = Some f then None else kw_holder w i)" for w f i
    by (auto simp: kw_holder_def AList.delete_conv' split: option.split)
  have holder_unlock: "kw_holder (kw_unlock f w) i = (if kw_holder w i = Some f then None else kw_holder w i)" for w f i
    by (auto simp: kw_holder_def kw_unlock_locks split: option.split)
  have holder_lock: "map_of (kw_files w) f = Some i \<Longrightarrow>
      kw_holder (w\<lparr>kw_locks := AList.update i (Some f) (kw_locks w)\<rparr>) = (kw_holder w)(i \<mapsto> f)" for w f i
    by (auto simp: kw_holder_def fun_eq_iff AList.update_conv' split: option.split)
  have ok: "view_ok lock_os_view w" for w
    by (auto simp: view_ok_def lock_os_view_def kw_holder_def split: option.split_asm if_split_asm)
  have flock: "flock_outcome lock_os_view f i w w' r" if "map_of (kw_files w) f = Some i" "kw_flock w f = (w', r)" for f i w w' r
    using that holder_lock [OF that(1)]
    by (auto simp: flock_outcome_def kw_flock_def lock_os_view_def split: option.split_asm if_split_asm)
  show ?thesis
    unfolding flock_contract_def
    using ok flock
    by (auto simp: lock_os_def foreign_err_def open_outcome_def funlock_outcome_def close_outcome_def dropped_def
        lock_os_view_def same_locks_def kw_fresh_new holder_open holder_close holder_unlock fun_eq_iff
        AList.update_conv' AList.delete_conv')
qed

subsection \<open>Mutual exclusion\<close>

text \<open>
  C16. However instances start, stop and die, at most one of them holds the lock of a file: while
  instance \<open>n\<close> has it, no other instance has, and an \<open>Acquire\<close> of any path to the same file fails and
  leaves every lock and descriptor as it was.
\<close>

theorem at_most_one_instance:
  assumes "flock_contract os lv" "(lock_step os)\<^sup>*\<^sup>* (w0, \<lambda>n. None) (w, own)"
    "own n = Some l" "lk_f l \<noteq> None" "lv_ino lv p = lv_ino lv (lk_path l)"
  shows "(\<forall>m k. own m = Some k \<and> lk_f k \<noteq> None \<and> lv_ino lv (lk_path k) = lv_ino lv (lk_path l) \<longrightarrow> m = n) \<and>
    (\<exists>err w'. Acquire os w p = (w', Inl err) \<and> same_locks lv w w')"
proof
  have own: "fl.owned (os, lv) w own"
    using lock_steps_owned [OF assms(1,2)] by (simp add: fl.owned_empty)
  then show "\<forall>m k. own m = Some k \<and> lk_f k \<noteq> None \<and> lv_ino lv (lk_path k) = lv_ino lv (lk_path l) \<longrightarrow> m = n"
    using fl.owned_excludes [OF own _ assms(3) _ assms(4)] by auto
  obtain h where "lk_f l = Some h" using assms(4) by blast
  with fl.ownedD [OF own assms(3)] have held: "lv_holder lv w (lv_ino lv p) = Some h" using assms(5) by simp
  obtain w' r where a: "Acquire os w p = (w', r)" by fastforce
  from assms(1) a show "\<exists>err w'. Acquire os w p = (w', Inl err) \<and> same_locks lv w w'"
    using held a by (cases rule: Acquire_cases) auto
qed

definition idle_world :: lock_world where "idle_world = \<lparr>kw_files = [], kw_locks = []\<rparr>"
definition held_world :: lock_world where "held_world = \<lparr>kw_files = [(3, 1)], kw_locks = [(1, Some 3)]\<rparr>"
definition the_lock :: lock where "the_lock = \<lparr>lk_path = the_lock_file, lk_f = Some 3\<rparr>"

lemma first_acquire: "Acquire lock_os idle_world the_lock_file = (held_world, Inr the_lock)"
  by code_simp

lemma at_most_one_instance_witness:
  "\<exists>own. (lock_step lock_os)\<^sup>*\<^sup>* (idle_world, \<lambda>n. None) (held_world, own) \<and> own 0 = Some the_lock \<and>
     (\<exists>err w'. Acquire lock_os held_world the_lock_file = (w', Inl err) \<and> same_locks lock_os_view held_world w')"
proof -
  let ?own = "(\<lambda>n. None)(0 \<mapsto> the_lock)"
  have "lock_step lock_os (idle_world, \<lambda>n. None) (held_world, ?own)"
    by (rule lock_step.Granted [OF _ first_acquire]) simp
  then have run: "(lock_step lock_os)\<^sup>*\<^sup>* (idle_world, \<lambda>n. None) (held_world, ?own)" by (rule r_into_rtranclp)
  have "\<exists>err w'. Acquire lock_os held_world the_lock_file = (w', Inl err) \<and> same_locks lock_os_view held_world w'"
    using at_most_one_instance [OF lock_os_contract run, of 0 the_lock the_lock_file]
    by (simp add: the_lock_def)
  with run show ?thesis by (intro exI [of _ ?own]) simp
qed

subsection \<open>Acquire and Release\<close>

text \<open>
  C17. \<open>Acquire\<close> either returns a lock on a file that nobody held, through a new descriptor, and changes
  nothing else; or it fails with every descriptor and lock as before, so a refused start leaks nothing,
  and it reports \<open>ErrLocked\<close> only when another descriptor does hold the lock.
\<close>

theorem Acquire_outcome:
  assumes "flock_contract os lv" "Acquire os w p = (w', r)"
  shows "case r of
      Inr l \<Rightarrow> lk_path l = p \<and> lv_holder lv w (lv_ino lv p) = None \<and>
        (\<exists>f. lk_f l = Some f \<and> lv_file_of lv w f = None \<and>
          lv_file_of lv w' = (lv_file_of lv w)(f \<mapsto> lv_ino lv p) \<and>
          lv_holder lv w' = (lv_holder lv w)(lv_ino lv p \<mapsto> f))
    | Inl err \<Rightarrow> lv_file_of lv w' = lv_file_of lv w \<and> lv_holder lv w' = lv_holder lv w \<and>
        (errors_Is err ErrLocked \<longrightarrow> lv_holder lv w (lv_ino lv p) \<noteq> None)"
  using assms by (cases rule: Acquire_cases) (auto simp: same_locks_def)

lemma Acquire_outcome_witness:
  "snd (Acquire lock_os held_world the_lock_file) =
     Inl (Errorf ''%s: %w'' [AS the_lock_file] (Some (Sentinel ErrLocked))) \<and>
   lv_file_of lock_os_view (fst (Acquire lock_os held_world the_lock_file)) = lv_file_of lock_os_view held_world"
proof -
  have a: "Acquire lock_os held_world the_lock_file =
      (held_world, Inl (Errorf ''%s: %w'' [AS the_lock_file] (Some (Sentinel ErrLocked))))" by code_simp
  from Acquire_outcome [OF lock_os_contract a] a show ?thesis by simp
qed

text \<open>
  C18. Releasing an acquired lock brings every descriptor and lock back to what it was before it was
  acquired, whether or not the system reports an error on the way; releasing it again does nothing and
  reports nothing, like releasing a nil lock.
\<close>

theorem Release_undoes_Acquire:
  assumes "flock_contract os lv" "Acquire os w p = (w1, Inr l)" "Release os w1 (Some l) = (w2, l', r)"
  shows "lv_file_of lv w2 = lv_file_of lv w \<and> lv_holder lv w2 = lv_holder lv w \<and>
    Release os w2 l' = (w2, l', None) \<and> Release os w2 None = (w2, None, None)"
proof -
  note rel = Release_cases [OF assms(1,3)]
  from assms(1,2) obtain f where f: "lk_f l = Some f" "lv_file_of lv w f = None"
      "lv_file_of lv w1 = (lv_file_of lv w)(f \<mapsto> lv_ino lv p)" "lv_holder lv w (lv_ino lv p) = None"
      "lv_holder lv w1 = (lv_holder lv w)(lv_ino lv p \<mapsto> f)"
    by (cases rule: Acquire_cases) auto
  have unheld: "lv_holder lv w i \<noteq> Some f" for i
    using view_okD [OF assms(1), of w] f(2) by (auto simp: view_ok_def)
  have "lv_file_of lv w2 g = lv_file_of lv w g" for g using rel(3) [of g] f by auto
  moreover have "lv_holder lv w2 i = lv_holder lv w i" for i using rel(2) [of i] f unheld by simp
  moreover have "Release os w2 l' = (w2, l', None)" by (simp add: rel(1) Release_def)
  ultimately show ?thesis by (simp add: fun_eq_iff Release_def)
qed

lemma Release_undoes_Acquire_witness:
  "lv_holder lock_os_view (fst (Release lock_os held_world (Some the_lock))) = lv_holder lock_os_view idle_world"
  using Release_undoes_Acquire [OF lock_os_contract first_acquire] by (metis prod_cases3 fst_conv)

end
