(* ===== verification/Cli.thy ===== *)
theory Cli
  imports Lockfile Run Metrics "HOL-Library.List_Lexorder" "HOL-Library.Char_ord"
begin

section \<open>The command line (cmd/logstat)\<close>

text \<open>
  \<open>flag_Parse\<close> is \<open>flag.FlagSet.Parse\<close> with \<open>ContinueOnError\<close>, over flags that set a field of the
  record \<open>flags\<close>; \<open>cli_setup\<close>, \<open>cmdClear\<close>, \<open>cmdRun\<close> and \<open>run_args\<close> (\<open>run\<close> of the source) are the functions
  of main.go, returning the world and the exit code. A deferred call is made where it runs.

  \<open>cli_env\<close> has what they call: the operating system, the clock, the client go-redis builds from a
  configuration. \<open>Daemon.Run\<close> is an argument \<open>serve\<close> of \<open>cmdRun\<close>: a function that picks one of the runs
  of the theory Run, with the logger it leaves (SIGHUP may have reopened its file). A panic leaves
  through the deferred calls and the runtime exits with status 2. The signal wiring and closing the
  Redis client are the libraries' alone.
\<close>

subsection \<open>The flag package\<close>

datatype 'v flag_var = StringVar "string \<Rightarrow> 'v \<Rightarrow> 'v" | BoolVar "bool \<Rightarrow> 'v \<Rightarrow> 'v"

record 'v flag =
  fl_name :: string
  fl_usage :: string
  fl_var :: "'v flag_var"

record 'v flag_set =
  fs_name :: string
  fs_formal :: "'v flag list"

definition ParseBool :: "string \<Rightarrow> bool option" where
  "ParseBool s =
     (if s \<in> set [''1'', ''t'', ''T'', ''TRUE'', ''true'', ''True''] then Some True
      else if s \<in> set [''0'', ''f'', ''F'', ''FALSE'', ''false'', ''False''] then Some False
      else None)"

text \<open>\<open>PrintDefaults\<close> for flags without a default: bool flags of one letter stay on one line.\<close>

definition flag_default_text :: "'v flag \<Rightarrow> string" where
  "flag_default_text f =
     (let b = ''  -'' @ fl_name f @ (case fl_var f of StringVar _ \<Rightarrow> '' string'' | BoolVar _ \<Rightarrow> [])
      in b @ (if length b \<le> 4 then [CHR 0x09] else [CHR 0x0A] @ ''    '' @ [CHR 0x09]) @ fl_usage f @ [CHR 0x0A])"

definition fs_Usage :: "'v flag_set \<Rightarrow> string" where
  "fs_Usage fs = ''Usage of '' @ fs_name fs @ '':'' @ [CHR 0x0A] @
     concat (map flag_default_text (sort_key fl_name (fs_formal fs)))"

text \<open>\<open>name=value\<close>: the name has at least one character.\<close>

definition split_value :: "string \<Rightarrow> string \<times> string option" where
  "split_value s = (case IndexByte (drop 1 s) CHR ''='' of
     None \<Rightarrow> (s, None) | Some i \<Rightarrow> (take (Suc i) s, Some (drop (i + 2) s)))"

text \<open>\<open>parseOne\<close>: the flags end, a flag was set and \<open>args\<close> remain, or an error, with what is printed.\<close>

datatype 'v parse_one = ParseEnd | ParseSet "string list" 'v | ParseErr goerr string 'v

definition failf :: "unicode \<Rightarrow> 'v flag_set \<Rightarrow> string \<Rightarrow> farg list \<Rightarrow> 'v \<Rightarrow> 'v parse_one" where
  "failf uc fs f args v = (let e = Errorf f args None in ParseErr e (err_msg uc e @ [CHR 0x0A] @ fs_Usage fs) v)"

definition set_flag :: "unicode \<Rightarrow> 'v flag_set \<Rightarrow> 'v flag \<Rightarrow> string option \<Rightarrow> string list \<Rightarrow> 'v \<Rightarrow> 'v parse_one" where
  "set_flag uc fs f value args v =
     (case fl_var f of
        BoolVar put \<Rightarrow>
          (case value of
             None \<Rightarrow> ParseSet args (put True v)
           | Some s \<Rightarrow>
               (case ParseBool s of
                  None \<Rightarrow> failf uc fs ''invalid boolean value %q for -%s: parse error'' [AS s, AS (fl_name f)] (put False v)
                | Some b \<Rightarrow> ParseSet args (put b v)))
      | StringVar put \<Rightarrow>
          (case value of
             Some s \<Rightarrow> ParseSet args (put s v)
           | None \<Rightarrow>
               (case args of
                  [] \<Rightarrow> failf uc fs ''flag needs an argument: -%s'' [AS (fl_name f)] v
                | s # rest \<Rightarrow> ParseSet rest (put s v))))"

definition parseOne :: "unicode \<Rightarrow> 'v flag_set \<Rightarrow> string list \<Rightarrow> 'v \<Rightarrow> 'v parse_one" where
  "parseOne uc fs args v =
     (case args of
        [] \<Rightarrow> ParseEnd
      | s # rest \<Rightarrow>
          if length s < 2 \<or> hd s \<noteq> CHR ''-'' then ParseEnd
          else if s = ''--'' then ParseEnd
          else (let name = (if s ! 1 = CHR ''-'' then drop 2 s else drop 1 s) in
                if name = [] \<or> hd name = CHR ''-'' \<or> hd name = CHR ''='' then failf uc fs ''bad flag syntax: %s'' [AS s] v
                else (case split_value name of (name, value) \<Rightarrow>
                  (case find (\<lambda>f. fl_name f = name) (fs_formal fs) of
                     None \<Rightarrow>
                       if name = ''help'' \<or> name = ''h'' then ParseErr (Sentinel ErrHelp) (fs_Usage fs) v
                       else failf uc fs ''flag provided but not defined: -%s'' [AS name] v
                   | Some f \<Rightarrow> set_flag uc fs f value rest v))))"

lemma set_flag_shrinks: "set_flag uc fs f value args v = ParseSet args' v' \<Longrightarrow> length args' \<le> length args"
  by (auto simp: set_flag_def failf_def Let_def split: flag_var.split_asm option.split_asm list.split_asm)

lemma parseOne_shrinks: "parseOne uc fs args v = ParseSet args' v' \<Longrightarrow> length args' < length args"
  by (auto simp: parseOne_def failf_def Let_def split: list.split_asm if_split_asm prod.split_asm option.split_asm
      dest!: set_flag_shrinks)

text \<open>The values, the text printed to the error output, and the error.\<close>

function flag_Parse :: "unicode \<Rightarrow> 'v flag_set \<Rightarrow> string list \<Rightarrow> 'v \<Rightarrow> 'v \<times> string \<times> goerr option" where
  "flag_Parse uc fs args v =
     (case parseOne uc fs args v of
        ParseEnd \<Rightarrow> (v, [], None)
      | ParseErr e txt v' \<Rightarrow> (v', txt, Some e)
      | ParseSet args' v' \<Rightarrow> flag_Parse uc fs args' v')"
  by pat_completeness auto
termination
  by (relation "measure (\<lambda>(uc, fs, args, v). length args)") (simp_all add: parseOne_shrinks)

declare flag_Parse.simps [simp del]

subsection \<open>The flags of the commands\<close>

record flags =
  fg_config :: string
  fg_action :: string
  fg_all :: bool

definition no_flags :: flags where "no_flags = \<lparr>fg_config = [], fg_action = [], fg_all = False\<rparr>"

definition configFlags :: "flags flag list" where
  "configFlags =
     [\<lparr>fl_name = ''config'', fl_usage = ''path to the YAML configuration file'', fl_var = StringVar (\<lambda>s v. v\<lparr>fg_config := s\<rparr>)\<rparr>,
      \<lparr>fl_name = ''c'', fl_usage = ''path to the YAML configuration file (shorthand)'', fl_var = StringVar (\<lambda>s v. v\<lparr>fg_config := s\<rparr>)\<rparr>]"

definition run_flags :: "flags flag_set" where
  "run_flags = \<lparr>fs_name = ''run'', fs_formal = configFlags\<rparr>"

definition clear_flags :: "flags flag_set" where
  "clear_flags = \<lparr>fs_name = ''clear'', fs_formal = configFlags @
     [\<lparr>fl_name = ''action'', fl_usage = ''zero only this action'', fl_var = StringVar (\<lambda>s v. v\<lparr>fg_action := s\<rparr>)\<rparr>,
      \<lparr>fl_name = ''all'', fl_usage = ''zero every action of the configuration'', fl_var = BoolVar (\<lambda>b v. v\<lparr>fg_all := b\<rparr>)\<rparr>]\<rparr>"

definition parseExit :: "goerr \<Rightarrow> int" where
  "parseExit err = (if errors_Is err ErrHelp then 0 else 2)"

subsection \<open>Setup\<close>

record ('w, 's) cli_env =
  ce_os :: "'w os"
  ce_now :: "'w \<Rightarrow> gotime"
  ce_uc :: unicode
  ce_libs :: "'s config_libs"
  ce_client :: "redis_config \<Rightarrow> 'w client"
  ce_version :: string
  ce_commit :: string
  ce_date :: string

definition print_out :: "('w, 's) cli_env \<Rightarrow> string \<Rightarrow> 'w \<Rightarrow> 'w" where
  "print_out env s w = fst (os_write (ce_os env) w 1 s)"

definition print_err :: "('w, 's) cli_env \<Rightarrow> string \<Rightarrow> 'w \<Rightarrow> 'w" where
  "print_err env s w = fst (os_write (ce_os env) w 2 s)"

text \<open>A call of the logger; the time of the record is the time of the call.\<close>

definition say :: "('w, 's) cli_env \<Rightarrow> logger \<Rightarrow> level \<Rightarrow> string \<Rightarrow> attr list \<Rightarrow> 'w \<Rightarrow> 'w" where
  "say env lg l msg attrs w = Log (ce_uc env) (ce_now env w) (ce_os env) w lg l msg attrs"

definition cli_setup :: "('w, 's) cli_env \<Rightarrow> 'v flag_set \<Rightarrow> 'w \<Rightarrow> string \<Rightarrow> 'w \<times> (config \<times> logger + int)" where
  "cli_setup env fs w cfgPath =
     (if cfgPath = [] then
        (print_err env (fs_Usage fs) (print_err env (''--config is required'' @ [CHR 0x0A, CHR 0x0A]) w), Inr 2)
      else
        (case Load (ce_uc env) (ce_libs env) (ce_os env) w cfgPath of
           (_, warnings, Some err) \<Rightarrow> (print_err env (err_msg (ce_uc env) err @ [CHR 0x0A]) w, Inr 1)
         | (None, warnings, None) \<Rightarrow> (w, Inr 2)
         | (Some cfg, warnings, None) \<Rightarrow>
             (case Logging_New (ce_uc env) (ce_os env) w (cfg_logging cfg) of
                (w1, Inl err) \<Rightarrow>
                  (print_err env (''cannot initialise logging: '' @ err_msg (ce_uc env) err @ [CHR 0x0A]) w1, Inr 1)
              | (w1, Inr lg) \<Rightarrow>
                  (fold (\<lambda>m. say env lg LevelWarn m []) warnings
                     (say env lg LevelInfo ''configuration loaded''
                        [(''path'', VString cfgPath), (''version'', VString (ce_version env))] w1),
                   Inl (cfg, lg)))))"

text \<open>
  \<open>SetLibraryLogger\<close> routes what go-redis prints into the logger: the record of \<open>libraryLogger.Printf\<close>
  (\<open>internal/store/store.go\<close>), where \<open>text\<close> is what \<open>fmt.Sprintf\<close> made of the arguments.
\<close>

definition libraryLogger_Printf :: "string \<Rightarrow> log_call" where
  "libraryLogger_Printf text =
     (LevelDebug, rev (dropWhile (\<lambda>c. c = CHR 0x0A) (rev text)), [(''component'', VString ''go-redis'')])"

subsection \<open>logstat clear\<close>

text \<open>One iteration of the loop: the world and the number of failures.\<close>

definition clear_one ::
  "('w, 's) cli_env \<Rightarrow> 'w client \<Rightarrow> store \<Rightarrow> logger \<Rightarrow> gotime \<Rightarrow> string \<Rightarrow> 'w \<times> nat \<Rightarrow> 'w \<times> nat" where
  "clear_one env cl st lg now a s =
     (case Store_Reset cl st (fst s) a now of
        (w1, Some err) \<Rightarrow>
          (say env lg LevelError ''cannot reset counter'' [(''action'', VString a), (''error'', VError err)] w1, snd s + 1)
      | (w1, None) \<Rightarrow>
          (say env lg LevelInfo ''counter cleared''
             [(''action'', VString a), (''host'', VString (s_host st)), (''heartbeat'', VBool (s_heartbeat st))] w1, snd s))"

text \<open>The words to clear, or the message of a usage error.\<close>

definition clear_selection :: "flags \<Rightarrow> config \<Rightarrow> (string \<times> attr list) + string list" where
  "clear_selection fl cfg =
     (if fg_all fl \<and> fg_action fl \<noteq> [] then Inl (''--all and --action are mutually exclusive'', [])
      else if \<not> fg_all fl \<and> fg_action fl = [] then Inl (''specify either --all or --action <word>'', [])
      else if fg_action fl \<noteq> [] then
        (if fg_action fl \<notin> set (cfg_actions cfg)
         then Inl (''action is not listed in the configuration'',
                   [(''action'', VString (fg_action fl)), (''configured'', VStrings (cfg_actions cfg))])
         else Inr [fg_action fl])
      else Inr (cfg_actions cfg))"

definition clear_body :: "('w, 's) cli_env \<Rightarrow> flags \<Rightarrow> config \<Rightarrow> logger \<Rightarrow> 'w \<Rightarrow> 'w \<times> int" where
  "clear_body env fl cfg lg w =
     (case clear_selection fl cfg of
        Inl (msg, attrs) \<Rightarrow> (say env lg LevelError msg attrs w, 2)
      | Inr actions \<Rightarrow>
          (let st = Store_New (cfg_redis cfg) (ShortHostname (ce_os env) w) (cfg_heartbeat_key cfg) in
           case fold (clear_one env (ce_client env (cfg_redis cfg)) st lg (ce_now env w)) actions (w, 0) of
             (w1, failed) \<Rightarrow> (w1, if 0 < failed then 1 else 0)))"

definition cmdClear :: "('w, 's) cli_env \<Rightarrow> 'w \<Rightarrow> string list \<Rightarrow> 'w \<times> int" where
  "cmdClear env w args =
     (case flag_Parse (ce_uc env) clear_flags args no_flags of
        (fl, txt, Some err) \<Rightarrow> (print_err env txt w, parseExit err)
      | (fl, _, None) \<Rightarrow>
          (case cli_setup env clear_flags w (fg_config fl) of
             (w1, Inr code) \<Rightarrow> (w1, code)
           | (w1, Inl (cfg, lg)) \<Rightarrow>
               (case clear_body env fl cfg lg w1 of
                  (w2, code) \<Rightarrow> (fst (Close (ce_os env) w2 lg), code))))"

subsection \<open>logstat run\<close>

text \<open>One SIGHUP.\<close>

definition on_hup :: "('w, 's) cli_env \<Rightarrow> 'w \<Rightarrow> logger \<Rightarrow> 'w \<times> logger" where
  "on_hup env w lg =
     (case Reopen (ce_os env) w lg of
        (w1, lg1, Some err) \<Rightarrow> (say env lg1 LevelError ''cannot reopen log file'' [(''error'', VError err)] w1, lg1)
      | (w1, lg1, None) \<Rightarrow> (say env lg1 LevelInfo ''log file reopened on SIGHUP'' [] w1, lg1))"

type_synonym 'w serve = "'w denv \<Rightarrow> logger \<Rightarrow> 'w \<Rightarrow> daemon \<Rightarrow> 'w \<times> logger \<times> run_result"

definition daemon_env :: "('w, 's) cli_env \<Rightarrow> config \<Rightarrow> 'w denv" where
  "daemon_env env cfg = \<lparr>ev_client = ce_client env (cfg_redis cfg), ev_now = ce_now env, ev_uc = ce_uc env\<rparr>"

text \<open>From the acquired lock to its release.\<close>

definition run_locked ::
  "('w, 's) cli_env \<Rightarrow> 'w serve \<Rightarrow> config \<Rightarrow> logger \<Rightarrow> lock \<Rightarrow> 'w \<Rightarrow> 'w \<times> logger \<times> int" where
  "run_locked env serve cfg lg lk w =
     (let st = Store_New (cfg_redis cfg) (ShortHostname (ce_os env) w) (cfg_heartbeat_key cfg);
          ev = daemon_env env cfg
      in case serve ev lg w (Daemon_New ev w cfg st [WithVersion (ce_version env)]) of
           (w1, lg1, res) \<Rightarrow>
             (let (w2, code) =
                (case res of
                   Returned (Some err) \<Rightarrow> (say env lg1 LevelError ''daemon failed'' [(''error'', VError err)] w1, 1)
                 | Returned None \<Rightarrow> (w1, 0)
                 | Panicked _ \<Rightarrow> (w1, 2))
              in (fst (Release (ce_os env) w2 (Some lk)), lg1, code)))"

definition run_body :: "('w, 's) cli_env \<Rightarrow> 'w serve \<Rightarrow> config \<Rightarrow> logger \<Rightarrow> 'w \<Rightarrow> 'w \<times> logger \<times> int" where
  "run_body env serve cfg lg w =
     (case CheckPaths (ce_os env) w cfg of
        (w1, Some err) \<Rightarrow> (say env lg LevelError ''configuration error'' [(''error'', VError err)] w1, lg, 1)
      | (w1, None) \<Rightarrow>
          (case Acquire (ce_os env) w1 (cfg_lock_file cfg) of
             (w2, Inl err) \<Rightarrow>
               (say env lg LevelError ''cannot acquire lock, is another instance running?'' [(''error'', VError err)] w2,
                lg, 1)
           | (w2, Inr lk) \<Rightarrow> run_locked env serve cfg lg lk w2))"

definition cmdRun :: "('w, 's) cli_env \<Rightarrow> 'w serve \<Rightarrow> 'w \<Rightarrow> string list \<Rightarrow> 'w \<times> int" where
  "cmdRun env serve w args =
     (case flag_Parse (ce_uc env) run_flags args no_flags of
        (fl, txt, Some err) \<Rightarrow> (print_err env txt w, parseExit err)
      | (fl, _, None) \<Rightarrow>
          (case cli_setup env run_flags w (fg_config fl) of
             (w1, Inr code) \<Rightarrow> (w1, code)
           | (w1, Inl (cfg, lg)) \<Rightarrow>
               (case run_body env serve cfg lg w1 of
                  (w2, lg1, code) \<Rightarrow> (fst (Close (ce_os env) w2 lg1), code))))"

subsection \<open>The program\<close>

definition usage_text :: string where
  "usage_text = concat (map (\<lambda>l. l @ [CHR 0x0A])
     [''logstat '' @ missing @ '' count code words in a log file and keep the counters in Redis.'',
      [],
      ''Usage:'',
      ''  logstat run   --config <path>              run the daemon (main mode)'',
      ''  logstat clear --config <path> --all        zero all counters of the config'',
      ''  logstat clear --config <path> --action <w> zero a single counter'',
      ''  logstat version                            print version, commit and build date'',
      ''  logstat --help                             this help'',
      [],
      ''Run '' @ [CHR 0x22] @ ''logstat <command> --help'' @ [CHR 0x22] @ '' for the flags of a command.''])"

definition run_args :: "('w, 's) cli_env \<Rightarrow> 'w serve \<Rightarrow> 'w \<Rightarrow> string list \<Rightarrow> 'w \<times> int" where
  "run_args env serve w args =
     (case args of
        [] \<Rightarrow> (print_err env usage_text w, 2)
      | cmd # rest \<Rightarrow>
          if cmd = ''run'' then cmdRun env serve w rest
          else if cmd = ''clear'' then cmdClear env w rest
          else if cmd = ''version'' then
            (print_out env (Sprintf (ce_uc env) ''logstat %s (commit %s, built %s)''
               [AS (ce_version env), AS (ce_commit env), AS (ce_date env)] @ [CHR 0x0A]) w, 0)
          else if cmd \<in> set [''-h'', ''--help'', ''help''] then (print_out env usage_text w, 0)
          else (print_err env (Sprintf (ce_uc env) ''unknown command %q'' [AS cmd] @ [CHR 0x0A, CHR 0x0A] @ usage_text) w, 2))"

end
