(* ===== verification/Cli_Props.thy ===== *)
theory Cli_Props
  imports Cli Store_Props Lockfile_Props Config_Props
begin

section \<open>Properties of the command line\<close>

text \<open>
  \<open>clear\<close>: what each exit code means for the counters. \<open>run\<close>: the lock is taken before the daemon
  starts and given back on every way out. \<open>quiet_os\<close> says that the system calls leave an observation of
  the world alone, such as the database: writing a log does not change it.
\<close>

definition quiet_os :: "'w os \<Rightarrow> ('w \<Rightarrow> 'v) \<Rightarrow> bool" where
  "quiet_os os view \<longleftrightarrow>
     (\<forall>w p. view (fst (os_mkdir_all os w p)) = view w) \<and> (\<forall>w p. view (fst (os_open_append os w p)) = view w) \<and>
     (\<forall>w p. view (fst (os_open_rdwr os w p)) = view w) \<and> (\<forall>w f s. view (fst (os_write os w f s)) = view w) \<and>
     (\<forall>w f s n. view (fst (os_write_at os w f s n)) = view w) \<and> (\<forall>w f. view (fst (os_truncate os w f)) = view w) \<and>
     (\<forall>w f. view (fst (os_close os w f)) = view w) \<and> (\<forall>w f. view (fst (os_flock os w f)) = view w) \<and>
     (\<forall>w f. view (fst (os_funlock os w f)) = view w)"

lemma quiet_osD:
  assumes "quiet_os os view"
  shows "os_mkdir_all os w p = (w', r) \<Longrightarrow> view w' = view w"
    and "os_open_append os w p = (w', ro) \<Longrightarrow> view w' = view w"
    and "os_open_rdwr os w p = (w', ro) \<Longrightarrow> view w' = view w"
    and "os_write os w f s = (w', r) \<Longrightarrow> view w' = view w"
    and "os_write_at os w f s n = (w', r) \<Longrightarrow> view w' = view w"
    and "os_truncate os w f = (w', r) \<Longrightarrow> view w' = view w"
    and "os_close os w f = (w', r) \<Longrightarrow> view w' = view w"
    and "os_flock os w f = (w', r) \<Longrightarrow> view w' = view w"
    and "os_funlock os w f = (w', r) \<Longrightarrow> view w' = view w"
  using assms unfolding quiet_os_def by (metis fst_conv)+

lemma quiet_print: "quiet_os (ce_os env) view \<Longrightarrow> view (print_err env s w) = view w"
  "quiet_os (ce_os env) view \<Longrightarrow> view (print_out env s w) = view w"
  by (simp_all add: print_err_def print_out_def quiet_os_def)

lemma quiet_say: "quiet_os (ce_os env) view \<Longrightarrow> view (say env lg l msg attrs w) = view w"
  by (simp add: say_def Log_def Handle_def output_write_def quiet_os_def split: writer.split)

lemma quiet_says: "quiet_os (ce_os env) view \<Longrightarrow> view (fold (\<lambda>m. say env lg l m []) ms w) = view w"
  by (induction ms arbitrary: w) (simp_all add: quiet_say)

lemma quiet_output_open: "quiet_os os view \<Longrightarrow> output_open os w out = (w', r) \<Longrightarrow> view w' = view w"
  by (auto simp: output_open_def split: prod.split_asm sum.split_asm dest: quiet_osD(2))

lemma quiet_Logging_New: "quiet_os os view \<Longrightarrow> Logging_New uc os w c = (w', r) \<Longrightarrow> view w' = view w"
  by (auto simp: Logging_New_def Let_def split: prod.split_asm sum.split_asm if_split_asm option.split_asm
      dest: quiet_output_open)

lemma quiet_Close: "quiet_os os view \<Longrightarrow> view (fst (Logging.Close os w lg)) = view w"
  by (auto simp: Logging.Close_def output_close_def split: prod.split option.split dest: quiet_osD(7))

text \<open>\<open>cli_setup\<close> goes on only with an accepted configuration and never exits with 0.\<close>

lemma cli_setup_cases:
  assumes "quiet_os (ce_os env) view" "cli_setup env fs w path = (w', r)"
  shows "view w' = view w \<and>
    (case r of Inr code \<Rightarrow> code = 1 \<or> code = 2
     | Inl (cfg, lg) \<Rightarrow> \<exists>ws. Load (ce_uc env) (ce_libs env) (ce_os env) w path = (Some cfg, ws, None))"
proof (cases "path = []")
  case True
  with assms show ?thesis by (auto simp: cli_setup_def quiet_print)
next
  case False
  obtain c ws e where l: "Load (ce_uc env) (ce_libs env) (ce_os env) w path = (c, ws, e)" by (metis prod_cases3)
  show ?thesis
  proof (cases "\<exists>cfg. c = Some cfg \<and> e = None")
    case False
    with l \<open>path \<noteq> []\<close> assms show ?thesis by (cases e; cases c) (auto simp: cli_setup_def quiet_print)
  next
    case True
    then obtain cfg where c: "c = Some cfg" "e = None" by blast
    obtain w1 r1 where n: "Logging_New (ce_uc env) (ce_os env) w (cfg_logging cfg) = (w1, r1)" by fastforce
    from l c n \<open>path \<noteq> []\<close> assms(2) quiet_Logging_New [OF assms(1) n] show ?thesis
      by (cases r1) (auto simp: cli_setup_def quiet_print [OF assms(1)] quiet_says [OF assms(1)] quiet_say [OF assms(1)])
  qed
qed

subsection \<open>logstat clear\<close>

text \<open>The loop over the selected words, by the contract of the store.\<close>

lemma clear_one_facts:
  assumes "env_good (cl, view)" "quiet_os (ce_os env) view" "clear_one env cl st lg now a (w, n) = (w', m)"
  shows "n \<le> m" "m = n \<Longrightarrow> env_val (cl, view) st w' a = 0"
    "env_val (cl, view) st w' a \<in> {env_val (cl, view) st w a, 0}"
    "b \<noteq> a \<Longrightarrow> env_val (cl, view) st w' b = env_val (cl, view) st w b"
    "k \<notin> set (keys st a) \<Longrightarrow> view w' k = view w k"
proof -
  obtain w1 r where x: "Store_Reset cl st w a now = (w1, r)" by fastforce
  have v: "view w' = view w1" and nm: "m = (if r = None then n else n + 1)"
    using x assms(3) by (auto simp: clear_one_def quiet_say [OF assms(2)] split: option.split_asm)
  have same: "env_val (cl, view) st w' b = env_val (cl, view) st w1 b" for b by (simp add: env_val_def v)
  show "n \<le> m" by (simp add: nm)
  show "env_val (cl, view) st w' a = 0" if "m = n"
    using that cs.reset_ok [OF assms(1)] x by (auto simp: nm same split: if_split_asm)
  show "env_val (cl, view) st w' a \<in> {env_val (cl, view) st w a, 0}"
    using cs.reset_ok [OF assms(1)] cs.reset_err [OF assms(1)] x by (cases r) (auto simp: same)
  show "b \<noteq> a \<Longrightarrow> env_val (cl, view) st w' b = env_val (cl, view) st w b"
    using cs.reset_other [OF assms(1)] x by (auto simp: same)
  show "k \<notin> set (keys st a) \<Longrightarrow> view w' k = view w k"
    using Store_Reset_frame [OF _ x] assms(1) v by (simp add: env_good_def)
qed

lemma clear_loop_facts:
  assumes "env_good (cl, view)" "quiet_os (ce_os env) view" "fold (clear_one env cl st lg now) actions (w, n) = (w', m)"
  shows "n \<le> m \<and> (m = n \<longrightarrow> (\<forall>a\<in>set actions. env_val (cl, view) st w' a = 0)) \<and>
    (\<forall>a. env_val (cl, view) st w' a \<in> {env_val (cl, view) st w a, 0}) \<and>
    (\<forall>k. k \<notin> (\<Union>a\<in>set actions. set (keys st a)) \<longrightarrow> view w' k = view w k)"
  using assms(3)
proof (induction actions arbitrary: w n)
  case (Cons a as)
  obtain w1 n1 where o: "clear_one env cl st lg now a (w, n) = (w1, n1)" by fastforce
  note f = clear_one_facts [OF assms(1,2) o]
  from Cons.prems o have "fold (clear_one env cl st lg now) as (w1, n1) = (w', m)" by simp
  note ih = Cons.IH [OF this]
  have "env_val (cl, view) st w1 b \<in> {env_val (cl, view) st w b, 0}" for b
    using f(3) f(4) [of b] by (cases "b = a") auto
  then have "env_val (cl, view) st w' b \<in> {env_val (cl, view) st w b, 0}" for b
    using ih by (metis insert_iff singletonD)
  moreover have "\<forall>b\<in>set (a # as). env_val (cl, view) st w' b = 0" if "m = n"
  proof -
    from that f(1) ih have n1: "n1 = n" "m = n1" by linarith+
    then have "env_val (cl, view) st w1 a = 0" using f(2) by simp
    then have "env_val (cl, view) st w' a = 0" using ih by (metis insert_iff singletonD)
    with ih n1(2) show ?thesis by simp
  qed
  moreover have "view w' k = view w k" if "k \<notin> (\<Union>a\<in>set (a # as). set (keys st a))" for k
    using that ih f(5) [of k] by simp
  moreover have "n \<le> m" using ih f(1) by linarith
  ultimately show ?case by blast
qed simp

lemma clear_selection_subset: "clear_selection fl cfg = Inr actions \<Longrightarrow> set actions \<subseteq> set (cfg_actions cfg)"
  by (auto simp: clear_selection_def split: if_split_asm)

text \<open>The store a command works on.\<close>

definition cli_store :: "('w, 's) cli_env \<Rightarrow> 'w \<Rightarrow> config \<Rightarrow> store" where
  "cli_store env w cfg = Store_New (cfg_redis cfg) (ShortHostname (ce_os env) w) (cfg_heartbeat_key cfg)"

lemma clear_body_facts:
  assumes "env_good (ce_client env (cfg_redis cfg), view)" "quiet_os (ce_os env) view"
    "clear_body env fl cfg lg w = (w', code)"
  shows "(code = 0 \<longrightarrow> (\<exists>actions. clear_selection fl cfg = Inr actions \<and>
        (\<forall>a\<in>set actions. counter_value (ShortHostname (ce_os env) w) (view w') a = 0) \<and>
        (\<forall>k. k \<notin> (\<Union>a\<in>set actions. set (keys (cli_store env w cfg) a)) \<longrightarrow> view w' k = view w k))) \<and>
    (code = 0 \<or> code = 1 \<or> code = 2) \<and> (code = 2 \<longrightarrow> view w' = view w) \<and>
    (\<forall>a. counter_value (ShortHostname (ce_os env) w) (view w') a \<in>
       {counter_value (ShortHostname (ce_os env) w) (view w) a, 0}) \<and>
    (\<forall>k. k \<notin> (\<Union>a\<in>set (cfg_actions cfg). set (keys (cli_store env w cfg) a)) \<longrightarrow> view w' k = view w k)"
proof (cases "clear_selection fl cfg")
  case (Inl m)
  with assms(3) quiet_say [OF assms(2)] show ?thesis by (auto simp: clear_body_def split: prod.split_asm)
next
  case (Inr actions)
  let ?st = "cli_store env w cfg"
  obtain n where f: "fold (clear_one env (ce_client env (cfg_redis cfg)) ?st lg (ce_now env w)) actions (w, 0) = (w', n)"
    and code: "code = (if 0 < n then 1 else 0)"
    using assms(3) Inr by (auto simp: clear_body_def Let_def cli_store_def split: prod.split_asm)
  have h: "s_host ?st = ShortHostname (ce_os env) w" by (simp add: cli_store_def Store_New_def)
  from clear_selection_subset [OF Inr] have "\<forall>a\<in>set actions. a \<in> set (cfg_actions cfg)" by blast
  with clear_loop_facts [OF assms(1,2) f] Inr code show ?thesis
    unfolding env_val_def h fst_conv snd_conv by (auto split: if_split_asm)
qed

text \<open>\<open>cmdClear\<close> past the flags: the exit of the setup, or that of the body after the logger is closed.\<close>

lemma cmdClear_cases:
  assumes "quiet_os (ce_os env) view" "cmdClear env w args = (w', code)"
    "flag_Parse (ce_uc env) clear_flags args no_flags = (fl, txt, perr)"
  obtains (usage) err where "perr = Some err" "code = parseExit err" "view w' = view w"
    | (no_setup) "perr = None" "code = 1 \<or> code = 2" "view w' = view w"
    | (body) cfg ws lg w1 w2 where "perr = None"
      "Load (ce_uc env) (ce_libs env) (ce_os env) w (fg_config fl) = (Some cfg, ws, None)"
      "fst (cli_setup env clear_flags w (fg_config fl)) = w1" "view w1 = view w"
      "clear_body env fl cfg lg w1 = (w2, code)" "view w' = view w2"
proof (cases perr)
  case (Some err)
  with assms that(1) show thesis by (auto simp: cmdClear_def quiet_print)
next
  case None
  obtain w1 r where s: "cli_setup env clear_flags w (fg_config fl) = (w1, r)" by fastforce
  note c = cli_setup_cases [OF assms(1) s]
  show thesis
  proof (cases r)
    case (Inr code')
    with assms(2,3) None s c that(2) show thesis by (auto simp: cmdClear_def)
  next
    case (Inl p)
    obtain cfg lg where p: "p = (cfg, lg)" by fastforce
    obtain w2 code' where b: "clear_body env fl cfg lg w1 = (w2, code')" by fastforce
    from assms(2,3) None s Inl p b have "w' = fst (Logging.Close (ce_os env) w2 lg)" "code = code'"
      by (simp_all add: cmdClear_def)
    with quiet_Close [OF assms(1)] c Inl p b s None that(3) show thesis by fastforce
  qed
qed

text \<open>The host name does not change while the configuration is loaded.\<close>

lemma ShortHostname_same:
  "quiet_os (ce_os env) (os_hostname (ce_os env)) \<Longrightarrow>
   ShortHostname (ce_os env) (fst (cli_setup env fs w path)) = ShortHostname (ce_os env) w"
  using cli_setup_cases [of env "os_hostname (ce_os env)" fs w path] by (simp add: ShortHostname_def prod_eq_iff)

text \<open>
  C20. When \<open>logstat clear\<close> exits with 0 after its flags were accepted, the configuration was valid, the
  selection was \<open>--all\<close> or one configured word, every selected counter is zero, and no other key of the
  database has changed.
\<close>

theorem clear_zeroes_the_selection:
  assumes "\<And>rc. redis_contract (ce_client env rc) view" "quiet_os (ce_os env) view"
    "quiet_os (ce_os env) (os_hostname (ce_os env))"
    "flag_Parse (ce_uc env) clear_flags args no_flags = (fl, txt, None)" "cmdClear env w args = (w', 0)"
  shows "\<exists>cfg ws actions. Load (ce_uc env) (ce_libs env) (ce_os env) w (fg_config fl) = (Some cfg, ws, None) \<and>
    clear_selection fl cfg = Inr actions \<and>
    (\<forall>a\<in>set actions. counter_value (ShortHostname (ce_os env) w) (view w') a = 0) \<and>
    (\<forall>k. k \<notin> (\<Union>a\<in>set actions. set (keys (cli_store env w cfg) a)) \<longrightarrow> view w' k = view w k)"
  using assms(2,5,4)
proof (cases rule: cmdClear_cases)
  case (body cfg ws lg w1 w2)
  have host: "ShortHostname (ce_os env) w1 = ShortHostname (ce_os env) w" "cli_store env w1 cfg = cli_store env w cfg"
    using ShortHostname_same [OF assms(3), of clear_flags w "fg_config fl"] body(3) by (simp_all add: cli_store_def)
  have "env_good (ce_client env (cfg_redis cfg), view)" using assms(1) by (simp add: env_good_def)
  from clear_body_facts [OF this assms(2) body(5)] body(2,4,6) show ?thesis
    unfolding host by metis
qed simp_all

text \<open>For the witnesses: a server that answers, the default configuration, two counters.\<close>

definition cli_example :: "(server, unit) cli_env" where
  "cli_example = \<lparr>ce_os = example_os ''web01'', ce_now = (\<lambda>w. noon), ce_uc = ascii_tables, ce_libs = example_libs,
     ce_client = (\<lambda>rc. server_client), ce_version = ''1.0'', ce_commit = ''none'', ce_date = ''unknown''\<rparr>"

definition two_counters :: db where
  "two_counters = Map.empty(CounterKey ''web01'' ''get-sms'' \<mapsto> set_entry ''7'' 0,
     CounterKey ''web01'' ''getStatus'' \<mapsto> set_entry ''3'' 0)"

definition two_server :: server where
  "two_server = \<lparr>sv_db = two_counters, sv_faults = []\<rparr>"

lemma quiet_example: "quiet_os (example_os h) view"
  by (simp add: quiet_os_def example_os_def)

lemma clear_zeroes_the_selection_witness:
  "snd (cmdClear cli_example two_server [''--config'', ''/etc/logstat.yaml'', ''-action=get-sms'']) = 0 \<and>
   counter_value ''web01'' two_counters ''get-sms'' = 7 \<and>
   counter_value ''web01'' (sv_db (fst (cmdClear cli_example two_server
     [''--config'', ''/etc/logstat.yaml'', ''-action=get-sms'']))) ''get-sms'' = 0"
proof -
  let ?args = "[''--config'', ''/etc/logstat.yaml'', ''-action=get-sms'']"
  obtain w' code where c: "cmdClear cli_example two_server ?args = (w', code)" by fastforce
  have code: "snd (cmdClear cli_example two_server ?args) = 0" by code_simp
  with c have c0: "cmdClear cli_example two_server ?args = (w', 0)" by simp
  obtain fl msg e where p: "flag_Parse (ce_uc cli_example) clear_flags ?args no_flags = (fl, msg, e)" by (metis prod_cases3)
  have "case flag_Parse (ce_uc cli_example) clear_flags ?args no_flags of (fl, msg, e) \<Rightarrow>
      e = None \<and> fg_action fl = ''get-sms'' \<and> \<not> fg_all fl" by code_simp
  with p have e: "e = None" and sel: "fg_action fl = ''get-sms''" "\<not> fg_all fl" by simp_all
  have contract: "redis_contract (ce_client cli_example rc) sv_db" for rc
    by (simp add: cli_example_def server_contract)
  have quiet: "quiet_os (ce_os cli_example) view" for view :: "server \<Rightarrow> 'v"
    by (simp add: cli_example_def quiet_example)
  have host: "ShortHostname (ce_os cli_example) two_server = ''web01''" by code_simp
  obtain actions cfg where a: "clear_selection fl cfg = Inr actions"
    and z: "\<forall>a\<in>set actions. counter_value (ShortHostname (ce_os cli_example) two_server) (sv_db w') a = 0"
    using clear_zeroes_the_selection [OF contract quiet quiet p [unfolded e] c0] by blast
  have "actions = [''get-sms'']" using a sel by (auto simp: clear_selection_def split: if_split_asm)
  moreover have "counter_value ''web01'' two_counters ''get-sms'' = 7" by code_simp
  ultimately show ?thesis using z code c host by simp
qed

text \<open>
  C21. Whatever the exit code of \<open>logstat clear\<close>, it is 0, 1 or 2; a usage error (2) leaves the database
  untouched, and otherwise every counter has its old value or zero and only keys of the configured words
  can have changed.
\<close>

theorem clear_is_contained:
  assumes "\<And>rc. redis_contract (ce_client env rc) view" "quiet_os (ce_os env) view"
    "quiet_os (ce_os env) (os_hostname (ce_os env))"
    "flag_Parse (ce_uc env) clear_flags args no_flags = (fl, txt, perr)" "cmdClear env w args = (w', code)"
  shows "(code = 0 \<or> code = 1 \<or> code = 2) \<and> (code = 2 \<longrightarrow> view w' = view w) \<and>
    (\<forall>a. counter_value (ShortHostname (ce_os env) w) (view w') a \<in>
       {counter_value (ShortHostname (ce_os env) w) (view w) a, 0}) \<and>
    (view w' = view w \<or> (\<exists>cfg ws. Load (ce_uc env) (ce_libs env) (ce_os env) w (fg_config fl) = (Some cfg, ws, None) \<and>
      (\<forall>k. k \<notin> (\<Union>a\<in>set (cfg_actions cfg). set (keys (cli_store env w cfg) a)) \<longrightarrow> view w' k = view w k)))"
  using assms(2,5,4)
proof (cases rule: cmdClear_cases)
  case (body cfg ws lg w1 w2)
  have host: "ShortHostname (ce_os env) w1 = ShortHostname (ce_os env) w" "cli_store env w1 cfg = cli_store env w cfg"
    using ShortHostname_same [OF assms(3), of clear_flags w "fg_config fl"] body(3) by (simp_all add: cli_store_def)
  have "env_good (ce_client env (cfg_redis cfg), view)" using assms(1) by (simp add: env_good_def)
  from clear_body_facts [OF this assms(2) body(5)] body(2,4,6) show ?thesis
    unfolding host by auto
qed (auto simp: parseExit_def)

lemma clear_is_contained_witness:
  "\<exists>w'. cmdClear cli_example two_server [''-c'', ''/etc/logstat.yaml'', ''--action'', ''nosuchword''] = (w', 2) \<and>
     sv_db w' = two_counters"
proof -
  let ?args = "[''-c'', ''/etc/logstat.yaml'', ''--action'', ''nosuchword'']"
  obtain w' code where c: "cmdClear cli_example two_server ?args = (w', code)" by fastforce
  have "snd (cmdClear cli_example two_server ?args) = 2" by code_simp
  with c have c2: "cmdClear cli_example two_server ?args = (w', 2)" by simp
  obtain fl msg e where p: "flag_Parse (ce_uc cli_example) clear_flags ?args no_flags = (fl, msg, e)" by (metis prod_cases3)
  have contract: "redis_contract (ce_client cli_example rc) sv_db" for rc
    by (simp add: cli_example_def server_contract)
  have quiet: "quiet_os (ce_os cli_example) view" for view :: "server \<Rightarrow> 'v"
    by (simp add: cli_example_def quiet_example)
  from clear_is_contained [OF contract quiet quiet p c2] have "sv_db w' = sv_db two_server" by blast
  with c2 show ?thesis by (auto simp: two_server_def)
qed

subsection \<open>logstat run\<close>

text \<open>What opening and writing the log file does to the views of \<open>flock_contract\<close>.\<close>

definition log_contract :: "'w os \<Rightarrow> 'w lock_view \<Rightarrow> bool" where
  "log_contract os lv \<longleftrightarrow>
     (\<forall>w p w' r. os_open_append os w p = (w', r) \<longrightarrow> open_outcome lv p w w' r) \<and>
     (\<forall>w f s w' r. os_write os w f s = (w', r) \<longrightarrow> same_locks lv w w')"

lemma log_contractD:
  assumes "log_contract os lv"
  shows "os_open_append os w p = (w', ro) \<Longrightarrow> open_outcome lv p w w' ro"
    and "os_write os w f s = (w', r) \<Longrightarrow> same_locks lv w w'"
  using assms unfolding log_contract_def by blast+

lemma say_locks:
  assumes "log_contract (ce_os env) lv"
  shows "same_locks lv w (say env lg l msg attrs w)"
proof -
  have "same_locks lv w (fst (os_write (ce_os env) w f s))" for f s
    using log_contractD(2) [OF assms] by (metis prod.collapse)
  then show ?thesis by (simp add: say_def Log_def Handle_def output_write_def split: writer.split)
qed

text \<open>A file that is opened and closed again leaves no trace among descriptors and locks.\<close>

lemma open_close_locks:
  assumes "flock_contract os lv" "log_contract os lv" "os_open_append os w p = (w1, Inr f)" "os_close os w1 f = (w2, r)"
  shows "same_locks lv w w2"
proof -
  have o: "lv_file_of lv w f = None" "lv_file_of lv w1 = (lv_file_of lv w)(f \<mapsto> lv_ino lv p)"
    "lv_holder lv w1 = lv_holder lv w"
    using log_contractD(1) [OF assms(2,3)] by (simp_all add: open_outcome_def)
  have "lv_holder lv w i \<noteq> Some f" for i using view_okD [OF assms(1), of w] o(1) by (auto simp: view_ok_def)
  with o closeD [OF assms(1,4)] show ?thesis
    by (auto simp: same_locks_def close_outcome_def dropped_def fun_eq_iff)
qed

lemma ensureDir_locks:
  "flock_contract os lv \<Longrightarrow> ensureDir os w dir = (w', r) \<Longrightarrow> same_locks lv w w'"
  by (auto simp: ensureDir_def split: if_split_asm prod.split_asm option.split_asm dest: mkdirD)

lemma CheckPaths_locks:
  assumes "flock_contract os lv" "log_contract os lv" "CheckPaths os w c = (w', r)"
  shows "same_locks lv w w'"
proof -
  obtain w1 e1 where 1: "ensureDir os w (Dir (cfg_lock_file c)) = (w1, e1)" by fastforce
  obtain w2 e2 where 2: "ensureDir os w1 (Dir (l_file (cfg_logging c))) = (w2, e2)" by fastforce
  obtain w3 o3 where 3: "os_open_append os w2 (l_file (cfg_logging c)) = (w3, o3)" by fastforce
  note s1 = ensureDir_locks [OF assms(1) 1] and s2 = ensureDir_locks [OF assms(1) 2]
  show ?thesis
  proof (cases "e1 = None \<and> l_output (cfg_logging c) = OutputFile \<and> e2 = None")
    case False
    with assms(3) 1 2 s1 s2 show ?thesis
      by (auto simp: CheckPaths_def Let_def split: option.split_asm if_split_asm intro: same_locks_trans)
  next
    case True
    show ?thesis
    proof (cases o3)
      case (Inl e)
      with log_contractD(1) [OF assms(2) 3] have "same_locks lv w2 w3" by (simp add: open_outcome_def)
      moreover have "w' = w3" using True Inl assms(3) 1 2 3 by (auto simp: CheckPaths_def Let_def)
      ultimately show ?thesis using s1 s2 by (metis same_locks_trans)
    next
      case (Inr f)
      obtain w4 e4 where 4: "os_close os w3 f = (w4, e4)" by fastforce
      have "w' = w4" using True Inr assms(3) 1 2 3 4 by (auto simp: CheckPaths_def Let_def split: option.split_asm)
      with open_close_locks [OF assms(1,2) 3 [unfolded Inr] 4] s1 s2 show ?thesis by (metis same_locks_trans)
    qed
  qed
qed

lemma quiet_CheckPaths:
  assumes "quiet_os os view" "CheckPaths os w c = (w', r)"
  shows "view w' = view w"
proof -
  have d: "view v' = view v" if "ensureDir os v dir = (v', e)" for v dir v' e
    using that by (auto simp: ensureDir_def split: if_split_asm prod.split_asm option.split_asm
        dest: quiet_osD(1) [OF assms(1)])
  show ?thesis
    using assms(2)
    by (auto simp: CheckPaths_def Let_def split: if_split_asm prod.split_asm option.split_asm sum.split_asm
        dest!: d quiet_osD(2) [OF assms(1)] quiet_osD(7) [OF assms(1)])
qed

lemma quiet_Acquire:
  assumes "quiet_os os view" "Acquire os w p = (w', r)"
  shows "view w' = view w"
proof -
  have c: "view (fst (os_close os v f)) = view v" "view (fst (os_write_at os v f x n)) = view v" for v f x n
    using assms(1) by (simp_all add: quiet_os_def)
  show ?thesis
    using assms(2)
    by (auto simp: Acquire_def c split: prod.split_asm option.split_asm sum.split_asm
        dest!: quiet_osD(1) [OF assms(1)] quiet_osD(3) [OF assms(1)] quiet_osD(6) [OF assms(1)] quiet_osD(8) [OF assms(1)])
qed

text \<open>The daemon between the lock and its release: the lock is given back whatever the result.\<close>

lemma run_locked_locks:
  assumes "flock_contract (ce_os env) lv" "log_contract (ce_os env) lv"
    "\<And>ev lg w d. lv_holder lv (fst (serve ev lg w d)) = lv_holder lv w"
    "run_locked env serve cfg lg lk w = (w', lg', code)"
  shows "lv_holder lv w' i = (if lk_f lk \<noteq> None \<and> lv_holder lv w i = lk_f lk then None else lv_holder lv w i)"
    "code = 0 \<or> code = 1 \<or> code = 2"
proof -
  obtain d where d: "run_locked env serve cfg lg lk w =
      (case serve (daemon_env env cfg) lg w d of
           (w1, lg1, res) \<Rightarrow>
             (let (w2, code) =
                (case res of
                   Returned (Some err) \<Rightarrow> (say env lg1 LevelError ''daemon failed'' [(''error'', VError err)] w1, 1)
                 | Returned None \<Rightarrow> (w1, 0)
                 | Panicked _ \<Rightarrow> (w1, 2))
              in (fst (Release (ce_os env) w2 (Some lk)), lg1, code)))"
    by (simp add: run_locked_def Let_def)
  obtain w1 lg1 res where s: "serve (daemon_env env cfg) lg w d = (w1, lg1, res)" by (metis prod_cases3)
  have h1: "lv_holder lv w1 = lv_holder lv w" using assms(3) [of "daemon_env env cfg" lg w d] s by simp
  obtain w2 where r: "w' = fst (Release (ce_os env) w2 (Some lk))" and h2: "lv_holder lv w2 = lv_holder lv w1"
    and "code = 0 \<or> code = 1 \<or> code = 2"
    using assms(4) s say_locks [OF assms(2)]
    by (auto simp: d same_locks_def split: run_result.split_asm option.split_asm)
  then show "code = 0 \<or> code = 1 \<or> code = 2" by simp
  obtain l' r' where "Release (ce_os env) w2 (Some lk) = (w', l', r')" using r by (metis fst_conv prod_cases3)
  from Release_cases(2) [OF assms(1) this] h1 h2
  show "lv_holder lv w' i = (if lk_f lk \<noteq> None \<and> lv_holder lv w i = lk_f lk then None else lv_holder lv w i)"
    by simp
qed

text \<open>
  C19. \<open>logstat run\<close> gives back every lock it takes, on every way out, and a run whose lock file is held by
  another instance exits with 1 without starting the daemon and without a Redis command.
\<close>

theorem run_takes_the_lock_first:
  assumes "flock_contract (ce_os env) lv" "log_contract (ce_os env) lv" "quiet_os (ce_os env) view"
    "\<And>ev lg w d. lv_holder lv (fst (serve ev lg w d)) = lv_holder lv w"
    "run_body env serve cfg lg w = (w', lg', code)"
  shows "lv_holder lv w' = lv_holder lv w \<and> (code = 0 \<or> code = 1 \<or> code = 2) \<and>
    (lv_holder lv w (lv_ino lv (cfg_lock_file cfg)) \<noteq> None \<longrightarrow>
       code = 1 \<and> view w' = view w \<and> (\<forall>serve'. run_body env serve' cfg lg w = (w', lg', code)))"
proof -
  obtain w1 e1 where c: "CheckPaths (ce_os env) w cfg = (w1, e1)" by fastforce
  note s1 = CheckPaths_locks [OF assms(1,2) c] and v1 = quiet_CheckPaths [OF assms(3) c]
  have say: "lv_holder lv (say env g l m as v) = lv_holder lv v" for g l m as v
    using say_locks [OF assms(2)] by (simp add: same_locks_def)
  show ?thesis
  proof (cases e1)
    case (Some err)
    with c s1 v1 assms(5) show ?thesis
      by (auto simp: run_body_def say quiet_say [OF assms(3)] same_locks_def)
  next
    case None
    obtain w2 r where a: "Acquire (ce_os env) w1 (cfg_lock_file cfg) = (w2, r)" by fastforce
    note v2 = quiet_Acquire [OF assms(3) a]
    have failed: ?thesis if "r = Inl err" "same_locks lv w1 w2" for err
      using that c None a s1 v1 v2 assms(5)
      by (auto simp: run_body_def say quiet_say [OF assms(3)] same_locks_def)
    from assms(1) a show ?thesis
    proof (cases rule: Acquire_cases)
      case (granted f)
      from c None a granted(1) assms(5)
      have "run_locked env serve cfg lg \<lparr>lk_path = cfg_lock_file cfg, lk_f = Some f\<rparr> w2 = (w', lg', code)"
        by (simp add: run_body_def)
      note rl = run_locked_locks [OF assms(1,2,4) this]
      have "lv_holder lv w1 i \<noteq> Some f" for i
        using view_okD [OF assms(1), of w1] granted(2) by (auto simp: view_ok_def)
      then have "lv_holder lv w' = lv_holder lv w"
        using rl(1) granted(4,5) s1 by (auto simp: fun_eq_iff same_locks_def)
      with rl(2) granted(4) s1 show ?thesis by (auto simp: same_locks_def)
    next
      case (locked g)
      then show ?thesis by (intro failed) auto
    next
      case (failed err)
      then show ?thesis using \<open>\<And>err. r = Inl err \<Longrightarrow> same_locks lv w1 w2 \<Longrightarrow> ?thesis\<close> by blast
    qed
  qed
qed

definition lock_cli :: "(lock_world, unit) cli_env" where
  "lock_cli = \<lparr>ce_os = lock_os, ce_now = (\<lambda>w. noon), ce_uc = ascii_tables, ce_libs = example_libs,
     ce_client = (\<lambda>rc. \<lparr>rdb_do = (\<lambda>w c. (w, Inl broken_pipe)),
       rdb_exec = (\<lambda>w cs. (w, Some broken_pipe, map (\<lambda>c. Inl broken_pipe) cs))\<rparr>),
     ce_version = ''1.0'', ce_commit = ''none'', ce_date = ''unknown''\<rparr>"

lemma run_takes_the_lock_first_witness:
  "snd (snd (run_body lock_cli (\<lambda>ev lg w d. (w, lg, Returned None)) (Default\<lparr>cfg_lock_file := the_lock_file\<rparr>)
     (NewWriter 2 LevelInfo) held_world)) = 1"
proof -
  let ?serve = "\<lambda>ev lg w d. (w, lg, Returned None)"
  let ?cfg = "Default\<lparr>cfg_lock_file := the_lock_file\<rparr>"
  obtain w' lg' code where r: "run_body lock_cli ?serve ?cfg (NewWriter 2 LevelInfo) held_world = (w', lg', code)"
    by (metis prod_cases3)
  have f: "flock_contract (ce_os lock_cli) lock_os_view" by (simp add: lock_cli_def lock_os_contract)
  have l: "log_contract (ce_os lock_cli) lock_os_view"
    by (auto simp: lock_cli_def lock_os_def log_contract_def open_outcome_def)
  have q: "quiet_os (ce_os lock_cli) (\<lambda>w. ())" by (simp add: quiet_os_def)
  have h: "lv_holder lock_os_view (fst (?serve ev lg w d)) = lv_holder lock_os_view w" for ev lg w d by simp
  have "lv_holder lock_os_view held_world (lv_ino lock_os_view (cfg_lock_file ?cfg)) \<noteq> None" by code_simp
  with run_takes_the_lock_first [OF f l q h r] have "code = 1" by blast
  with r show ?thesis by simp
qed

text \<open>
  The log file is opened before \<open>CheckPaths\<close> runs: when that fails, for instance because its directory does
  not exist, the command ends there, and the directory \<open>CheckPaths\<close> would create is never created.
\<close>

lemma log_file_is_opened_before_CheckPaths:
  assumes "flag_Parse (ce_uc env) run_flags args no_flags = (fl, txt, None)" "fg_config fl \<noteq> []"
    "Load (ce_uc env) (ce_libs env) (ce_os env) w (fg_config fl) = (Some cfg, ws, None)"
    "l_output (cfg_logging cfg) = OutputFile" "os_open_append (ce_os env) w (l_file (cfg_logging cfg)) = (w1, Inl err)"
  shows "\<exists>msg v. v \<in> {w, w1} \<and> cmdRun env serve w args = (print_err env msg v, 1)"
proof (cases "ParseLevel (ce_uc env) (l_level (cfg_logging cfg))")
  case (Inl e)
  with assms show ?thesis by (auto simp: cmdRun_def cli_setup_def Logging_New_def)
next
  case (Inr lv)
  with assms show ?thesis by (auto simp: cmdRun_def cli_setup_def Logging_New_def output_open_def Let_def)
qed

subsection \<open>Flags\<close>






end
