(* ===== verification/End_To_End.thy ===== *)
theory End_To_End
  imports Runtime_Props Cli_Props
begin

section \<open>A whole process\<close>

text \<open>
  The parts put together: \<open>logstat run\<close> from the lock it holds to its exit code, with \<open>Daemon.New\<close>, the
  start of \<open>Run\<close>, its loop and the last flush on the way, against the database.
\<close>

subsection \<open>What a run starts with\<close>






subsection \<open>How a run ends\<close>





subsection \<open>From the lock to the exit code\<close>

















end
