(* ===== verification/Spec2Isabelle.thy ===== *)
theory Spec2Isabelle
  imports Config_Props Store_Props Logging_Props Daemon_Props Runtime_Props Status_Page_Props Server_Props
    Lockfile_Props Cli_Props End_To_End
begin

text \<open>
  \<^bold>\<open>logstat: a verification development\<close>

  logstat follows a log file, counts for every configured word the lines in which it occurs, and adds
  the counts to integer counters in Redis. This development models its Go code under \<open>src/internal\<close>
  and \<open>src/cmd\<close> and proves what makes it correct.

  \<^bold>\<open>The program and its model\<close>

  \<^item> \<open>Prelude\<close>: \<open>int64\<close> (64-bit words read with \<open>sint\<close>), Go maps as association lists with distinct
    keys, shared lemmas.
  \<^item> \<open>Go_Strings\<close>, \<open>Go_Fmt\<close>, \<open>Go_Time\<close>: what the program uses of Go's standard library: UTF-8
    decoding, \<open>strings\<close>, \<open>strconv\<close>, \<open>fmt.Sprintf\<close>, errors as values with \<open>errors.Is\<close> and
    \<open>errors.As\<close>, \<open>net.SplitHostPort\<close>, durations and dates. Strings are lists of bytes. The Unicode tables
    (simple lower case, printable runes) are a record \<open>unicode\<close> passed to whatever reads them.
  \<^item> \<open>Os\<close>: the system calls as a record of functions over an opaque world, and \<open>filepath.Dir\<close>.
  \<^item> \<open>Go_Http\<close>: the escaping of \<open>html/template\<close> and the \<open>ServeMux\<close> for the patterns the program registers.
  \<^item> \<open>Counter\<close> (counter/counter.go): the in-memory buffer. Locale \<open>increment_buffer\<close> is its contract
    towards the daemon, \<open>flight_step\<close> the interleaving of the consumer goroutine with a flush.
  \<^item> \<open>Config\<close>, \<open>Config_Props\<close> (config/config.go): defaults, \<open>Load\<close>, \<open>Validate\<close>, \<open>Overlaps\<close>,
    \<open>CheckPaths\<close>. The YAML decoder and the cron parser are the parameter \<open>config_libs\<close>.
  \<^item> \<open>Redis\<close>: the commands the program sends, their documented effect on a database, and the contract
    of the client (\<open>redis_contract\<close>): go-redis repeats a command after a lost connection, so the last
    execution of an answered command gave the answer and may have been preceded by others, and a failed
    command may have been executed any number of times; a pipeline goes through the server in passes. Under
    \<open>clean_failures\<close> what is answered was executed once and what failed changed no value. The theory also has
    small servers that meet the contracts, for the witnesses.
  \<^item> \<open>Store\<close>, \<open>Store_Props\<close> (store/store.go): the key schema and the operations; locales \<open>key_schema\<close> and
    \<open>counter_store\<close>. \<open>Reader\<close>: \<open>Store.Counters\<close> and its contract \<open>counter_reader\<close>, the interface
    \<open>metrics.Reader\<close>.
  \<^item> \<open>Logging\<close>, \<open>Logging_Props\<close> (logging/logging.go): levels, rendering of a record, the output that can
    be reopened.
  \<^item> \<open>Daemon\<close> (daemon/daemon.go): \<open>Flush\<close>, \<open>Reset\<close>, \<open>consume\<close>, \<open>drain\<close> and what they call. \<open>Ledger\<close>
    follows the increments through them. \<open>Run\<close>: \<open>Daemon.Run\<close>, its start as a function and its select loop
    as the step relation \<open>run_step\<close>. \<open>Run_Ledger\<close>: runs against the abstract ledger. \<open>Alerts\<close>: the outage
    messages. \<open>Delivery\<close>: operations against a server that answers. Properties in \<open>Daemon_Props\<close>,
    \<open>Delivery_Props\<close>.
  \<^item> What holds throughout a run besides the ledger: \<open>Kept\<close> (locale \<open>store_kept\<close> lifts what every command of the
    store keeps to whole runs; it is interpreted for the integer counters, for keys that exist, and for the
    keys of other hosts), \<open>Heartbeat\<close> (the heartbeat of a word against its counter), \<open>Waiting\<close> (locale
    \<open>counts_waits\<close>, calls of a client that ends in no connection). Properties in \<open>Runtime_Props\<close>.
  \<^item> \<open>Metrics\<close>, \<open>Metrics_Props\<close> (metrics/collector.go, format.go and the data of status.go), \<open>Status_Page\<close>,
    \<open>Status_Page_Props\<close> (the template and its handler), \<open>Server\<close>, \<open>Server_Props\<close> (metrics/server.go).
  \<^item> \<open>Lockfile\<close>, \<open>Lockfile_Props\<close> (lockfile/lockfile.go): \<open>Acquire\<close> and \<open>Release\<close>, the contract of
    \<open>flock(2)\<close>, locale \<open>exclusive_lock\<close>, and \<open>lock_step\<close> for any number of instances.
  \<^item> \<open>Cli\<close>, \<open>Cli_Props\<close> (cmd/logstat/main.go): the flag package as the program uses it, the commands
    \<open>run\<close> and \<open>clear\<close>, the exit codes.
  \<^item> \<open>End_To_End\<close>: \<open>run\<close> from its lock to its exit code with \<open>Daemon.New\<close>, \<open>Daemon.Run\<close> and the database:
    \<open>served\<close> says that the argument \<open>serve\<close> of \<open>run_locked\<close> behaves like a run of the step relation.

  State is a record with the fields of the Go struct; an operation takes the world and the state and
  returns them. A method that returns \<open>error\<close> returns \<open>goerr option\<close>, one that returns a value or an error
  a sum. A mutex makes an operation one step. Calls of the daemon's logger are recorded in \<open>d_log\<close>; the
  command line's are written through \<open>Logging\<close>.

  \<^bold>\<open>What the lemmas show\<close>

  \<^item> Counting: \<open>ProcessLine\<close> is substring matching, a fresh counter counts every line once, and no
    interleaving of consumer and flush loses an increment.
  \<^item> The ledger: \<open>shown\<close> is what Redis counts for a word (zero while a reset is owed), \<open>held\<close> what is
    buffered. Over any run without a reset, \<open>shown + held\<close> grows by exactly the matching lines if
    failures are clean and by at least that otherwise; each step of the loop refines a step of the abstract
    ledger; a reset is applied or owed; a flush against a working server delivers everything, and a
    cancelled run returns with everything delivered.
  \<^item> End to end: a process that exits with 0 has added to each counter exactly the lines that match.
  \<^item> At every moment of a run the heartbeat of a word shows its counter or is remembered, keys of other hosts are
    untouched, an outage costs one wait per flush, and a dead exporter ends the run with its error.
  \<^item> Failures: a flush stops at the first sign of an outage; outage and recovery messages alternate;
    an accepted configuration panics at the start only if \<open>flush_interval\<close> overflows or the path of the
    exporter is an encoded slash; with an expiry that overflows nothing is ever counted.
  \<^item> Redis: every operation stays within its keys, \<open>Init\<close> never overwrites, expiries are renewed,
    \<open>Counters\<close> tells an unreadable key from an outage.
  \<^item> Configuration: \<open>Validate\<close> accepts exactly the valid configurations and reports every problem.
  \<^item> Logging: a record is one line whatever its attributes hold; no descriptor leaks over reopens.
  \<^item> Exporter: a scrape is well formed for the registry, reports an outage as data, and does not depend
    on the password; the status page shows the same numbers, and nothing it shows can become markup;
    every request reaches the handler of its path and no other.
  \<^item> Instances: at most one holds the lock of a file, a refused or failed start leaks nothing, \<open>run\<close>
    gives its lock back on every way out, \<open>clear\<close> zeroes exactly the selected words or says so in its exit
    code.

  \<^bold>\<open>Bounds\<close>

  Counters in memory are 64-bit words; the theorems over runs assume fewer than \<open>2^63\<close> lines, beyond
  which Go's \<open>int64\<close> wraps. A second count becomes a \<open>time.Duration\<close> without overflow up to 9223372036
  seconds; what happens above is stated. No definition uses fuel: every loop of the program is structural
  or, for the flags, shrinks the argument list. The lines the consumer goroutine takes while a flush runs
  are an argument of \<open>Flush\<close> (\<open>arrivals\<close>) and a label of \<open>run_step\<close>; their position inside the flush does
  not matter, because only \<open>Drain\<close> and \<open>Restore\<close> touch the counter and \<open>Restore\<close> commutes with
  \<open>ProcessLine\<close>. Nothing else writes to the keys during an operation.

  \<^bold>\<open>Not modelled\<close>

  The connections of \<open>net/http\<close>, the Prometheus registry and its own collectors, the help texts of the
  metrics, go-redis, the tailer, the cron scheduler and the signal wiring are libraries or calls into them: what
  the program relies on enters as parameters with their contracts. \<open>float64\<close> values are kept as the exact
  numbers they were converted from, so rounding above \<open>2^53\<close> is not seen, and \<open>formatUptime\<close> divides
  exactly. Timeouts of contexts appear as failing calls. \<open>Store.Close\<close>, \<open>WithCronOptions\<close>, \<open>NewRegistry\<close> and the
  one-line accessors only hand a value on.
\<close>

end
